(* ===== verification/Exchange_Prelude.thy ===== *)
theory Exchange_Prelude
  imports Main "HOL-Library.Word"
begin

text \<open>
  Shared ground of the development: the machine integer types of the program, the model of
  \<open>std::map\<close> (an association list kept sorted by a comparator) with its laws in the locale
  \<open>key_order\<close>, sums over the entries of a finite map, and the word arithmetic facts the
  component theories use. The collections \<open>omap_simps\<close> and \<open>nowrap\<close> carry the automation.
\<close>

named_theorems omap_simps \<open>laws of the ordered map operations\<close>
named_theorems nowrap \<open>word arithmetic that does not wrap around\<close>

section \<open>Machine integers\<close>

text \<open>\<open>i64\<close> is the same type of words as \<open>u64\<close>; signed readings use \<open>sint\<close> and \<open><s\<close>.\<close>

type_synonym u32 = "32 word"
type_synonym u64 = "64 word"
type_synonym i64 = "64 word"

abbreviation u64_max :: u64 where
  "u64_max \<equiv> 18446744073709551615"

abbreviation i64_max :: u64 where
  "i64_max \<equiv> 9223372036854775807"

lemma unat_u64_max: "unat u64_max = 2 ^ 64 - 1"
  by simp

lemma unat_lt64: "unat (x :: u64) < 2 ^ 64"
  using unsigned_less [of x, where ?'a = nat] by simp

lemma le_u64_max [simp]: "(x :: u64) \<le> u64_max"
proof -
  have "unat x < 2 ^ 64" by (rule unat_lt64)
  then show ?thesis by (simp add: word_le_nat_alt)
qed

lemma unat_add_capped [nowrap]:
  assumes "b \<le> m" and "a \<le> m - b"
  shows "unat (a + b :: u64) = unat a + unat b"
proof -
  have "unat a \<le> unat m - unat b"
    using assms by (simp add: word_le_nat_alt unat_sub)
  moreover have "unat b \<le> unat m" using assms(1) by (simp add: word_le_nat_alt)
  moreover have "unat m < 2 ^ 64" by (rule unat_lt64)
  ultimately have "unat a + unat b < 2 ^ 64" by simp
  then show ?thesis by (simp add: unat_word_ariths)
qed

lemma unat_add_small [nowrap]:
  "unat a + unat b < 2 ^ 64 \<Longrightarrow> unat (a + b :: u64) = unat a + unat b"
  by (simp add: unat_word_ariths)

lemma unat_diff_le [nowrap]:
  "unat b \<le> unat a \<Longrightarrow> unat (a - b :: u64) = unat a - unat b"
  by (simp add: unat_sub word_le_nat_alt)

lemma unat_min: "unat (min a b :: u64) = min (unat a) (unat b)"
  by (simp add: min_def word_le_nat_alt)

lemma sint_nonneg_unat:
  assumes "unat (a :: i64) < 2 ^ 63"
  shows "sint a = int (unat a)"
proof -
  have "int (unat a) < int (2 ^ 63)"
    using assms by (simp only: of_nat_less_iff)
  then have "uint a < 2 ^ 63"
    by (simp only: uint_nat of_nat_power of_nat_numeral)
  then have "signed_take_bit (LENGTH(64) - Suc 0) (uint a) = uint a"
    by (intro signed_take_bit_int_eq_self) (auto intro: order_trans [OF _ uint_ge_0])
  then show ?thesis
    by (metis sint_uint uint_nat)
qed

lemma sint_positive_unat:
  assumes "0 <s (p :: i64)"
  shows "unat p < 2 ^ 63" and "sint p = int (unat p)" and "0 < unat p"
proof -
  have pos: "0 < sint p" using assms by (simp add: word_sless_alt)
  have "sint p \<le> uint p - 2 ^ Suc 63" if "2 ^ 63 \<le> uint p"
    using signed_take_bit_int_less_eq [OF that]
    by (simp only: sint_uint len_bit0 len_num1) simp
  moreover have "uint p < 2 ^ Suc 63" using uint_lt2p [of p] by simp
  ultimately have "uint p < 2 ^ 63" using pos by linarith
  then have "int (unat p) < int (2 ^ 63)" by (simp only: uint_nat of_nat_power of_nat_numeral)
  then show "unat p < 2 ^ 63" by (simp only: of_nat_less_iff)
  then show eq: "sint p = int (unat p)" by (rule sint_nonneg_unat)
  show "0 < unat p" using pos unfolding eq by (simp only: of_nat_0_less_iff)
qed

lemma sint_range64: "- (2 ^ 63) \<le> sint (a :: i64)" "sint (a :: i64) < 2 ^ 63"
  using sint_greater_eq [of a] sint_less [of a] by simp_all

lemma sint_of_int_small:
  "- (2 ^ 63) \<le> k \<Longrightarrow> k < 2 ^ 63 \<Longrightarrow> sint (word_of_int k :: i64) = k"
  by (simp add: sint_sbintrunc' signed_take_bit_int_eq_self)

lemma sint_add_small:
  assumes "- (2 ^ 63) \<le> sint a + sint b" and "sint a + sint b < 2 ^ 63"
  shows "sint (a + b :: i64) = sint a + sint b"
  using assms by (simp add: sint_word_ariths(1) signed_take_bit_int_eq_self)

lemma sint_sub_small:
  assumes "- (2 ^ 63) \<le> sint a - sint b" and "sint a - sint b < 2 ^ 63"
  shows "sint (a - b :: i64) = sint a - sint b"
  using assms by (simp add: sint_word_ariths(2) signed_take_bit_int_eq_self)

lemma sint_add_uint:
  assumes "- (2 ^ 63) \<le> sint p + uint x" and "sint p + uint x < 2 ^ 63"
  shows "sint (p + x :: i64) = sint p + uint x"
proof -
  have "p + x = word_of_int (sint p + uint x)" by simp
  then show ?thesis using sint_of_int_small [OF assms] by metis
qed

lemma sint_sub_uint:
  assumes "- (2 ^ 63) \<le> sint p - uint x" and "sint p - uint x < 2 ^ 63"
  shows "sint (p - x :: i64) = sint p - uint x"
proof -
  have "p - x = word_of_int (sint p - uint x)" by simp
  then show ?thesis using sint_of_int_small [OF assms] by metis
qed

section \<open>Ordered maps\<close>

text \<open>
  \<open>std::map<K, V, Cmp>\<close> as the list of its entries in iteration order. The comparator is the
  parameter \<open>lt\<close>; \<open>begin()\<close> is the head of the list, \<open>find\<close> is \<open>map_of\<close>.
\<close>

type_synonym ('k, 'v) omap = "('k \<times> 'v) list"

fun omap_put :: "('k \<Rightarrow> 'k \<Rightarrow> bool) \<Rightarrow> 'k \<Rightarrow> 'v \<Rightarrow> ('k, 'v) omap \<Rightarrow> ('k, 'v) omap" where
  "omap_put lt k v [] = [(k, v)]"
| "omap_put lt k v ((k', v') # m) =
     (if lt k k' then (k, v) # (k', v') # m
      else if k = k' then (k, v) # m
      else (k', v') # omap_put lt k v m)"

fun omap_erase :: "'k \<Rightarrow> ('k, 'v) omap \<Rightarrow> ('k, 'v) omap" where
  "omap_erase k [] = []"
| "omap_erase k ((k', v') # m) = (if k' = k then m else (k', v') # omap_erase k m)"

definition omap_ok :: "('k \<Rightarrow> 'k \<Rightarrow> bool) \<Rightarrow> ('k, 'v) omap \<Rightarrow> bool" where
  "omap_ok lt m \<longleftrightarrow> sorted_wrt lt (map fst m)"

lemma omap_ok_Nil [simp]: "omap_ok lt []"
  by (simp add: omap_ok_def)

lemma omap_ok_Cons [simp]:
  "omap_ok lt ((k, v) # m) \<longleftrightarrow> (\<forall>k' \<in> fst ` set m. lt k k') \<and> omap_ok lt m"
  by (auto simp: omap_ok_def)

lemma fst_set_omap_put: "fst ` set (omap_put lt k v m) = insert k (fst ` set m)"
  by (induction lt k v m rule: omap_put.induct) auto

lemma set_omap_erase_subset: "set (omap_erase k m) \<subseteq> set m"
  by (induction k m rule: omap_erase.induct) auto

lemma omap_erase_absent: "k \<notin> fst ` set m \<Longrightarrow> omap_erase k m = m"
  by (induction k m rule: omap_erase.induct) auto

lemma omap_put_middle:
  "\<lbrakk>\<forall>k' \<in> fst ` set xs. \<not> lt k k' \<and> k \<noteq> k'\<rbrakk>
   \<Longrightarrow> omap_put lt k v (xs @ ys) = xs @ omap_put lt k v ys"
  by (induction xs) auto

locale key_order =
  fixes lt :: "'k \<Rightarrow> 'k \<Rightarrow> bool"
  assumes lt_irrefl: "\<not> lt a a"
    and lt_trans: "lt a b \<Longrightarrow> lt b c \<Longrightarrow> lt a c"
    and lt_total: "lt a b \<or> a = b \<or> lt b a"
begin

lemma lt_asym: "lt a b \<Longrightarrow> \<not> lt b a"
  using lt_irrefl lt_trans by blast

lemma omap_ok_distinct: "omap_ok lt m \<Longrightarrow> distinct (map fst m)"
proof (induction m)
  case (Cons x m)
  then show ?case using lt_irrefl by (cases x) (fastforce simp: image_iff)
qed simp

lemma omap_ok_put: "omap_ok lt m \<Longrightarrow> omap_ok lt (omap_put lt k v m)"
proof (induction m)
  case (Cons x m)
  obtain k' v' where x: "x = (k', v')" by (cases x)
  from lt_total consider "lt k k'" | "k = k'" | "lt k' k" by blast
  then show ?case
    using Cons x lt_irrefl by cases (auto simp: fst_set_omap_put dest: lt_asym intro: lt_trans)
qed simp

lemma omap_ok_erase: "omap_ok lt m \<Longrightarrow> omap_ok lt (omap_erase k m)"
  by (induction m) (use set_omap_erase_subset in fastforce)+

lemma map_of_omap_put:
  "omap_ok lt m \<Longrightarrow> map_of (omap_put lt k v m) = (map_of m)(k \<mapsto> v)"
  by (induction m) (auto simp: fun_eq_iff lt_irrefl)

lemma map_of_omap_erase:
  "omap_ok lt m \<Longrightarrow> map_of (omap_erase k m) = (map_of m)(k := None)"
proof (induction m)
  case (Cons x m)
  obtain k' v' where x: "x = (k', v')" by (cases x)
  have "map_of m k' = None"
    using Cons.prems x lt_irrefl by (auto simp: map_of_eq_None_iff)
  then show ?case using Cons x by (auto simp: fun_eq_iff)
qed simp

lemma omap_put_present:
  assumes "omap_ok lt (xs @ (k, w) # ys)"
  shows "omap_put lt k v (xs @ (k, w) # ys) = xs @ (k, v) # ys"
proof -
  have "\<forall>k' \<in> fst ` set xs. lt k' k"
    using assms by (auto simp: omap_ok_def sorted_wrt_append)
  then have "\<forall>k' \<in> fst ` set xs. \<not> lt k k' \<and> k \<noteq> k'"
    using lt_asym lt_irrefl by blast
  then show ?thesis by (simp add: omap_put_middle lt_irrefl)
qed

lemmas omap_laws = omap_ok_put omap_ok_erase map_of_omap_put map_of_omap_erase

end

text \<open>Both iteration orders of a linearly ordered key type satisfy the comparator laws.\<close>

interpretation ascending: key_order "(<) :: 'k::linorder \<Rightarrow> 'k \<Rightarrow> bool"
  by unfold_locales auto

interpretation descending: key_order "(>) :: 'k::linorder \<Rightarrow> 'k \<Rightarrow> bool"
  by unfold_locales auto

lemmas omap_order_laws [omap_simps] = ascending.omap_laws descending.omap_laws

section \<open>Sums over the entries of a finite map\<close>

definition map_sum :: "('k::finite \<Rightarrow> 'v \<Rightarrow> nat) \<Rightarrow> ('k \<rightharpoonup> 'v) \<Rightarrow> nat" where
  "map_sum f m = (\<Sum>k\<in>UNIV. case m k of None \<Rightarrow> 0 | Some v \<Rightarrow> f k v)"

lemma sum_point_update:
  fixes g h :: "'k::finite \<Rightarrow> 'n::comm_monoid_add"
  assumes "\<And>k. k \<noteq> a \<Longrightarrow> g k = h k"
  shows "sum g UNIV + h a = sum h UNIV + g a"
proof -
  have "sum g (UNIV - {a}) = sum h (UNIV - {a})"
    by (rule sum.cong) (auto simp: assms)
  moreover have "sum g UNIV = g a + sum g (UNIV - {a})" by (simp add: sum.remove)
  moreover have "sum h UNIV = h a + sum h (UNIV - {a})" by (simp add: sum.remove)
  ultimately show ?thesis by (simp add: ac_simps)
qed

lemma map_sum_empty [simp]: "map_sum f Map.empty = 0"
  by (simp add: map_sum_def)

lemma map_sum_upd:
  "map_sum f (m(k \<mapsto> v)) + (case m k of None \<Rightarrow> 0 | Some w \<Rightarrow> f k w) = map_sum f m + f k v"
  unfolding map_sum_def
  by (rule sum_point_update [of k, THEN trans]) auto

lemma map_sum_change:
  "map_sum f (m(k := r)) + (case m k of None \<Rightarrow> 0 | Some w \<Rightarrow> f k w) =
     map_sum f m + (case r of None \<Rightarrow> 0 | Some v \<Rightarrow> f k v)"
  unfolding map_sum_def
  by (rule sum_point_update [of k, THEN trans]) auto

lemma map_sum_insert: "m k = None \<Longrightarrow> map_sum f (m(k \<mapsto> v)) = map_sum f m + f k v"
  using map_sum_upd [of f m k v] by simp

lemma map_sum_replace: "m k = Some w \<Longrightarrow> map_sum f (m(k \<mapsto> v)) + f k w = map_sum f m + f k v"
  using map_sum_upd [of f m k v] by simp

lemma map_sum_delete: "m k = Some w \<Longrightarrow> map_sum f (m(k := None)) + f k w = map_sum f m"
  unfolding map_sum_def
  using sum_point_update [of k "\<lambda>j. case (m(k := None)) j of None \<Rightarrow> 0 | Some v \<Rightarrow> f j v"
      "\<lambda>j. case m j of None \<Rightarrow> 0 | Some v \<Rightarrow> f j v"]
  by auto

lemma map_sum_member: "m k = Some w \<Longrightarrow> f k w \<le> map_sum f m"
  using map_sum_delete [of m k w f] by simp

lemma map_sum_zero_iff: "map_sum f m = 0 \<longleftrightarrow> (\<forall>k v. m k = Some v \<longrightarrow> f k v = 0)"
  by (auto simp: map_sum_def sum_eq_0_iff split: option.splits)

lemma map_sum_add: "map_sum (\<lambda>k v. f k v + g k v) m = map_sum f m + map_sum g m"
  unfolding map_sum_def sum.distrib [symmetric] by (rule sum.cong) (auto split: option.splits)

lemma map_sum_mono:
  "(\<And>k v. m k = Some v \<Longrightarrow> f k v \<le> g k v) \<Longrightarrow> map_sum f m \<le> map_sum g m"
  unfolding map_sum_def by (rule sum_mono) (auto split: option.splits)

lemma map_sum_cong: "(\<And>k v. m k = Some v \<Longrightarrow> f k v = g k v) \<Longrightarrow> map_sum f m = map_sum g m"
  unfolding map_sum_def by (rule sum.cong) (auto split: option.splits)

lemma map_upt_add: "map f [0..<m + n] = map f [0..<m] @ map (\<lambda>k. f (m + k)) [0..<n]"
  by (induction n) simp_all

lemma find_SomeD: "find P xs = Some x \<Longrightarrow> P x \<and> x \<in> set xs"
  by (induction xs) (auto split: if_splits)

end
