(* ===== verification/Domain.thy ===== *)
theory Domain
  imports Exchange_Prelude
begin

text \<open>
  The value types, orders, trades, requests and events of \<open>include/exchange_core/domain\<close> and
  \<open>include/exchange_core/api\<close>. The classes \<open>Price\<close> and \<open>Quantity\<close> wrap one machine word
  and are ordered by it (signed for prices); their comparison operators are the instances of
  \<open>linorder\<close> below. \<open>api::Price\<close> and \<open>api::Quantity\<close> are the bare words.
\<close>

section \<open>Identifiers and enumerations\<close>

type_synonym instrument_id = u32
type_synonym order_id = u64
type_synonym account_id = u64
type_synonym execution_id = u64
type_synonym raw_price = i64
type_synonym raw_quantity = u64

datatype side = Buy | Sell

datatype order_type = Limit | Market | IOC | FOK | Post_Only

datatype order_status = New_Order | Partially_Filled | Filled | Canceled | Rejected

datatype instrument_status = Active | Halted

datatype reject_reason =
    Invalid_Order
  | Duplicate_Order_Id
  | Unknown_Order_Id
  | Unknown_Instrument
  | Post_Only_Rejected
  | Fok_Not_Filled
  | Risk_Quantity_Limit
  | Risk_Notional_Limit
  | Risk_Fat_Finger_Limit
  | Risk_Position_Limit
  | Risk_Open_Order_Limit
  | Unauthorized_Order
  | Risk_Credit_Limit
  | Risk_Reference_Price_Unavailable
  | Unknown_Client
  | Invalid_Request_Sequence

fun opposite :: "side \<Rightarrow> side" where
  "opposite Buy = Sell"
| "opposite Sell = Buy"

lemma UNIV_side: "UNIV = {Buy, Sell}"
  using side.exhaust by blast

lemma opposite_neq [simp]: "opposite s \<noteq> s" "s \<noteq> opposite s"
  by (cases s; simp)+

section \<open>Prices and quantities\<close>

datatype price = Price (price_value: raw_price)

datatype quantity = Quantity (quantity_value: raw_quantity)

definition price_lt :: "price \<Rightarrow> price \<Rightarrow> bool" where
  "price_lt left right \<longleftrightarrow> price_value left <s price_value right"

definition price_le :: "price \<Rightarrow> price \<Rightarrow> bool" where
  "price_le left right \<longleftrightarrow> price_value left \<le>s price_value right"

definition quantity_lt :: "quantity \<Rightarrow> quantity \<Rightarrow> bool" where
  "quantity_lt left right \<longleftrightarrow> quantity_value left < quantity_value right"

text \<open>\<open>Quantity::operator-=\<close>: unsigned subtraction, which wraps.\<close>

definition quantity_sub :: "quantity \<Rightarrow> quantity \<Rightarrow> quantity" where
  "quantity_sub left right = Quantity (quantity_value left - quantity_value right)"

text \<open>
  The operators as instances of the library's classes; \<open>>\<close> and \<open>>=\<close> of the source are the
  abbreviations of the classes with the arguments swapped.
\<close>

instantiation price :: linorder
begin

definition less_eq_price where less_eq_price_is: "less_eq_price = price_le"

definition less_price where less_price_is: "less_price = price_lt"

lemma less_price_def: "left < right \<longleftrightarrow> price_value left <s price_value right"
  by (simp add: less_price_is price_lt_def)

lemma less_eq_price_def: "left \<le> right \<longleftrightarrow> price_value left \<le>s price_value right"
  by (simp add: less_eq_price_is price_le_def)

instance
proof
  fix a b c :: price
  show "(a < b) = (a \<le> b \<and> \<not> b \<le> a)"
    by (auto simp: less_price_def less_eq_price_def word_sless_alt word_sle_eq)
  show "a \<le> a" by (simp add: less_eq_price_def word_sle_eq)
  show "a \<le> c" if "a \<le> b" "b \<le> c"
    using that by (simp add: less_eq_price_def word_sle_eq)
  show "a = b" if "a \<le> b" "b \<le> a"
    using that by (cases a; cases b) (auto simp: less_eq_price_def word_sle_eq dest: signed_word_eqI)
  show "a \<le> b \<or> b \<le> a" by (auto simp: less_eq_price_def word_sle_eq)
qed

end

instantiation quantity :: linorder
begin

definition less_eq_quantity :: "quantity \<Rightarrow> quantity \<Rightarrow> bool" where
  "less_eq_quantity left right \<longleftrightarrow> quantity_value left \<le> quantity_value right"

definition less_quantity where less_quantity_is: "less_quantity = quantity_lt"

lemma less_quantity_def: "left < right \<longleftrightarrow> quantity_value left < quantity_value right"
  by (simp add: less_quantity_is quantity_lt_def)

instance
proof
  fix a b :: quantity
  show "a = b" if "a \<le> b" "b \<le> a"
    using that by (cases a; cases b) (simp add: less_eq_quantity_def)
qed (auto simp: less_eq_quantity_def less_quantity_def)

end

instantiation quantity :: minus
begin

definition minus_quantity where minus_quantity_is: "minus_quantity = quantity_sub"

lemma minus_quantity_def: "left - right = Quantity (quantity_value left - quantity_value right)"
  by (simp add: minus_quantity_is quantity_sub_def)

instance ..

end

definition price_is_positive :: "price \<Rightarrow> bool" where
  "price_is_positive p \<longleftrightarrow> 0 <s price_value p"

definition quantity_is_positive :: "quantity \<Rightarrow> bool" where
  "quantity_is_positive q \<longleftrightarrow> 0 < quantity_value q"

text \<open>The number a quantity stands for; all conservation laws are stated over it.\<close>

definition qnat :: "quantity \<Rightarrow> nat" where
  "qnat q = unat (quantity_value q)"

named_theorems quantity_simps \<open>reading quantities as natural numbers\<close>

lemma qnat_Quantity [quantity_simps]: "qnat (Quantity w) = unat w"
  by (simp add: qnat_def)

lemma qnat_zero [simp]: "qnat (Quantity 0) = 0"
  by (simp add: qnat_def)

lemma quantity_eq_iff: "a = b \<longleftrightarrow> qnat a = qnat b" for a b :: quantity
  by (cases a; cases b) (simp add: qnat_def word_unat_eq_iff)

lemma quantity_zero_iff [quantity_simps]: "q = Quantity 0 \<longleftrightarrow> qnat q = 0"
  by (simp add: quantity_eq_iff)

lemma quantity_le_iff [quantity_simps]: "a \<le> b \<longleftrightarrow> qnat a \<le> qnat b" for a b :: quantity
  by (simp add: less_eq_quantity_def qnat_def word_le_nat_alt)

lemma quantity_less_iff [quantity_simps]: "a < b \<longleftrightarrow> qnat a < qnat b" for a b :: quantity
  by (simp add: less_quantity_def qnat_def word_less_nat_alt)

lemma qnat_minus [quantity_simps]: "qnat b \<le> qnat a \<Longrightarrow> qnat (a - b) = qnat a - qnat b"
  by (simp add: qnat_def minus_quantity_def unat_diff_le)

lemma quantity_diff_self [simp]: "q - q = Quantity 0" for q :: quantity
  by (simp add: minus_quantity_def)

lemma qnat_min [quantity_simps]: "qnat (min a b) = min (qnat a) (qnat b)"
  by (auto simp: min_def quantity_le_iff)

lemma price_less_iff: "a < b \<longleftrightarrow> sint (price_value a) < sint (price_value b)" for a b :: price
  by (simp add: less_price_def word_sless_alt)

lemma price_le_iff: "a \<le> b \<longleftrightarrow> sint (price_value a) \<le> sint (price_value b)" for a b :: price
  by (simp add: less_eq_price_def word_sle_eq)

section \<open>Instruments, orders and trades\<close>

record instrument =
  inst_id :: instrument_id
  symbol :: string
  tick_size :: price
  lot_size :: quantity
  inst_status :: instrument_status

definition accepts_orders :: "instrument \<Rightarrow> bool" where
  "accepts_orders i \<longleftrightarrow>
     inst_status i = Active \<and> price_is_positive (tick_size i) \<and> quantity_is_positive (lot_size i)"

record order_t =
  o_instrument_id :: instrument_id
  o_order_id :: order_id
  o_side :: side
  o_price :: price
  o_quantity :: quantity
  o_remaining_quantity :: quantity
  o_status :: order_status
  o_order_type :: order_type
  o_account_id :: account_id

record trade_t =
  t_execution_id :: execution_id
  t_instrument_id :: instrument_id
  t_incoming_order_id :: order_id
  t_resting_order_id :: order_id
  t_execution_price :: price
  t_execution_quantity :: quantity
  t_incoming_account_id :: account_id
  t_resting_account_id :: account_id

section \<open>Requests and events\<close>

record place_order =
  pl_instrument_id :: instrument_id
  pl_order_id :: order_id
  pl_side :: side
  pl_price :: raw_price
  pl_quantity :: raw_quantity
  pl_order_type :: order_type
  pl_account_id :: account_id

record cancel_order =
  ca_instrument_id :: instrument_id
  ca_order_id :: order_id
  ca_account_id :: account_id

record order_accepted =
  ac_order :: order_t
  ac_instrument_id :: instrument_id
  ac_order_id :: order_id

record trade_executed =
  te_trade :: trade_t
  te_instrument_id :: instrument_id
  te_incoming_order_id :: order_id
  te_resting_order_id :: order_id
  te_execution_price :: raw_price
  te_execution_quantity :: raw_quantity

record order_canceled =
  cn_order :: order_t
  cn_instrument_id :: instrument_id
  cn_order_id :: order_id

record order_rejected =
  rj_order :: order_t
  rj_instrument_id :: instrument_id
  rj_order_id :: order_id
  rj_reason :: reject_reason

datatype engine_event =
    Order_Accepted order_accepted
  | Trade_Executed trade_executed
  | Order_Canceled order_canceled
  | Order_Rejected order_rejected

type_synonym event_batch = "engine_event list"

text \<open>The trades of an event batch, in order; used throughout to state what was executed.\<close>

fun trades_of :: "event_batch \<Rightarrow> trade_executed list" where
  "trades_of [] = []"
| "trades_of (Trade_Executed t # es) = t # trades_of es"
| "trades_of (_ # es) = trades_of es"

lemma trades_of_append [simp]: "trades_of (es @ fs) = trades_of es @ trades_of fs"
  by (induction es rule: trades_of.induct) auto

lemma trades_of_map_trade [simp]: "trades_of (map Trade_Executed ts) = ts"
  by (induction ts) auto

text \<open>
  Failures of the C++ run time that the source does not catch: an integer division by zero
  and \<open>std::out_of_range\<close> from \<open>unordered_map::at\<close>.
\<close>

datatype fault = Division_By_Zero | Out_Of_Range

end
