(* ===== verification/Instrument_Registry.thy ===== *)
theory Instrument_Registry
  imports Domain "HOL-Library.AList"
begin

text \<open>
  The instrument registry (\<open>domain/instrument_registry.hpp\<close>, \<open>.cpp\<close>). The unordered map is an
  association list with distinct keys; the order of its entries stands for the unspecified
  iteration order that \<open>snapshot\<close> exposes.
\<close>

type_synonym instrument_registry = "(instrument_id \<times> instrument) list"

definition registry_find :: "instrument_registry \<Rightarrow> instrument_id \<Rightarrow> instrument option" where
  "registry_find reg i = map_of reg i"

definition registry_contains :: "instrument_registry \<Rightarrow> instrument_id \<Rightarrow> bool" where
  "registry_contains reg i \<longleftrightarrow> map_of reg i \<noteq> None"

definition registry_snapshot :: "instrument_registry \<Rightarrow> instrument list" where
  "registry_snapshot reg = map snd reg"

definition registry_add :: "instrument_registry \<Rightarrow> instrument \<Rightarrow> instrument_registry \<times> bool" where
  "registry_add reg inst =
     (if inst_id inst = 0 \<or> symbol inst = [] \<or> \<not> accepts_orders inst then (reg, False)
      else (case map_of reg (inst_id inst) of
              None \<Rightarrow> ((inst_id inst, inst) # reg, True)
            | Some _ \<Rightarrow> (reg, False)))"

section \<open>Well-formed registries\<close>

definition registry_ok :: "instrument_registry \<Rightarrow> bool" where
  "registry_ok reg \<longleftrightarrow>
     distinct (map fst reg) \<and>
     (\<forall>(i, inst) \<in> set reg. inst_id inst = i \<and> i \<noteq> 0 \<and> symbol inst \<noteq> [] \<and> accepts_orders inst)"

lemma registry_ok_Nil [simp]: "registry_ok []"
  by (simp add: registry_ok_def)

lemma registry_add_ok: "registry_ok reg \<Longrightarrow> registry_ok (fst (registry_add reg inst))"
  by (auto simp: registry_add_def registry_ok_def map_of_eq_None_iff split: option.split)

lemma registry_add_find:
  "registry_find (fst (registry_add reg inst)) =
     (if snd (registry_add reg inst) then (registry_find reg)(inst_id inst \<mapsto> inst)
      else registry_find reg)"
  by (auto simp: registry_add_def registry_find_def fun_eq_iff split: option.split)

lemma registry_add_result:
  "snd (registry_add reg inst) \<longleftrightarrow>
     inst_id inst \<noteq> 0 \<and> symbol inst \<noteq> [] \<and> accepts_orders inst \<and>
     registry_find reg (inst_id inst) = None"
  by (auto simp: registry_add_def registry_find_def split: option.split)

text \<open>
  What registering an instrument does. An instrument is taken exactly when its id is not
  zero, its symbol is not empty, it is active with positive tick and lot size, and its id is
  free; a taken instrument is found afterwards and every earlier one is still found; a refused
  one changes nothing; and every instrument ever found is one that accepts orders.
\<close>

theorem register_instrument_spec:
  assumes "registry_ok reg"
  shows "registry_ok (fst (registry_add reg inst)) \<and>
    (snd (registry_add reg inst) \<longleftrightarrow>
       inst_id inst \<noteq> 0 \<and> symbol inst \<noteq> [] \<and> accepts_orders inst \<and>
       \<not> registry_contains reg (inst_id inst)) \<and>
    (\<forall>i. registry_find (fst (registry_add reg inst)) i =
       (if i = inst_id inst \<and> snd (registry_add reg inst) then Some inst
        else registry_find reg i)) \<and>
    (\<forall>x \<in> set (registry_snapshot (fst (registry_add reg inst))).
       accepts_orders x \<and> registry_find (fst (registry_add reg inst)) (inst_id x) = Some x)"
proof -
  have ok: "registry_ok (fst (registry_add reg inst))"
    using assms by (rule registry_add_ok)
  then have "\<forall>x \<in> set (registry_snapshot (fst (registry_add reg inst))).
      accepts_orders x \<and> registry_find (fst (registry_add reg inst)) (inst_id x) = Some x"
    by (fastforce simp: registry_ok_def registry_snapshot_def registry_find_def)
  then show ?thesis
    using ok by (auto simp: registry_add_find registry_add_result registry_contains_def
        registry_find_def)
qed

theorem register_instrument_spec_witness:
  "let inst = \<lparr>inst_id = 1, symbol = ''PRIMARY'', tick_size = Price 1, lot_size = Quantity 1,
       inst_status = Active\<rparr>
   in snd (registry_add [] inst) \<and> registry_find (fst (registry_add [] inst)) 1 = Some inst"
  using register_instrument_spec [OF registry_ok_Nil, of "\<lparr>inst_id = 1, symbol = ''PRIMARY'',
      tick_size = Price 1, lot_size = Quantity 1, inst_status = Active\<rparr>"]
  by (simp add: registry_contains_def accepts_orders_def price_is_positive_def
      quantity_is_positive_def word_sless_alt)

end
