(* ===== verification/Order_Book.thy ===== *)
theory Order_Book
  imports Domain
begin

text \<open>
  The order book of one instrument (\<open>src/domain/order_book.hpp\<close>, \<open>order_book.cpp\<close>): two ordered
  maps from prices to FIFO queues of resting orders, an index from order ids to their place,
  and the next execution id. \<open>fill_level\<close> is the inner matching loop, \<open>sweep\<close> the outer one;
  the two mirrored branches of the source are one definition over the side of the order.
  Every operation returns the new book and the batch of events.
\<close>

section \<open>State\<close>

record resting_order =
  ro_order_id :: order_id
  ro_remaining_quantity :: quantity
  ro_order_type :: order_type
  ro_account_id :: account_id

record order_location =
  ol_side :: side
  ol_price :: price
  ol_account_id :: account_id

type_synonym levels = "(price, resting_order list) omap"
type_synonym locations = "order_id \<rightharpoonup> order_location"

record order_book =
  buy_levels :: levels
  sell_levels :: levels
  order_locations :: locations
  next_execution_id :: execution_id

definition empty_book :: order_book where
  "empty_book = \<lparr>buy_levels = [], sell_levels = [], order_locations = Map.empty,
     next_execution_id = 1\<rparr>"

text \<open>\<open>BuyLevels\<close> iterates from the highest price, \<open>SellLevels\<close> from the lowest.\<close>

fun level_lt :: "side \<Rightarrow> price \<Rightarrow> price \<Rightarrow> bool" where
  "level_lt Buy p q = (p > q)"
| "level_lt Sell p q = (p < q)"

fun levels_of :: "side \<Rightarrow> order_book \<Rightarrow> levels" where
  "levels_of Buy bk = buy_levels bk"
| "levels_of Sell bk = sell_levels bk"

fun set_levels :: "side \<Rightarrow> levels \<Rightarrow> order_book \<Rightarrow> order_book" where
  "set_levels Buy lv bk = bk\<lparr>buy_levels := lv\<rparr>"
| "set_levels Sell lv bk = bk\<lparr>sell_levels := lv\<rparr>"

section \<open>Operations\<close>

definition book_reject :: "order_t \<Rightarrow> reject_reason \<Rightarrow> event_batch" where
  "book_reject order reason =
     [Order_Rejected
        \<lparr>rj_order = \<lparr>o_instrument_id = o_instrument_id order, o_order_id = o_order_id order,
           o_side = o_side order, o_price = o_price order, o_quantity = o_quantity order,
           o_remaining_quantity = o_quantity order, o_status = Rejected,
           o_order_type = o_order_type order, o_account_id = o_account_id order\<rparr>,
         rj_instrument_id = o_instrument_id order, rj_order_id = o_order_id order,
         rj_reason = reason\<rparr>]"

definition contains_order :: "order_book \<Rightarrow> order_id \<Rightarrow> bool" where
  "contains_order bk oid \<longleftrightarrow> order_locations bk oid \<noteq> None"

definition remove_empty_level :: "price \<Rightarrow> levels \<Rightarrow> levels" where
  "remove_empty_level p lv =
     (case map_of lv p of
        None \<Rightarrow> lv
      | Some q \<Rightarrow> if q = [] then omap_erase p lv else lv)"

text \<open>Whether the price test of the matching loops stops at a level of price \<open>p\<close>.\<close>

fun outside_limit :: "side \<Rightarrow> price \<Rightarrow> price \<Rightarrow> bool" where
  "outside_limit Buy limit p = (limit < p)"
| "outside_limit Sell limit p = (limit > p)"

definition stops_at :: "order_t \<Rightarrow> price \<Rightarrow> bool" where
  "stops_at order p \<longleftrightarrow>
     o_order_type order \<noteq> Market \<and> outside_limit (o_side order) (o_price order) p"

subsection \<open>The fill-or-kill preflight\<close>

text \<open>\<open>None\<close> is the early \<open>return true\<close>, \<open>Some\<close> the quantity left after the level.\<close>

fun preflight_level :: "quantity \<Rightarrow> resting_order list \<Rightarrow> quantity option" where
  "preflight_level remaining [] = Some remaining"
| "preflight_level remaining (r # rs) =
     (if ro_remaining_quantity r > remaining \<or> ro_remaining_quantity r = remaining then None
      else preflight_level (remaining - ro_remaining_quantity r) rs)"

fun preflight_levels :: "order_t \<Rightarrow> quantity \<Rightarrow> levels \<Rightarrow> bool" where
  "preflight_levels order remaining [] = False"
| "preflight_levels order remaining ((p, q) # lv) =
     (if stops_at order p then False
      else (case preflight_level remaining q of
              None \<Rightarrow> True
            | Some remaining' \<Rightarrow> preflight_levels order remaining' lv))"

definition can_fully_match :: "order_book \<Rightarrow> order_t \<Rightarrow> bool" where
  "can_fully_match bk order =
     preflight_levels order (o_quantity order) (levels_of (opposite (o_side order)) bk)"

subsection \<open>The matching loops\<close>

text \<open>
  The state of the loops: the quantity left of the incoming order, the opposite side's levels
  (\<open>begin()\<close> is the head), the index, the next execution id and the events so far.
\<close>

record match_state =
  ms_remaining :: quantity
  ms_levels :: levels
  ms_locations :: locations
  ms_next_id :: execution_id
  ms_events :: event_batch

definition make_trade :: "order_t \<Rightarrow> execution_id \<Rightarrow> price \<Rightarrow> resting_order \<Rightarrow> quantity \<Rightarrow> trade_executed" where
  "make_trade order xid p r executed =
     \<lparr>te_trade = \<lparr>t_execution_id = xid, t_instrument_id = o_instrument_id order,
        t_incoming_order_id = o_order_id order, t_resting_order_id = ro_order_id r,
        t_execution_price = p, t_execution_quantity = executed,
        t_incoming_account_id = o_account_id order, t_resting_account_id = ro_account_id r\<rparr>,
      te_instrument_id = o_instrument_id order,
      te_incoming_order_id = o_order_id order,
      te_resting_order_id = ro_order_id r,
      te_execution_price = price_value p,
      te_execution_quantity = quantity_value executed\<rparr>"

text \<open>One iteration of the inner loop on the front order \<open>r\<close> of the best level \<open>(p, r # rs)\<close>.\<close>

definition fill_step ::
  "order_t \<Rightarrow> price \<Rightarrow> resting_order \<Rightarrow> resting_order list \<Rightarrow> levels \<Rightarrow> match_state \<Rightarrow> match_state" where
  "fill_step order p r rs lv st =
     (let executed = min (ms_remaining st) (ro_remaining_quantity r);
          r' = r\<lparr>ro_remaining_quantity := ro_remaining_quantity r - executed\<rparr>;
          filled = (ro_remaining_quantity r' = Quantity 0)
      in \<lparr>ms_remaining = ms_remaining st - executed,
          ms_levels = (p, if filled then rs else r' # rs) # lv,
          ms_locations = (if filled then (ms_locations st)(ro_order_id r := None)
                          else ms_locations st),
          ms_next_id = ms_next_id st + 1,
          ms_events = ms_events st @
            [Trade_Executed (make_trade order (ms_next_id st) p r executed)]\<rparr>)"

function fill_level :: "order_t \<Rightarrow> match_state \<Rightarrow> match_state" where
  "fill_level order st =
     (case ms_levels st of
        (p, r # rs) # lv \<Rightarrow>
          if ms_remaining st > Quantity 0 then fill_level order (fill_step order p r rs lv st)
          else st
      | _ \<Rightarrow> st)"
  by pat_completeness auto
termination
  by (relation "measure (\<lambda>(order, st). length (snd (hd (ms_levels st))) + qnat (ms_remaining st))")
    (auto simp: fill_step_def Let_def quantity_simps min_def)

declare fill_level.simps [simp del]

text \<open>What the inner loop leaves: only the queue of the best level has changed.\<close>

lemma fill_level_shape:
  "ms_levels st = (p, q) # lv \<Longrightarrow>
   \<exists>q'. ms_levels (fill_level order st) = (p, q') # lv \<and>
        (q' = [] \<or> ms_remaining (fill_level order st) = Quantity 0) \<and>
        qnat (ms_remaining (fill_level order st)) \<le> qnat (ms_remaining st)"
proof (induction order st arbitrary: q rule: fill_level.induct)
  case (1 order st)
  show ?case
  proof (cases "q = [] \<or> \<not> ms_remaining st > Quantity 0")
    case True
    then show ?thesis
      using "1.prems" by (auto simp: fill_level.simps [of order st] quantity_simps split: list.split)
  next
    case False
    then obtain r rs where q: "q = r # rs" by (cases q) auto
    let ?st = "fill_step order p r rs lv st"
    have "qnat (ms_remaining ?st) \<le> qnat (ms_remaining st)"
      by (simp add: fill_step_def Let_def quantity_simps)
    moreover have "\<exists>q''. ms_levels ?st = (p, q'') # lv"
      by (simp add: fill_step_def Let_def)
    moreover have "fill_level order st = fill_level order ?st"
      using False "1.prems" q by (simp add: fill_level.simps [of order st])
    ultimately show ?thesis
      using "1.IH" "1.prems" False q by (fastforce intro: order_trans)
  qed
qed

definition drop_empty_best :: "match_state \<Rightarrow> match_state" where
  "drop_empty_best st =
     (case ms_levels st of
        [] \<Rightarrow> st
      | (p, q) # lv \<Rightarrow> st\<lparr>ms_levels := remove_empty_level p (ms_levels st)\<rparr>)"

function sweep :: "order_t \<Rightarrow> match_state \<Rightarrow> match_state" where
  "sweep order st =
     (case ms_levels st of
        [] \<Rightarrow> st
      | (p, q) # lv \<Rightarrow>
          if ms_remaining st > Quantity 0 \<and> \<not> stops_at order p
          then sweep order (drop_empty_best (fill_level order st))
          else st)"
  by pat_completeness auto
termination
proof (relation "measure (\<lambda>(order, st). length (ms_levels st) + qnat (ms_remaining st))", goal_cases)
  case (2 order st x lv p q)
  then obtain q' where q': "ms_levels (fill_level order st) = (p, q') # lv"
      "q' = [] \<or> ms_remaining (fill_level order st) = Quantity 0"
      "qnat (ms_remaining (fill_level order st)) \<le> qnat (ms_remaining st)"
    using fill_level_shape [of st p q lv order] by auto
  with 2 show ?case
    by (auto simp: drop_empty_best_def remove_empty_level_def quantity_simps)
qed simp

declare sweep.simps [simp del]

subsection \<open>Placing an order\<close>

definition crosses_book :: "order_book \<Rightarrow> order_t \<Rightarrow> bool" where
  "crosses_book bk order =
     ((o_side order = Buy \<and>
        (case sell_levels bk of [] \<Rightarrow> False | (p, q) # lv \<Rightarrow> o_price order \<ge> p)) \<or>
      (o_side order = Sell \<and>
        (case buy_levels bk of [] \<Rightarrow> False | (p, q) # lv \<Rightarrow> o_price order \<le> p)))"

definition accepted_event :: "order_t \<Rightarrow> engine_event" where
  "accepted_event order =
     Order_Accepted
       \<lparr>ac_order = order\<lparr>o_remaining_quantity := o_quantity order, o_status := New_Order\<rparr>,
        ac_instrument_id = o_instrument_id order, ac_order_id = o_order_id order\<rparr>"

definition start_match :: "order_book \<Rightarrow> order_t \<Rightarrow> match_state" where
  "start_match bk order =
     \<lparr>ms_remaining = o_quantity order,
      ms_levels = levels_of (opposite (o_side order)) bk,
      ms_locations = order_locations bk,
      ms_next_id = next_execution_id bk,
      ms_events = [accepted_event order]\<rparr>"

definition finish_match :: "order_book \<Rightarrow> order_t \<Rightarrow> match_state \<Rightarrow> order_book" where
  "finish_match bk order st =
     (set_levels (opposite (o_side order)) (ms_levels st) bk)
       \<lparr>order_locations := ms_locations st, next_execution_id := ms_next_id st\<rparr>"

text \<open>\<open>unordered_map::emplace\<close> keeps an existing entry; \<open>operator[]\<close> starts an empty queue.\<close>

definition emplace :: "('k \<rightharpoonup> 'v) \<Rightarrow> 'k \<Rightarrow> 'v \<Rightarrow> ('k \<rightharpoonup> 'v)" where
  "emplace m k v = (case m k of None \<Rightarrow> m(k \<mapsto> v) | Some _ \<Rightarrow> m)"

definition level_push :: "side \<Rightarrow> price \<Rightarrow> resting_order \<Rightarrow> levels \<Rightarrow> levels" where
  "level_push s p r lv =
     omap_put (level_lt s) p ((case map_of lv p of None \<Rightarrow> [] | Some q \<Rightarrow> q) @ [r]) lv"

definition rest_order :: "order_t \<Rightarrow> quantity \<Rightarrow> order_book \<Rightarrow> order_book" where
  "rest_order order remaining bk =
     (let bk1 = bk\<lparr>order_locations := emplace (order_locations bk) (o_order_id order)
            \<lparr>ol_side = o_side order, ol_price = o_price order, ol_account_id = o_account_id order\<rparr>\<rparr>
      in set_levels (o_side order)
           (level_push (o_side order) (o_price order)
              \<lparr>ro_order_id = o_order_id order, ro_remaining_quantity = remaining,
               ro_order_type = o_order_type order, ro_account_id = o_account_id order\<rparr>
              (levels_of (o_side order) bk1)) bk1)"

definition book_place_order :: "order_book \<Rightarrow> order_t \<Rightarrow> order_book \<times> event_batch" where
  "book_place_order bk order =
     (if order_locations bk (o_order_id order) \<noteq> None
      then (bk, book_reject order Duplicate_Order_Id)
      else if o_order_type order = FOK \<and> \<not> can_fully_match bk order
      then (bk, book_reject order Fok_Not_Filled)
      else if o_order_type order = Post_Only \<and> crosses_book bk order
      then (bk, book_reject order Post_Only_Rejected)
      else
        let st = sweep order (start_match bk order);
            bk' = finish_match bk order st
        in if o_order_type order = IOC \<or> o_order_type order = FOK \<or> o_order_type order = Market
           then (bk', ms_events st)
           else if ms_remaining st > Quantity 0
           then (rest_order order (ms_remaining st) bk', ms_events st)
           else (bk', ms_events st))"

subsection \<open>Canceling an order\<close>

fun erase_first :: "order_id \<Rightarrow> resting_order list \<Rightarrow> resting_order list" where
  "erase_first oid [] = []"
| "erase_first oid (r # rs) = (if ro_order_id r = oid then rs else r # erase_first oid rs)"

definition level_remove :: "side \<Rightarrow> order_id \<Rightarrow> price \<Rightarrow> levels \<Rightarrow> levels" where
  "level_remove s oid p lv =
     (case map_of lv p of
        None \<Rightarrow> lv
      | Some q \<Rightarrow> remove_empty_level p (omap_put (level_lt s) p (erase_first oid q) lv))"

definition remove_order_from_level :: "order_id \<Rightarrow> order_location \<Rightarrow> order_book \<Rightarrow> order_book" where
  "remove_order_from_level oid loc bk =
     set_levels (ol_side loc)
       (level_remove (ol_side loc) oid (ol_price loc) (levels_of (ol_side loc) bk)) bk"

fun find_order_type :: "order_id \<Rightarrow> resting_order list \<Rightarrow> order_type" where
  "find_order_type oid [] = Limit"
| "find_order_type oid (r # rs) =
     (if ro_order_id r = oid then ro_order_type r else find_order_type oid rs)"

definition cancel_rejected :: "cancel_order \<Rightarrow> side \<Rightarrow> price \<Rightarrow> account_id \<Rightarrow> reject_reason \<Rightarrow> event_batch" where
  "cancel_rejected req s p acct reason =
     [Order_Rejected
        \<lparr>rj_order = \<lparr>o_instrument_id = ca_instrument_id req, o_order_id = ca_order_id req,
           o_side = s, o_price = p, o_quantity = Quantity 0, o_remaining_quantity = Quantity 0,
           o_status = Rejected, o_order_type = Limit, o_account_id = acct\<rparr>,
         rj_instrument_id = ca_instrument_id req, rj_order_id = ca_order_id req,
         rj_reason = reason\<rparr>]"

text \<open>
  The source erases the index entry through the iterator \<open>location\<close> and then reads the side
  and the price of the canceled order through the same iterator, which by then points to a
  freed node. What that read yields is the parameter \<open>stale\<close>.
\<close>

definition book_cancel_order ::
  "order_location \<Rightarrow> order_book \<Rightarrow> cancel_order \<Rightarrow> order_book \<times> event_batch" where
  "book_cancel_order stale bk req =
     (case order_locations bk (ca_order_id req) of
        None \<Rightarrow> (bk, cancel_rejected req Buy (Price 0) 0 Unknown_Order_Id)
      | Some loc \<Rightarrow>
          if ca_account_id req \<noteq> ol_account_id loc
          then (bk, cancel_rejected req (ol_side loc) (ol_price loc) (ol_account_id loc)
                      Unauthorized_Order)
          else
            let otype = (case map_of (levels_of (ol_side loc) bk) (ol_price loc) of
                           None \<Rightarrow> Limit
                         | Some q \<Rightarrow> find_order_type (ca_order_id req) q);
                bk1 = remove_order_from_level (ca_order_id req) loc bk;
                bk2 = bk1\<lparr>order_locations := (order_locations bk1)(ca_order_id req := None)\<rparr>
            in (bk2, [Order_Canceled
                 \<lparr>cn_order = \<lparr>o_instrument_id = ca_instrument_id req,
                    o_order_id = ca_order_id req, o_side = ol_side stale,
                    o_price = ol_price stale, o_quantity = Quantity 0,
                    o_remaining_quantity = Quantity 0, o_status = Canceled,
                    o_order_type = otype, o_account_id = ca_account_id req\<rparr>,
                  cn_instrument_id = ca_instrument_id req, cn_order_id = ca_order_id req\<rparr>]))"

end
