(* ===== verification/Order_Book_Matching.thy ===== *)
theory Order_Book_Matching
  imports Order_Book
begin

text \<open>
  The abstract view of one side of the book as a single priority queue of (price, order)
  pairs, the reference matching \<open>ref_match\<close> on such a queue, and the refinement lemmas: the
  nested loops of \<open>place_order\<close> compute the reference matching, \<open>level_push\<close> inserts at the
  place price-time priority demands, and \<open>level_remove\<close> deletes exactly one order.
\<close>

section \<open>The priority queue of a side\<close>

type_synonym queue_entry = "price \<times> resting_order"
type_synonym fill = "price \<times> resting_order \<times> quantity"

definition queue_of :: "levels \<Rightarrow> queue_entry list" where
  "queue_of lv = concat (map (\<lambda>(p, q). map (Pair p) q) lv)"

lemma queue_of_Nil [simp]: "queue_of [] = []"
  by (simp add: queue_of_def)

lemma queue_of_Cons [simp]: "queue_of ((p, q) # lv) = map (Pair p) q @ queue_of lv"
  by (simp add: queue_of_def)

lemma queue_of_append [simp]: "queue_of (lv @ lv') = queue_of lv @ queue_of lv'"
  by (simp add: queue_of_def)

lemma set_queue_of: "(p, r) \<in> set (queue_of lv) \<longleftrightarrow> (\<exists>q. (p, q) \<in> set lv \<and> r \<in> set q)"
  by (force simp: queue_of_def)

definition levels_ok :: "side \<Rightarrow> levels \<Rightarrow> bool" where
  "levels_ok s lv \<longleftrightarrow>
     omap_ok (level_lt s) lv \<and>
     (\<forall>(p, q) \<in> set lv. q \<noteq> [] \<and> (\<forall>r \<in> set q. ro_remaining_quantity r > Quantity 0))"

lemma levels_ok_Nil [simp]: "levels_ok s []"
  by (simp add: levels_ok_def)

lemma levels_ok_Cons:
  "levels_ok s ((p, q) # lv) \<longleftrightarrow>
     (\<forall>p' \<in> fst ` set lv. level_lt s p p') \<and> q \<noteq> [] \<and>
     (\<forall>r \<in> set q. ro_remaining_quantity r > Quantity 0) \<and> levels_ok s lv"
  by (auto simp: levels_ok_def)

lemma levels_ok_queue_of_Nil: "levels_ok s lv \<Longrightarrow> queue_of lv = [] \<longleftrightarrow> lv = []"
  by (cases lv) (auto simp: levels_ok_Cons)

text \<open>The two comparators satisfy the interface of the ordered map.\<close>

interpretation level_order: key_order "level_lt s" for s
  by unfold_locales (cases s; auto)+

section \<open>Reference matching\<close>

text \<open>
  Take from the front of the queue while some quantity is left and the price is acceptable;
  the last order taken may be filled in part. The fills, the quantity left, the queue left.
\<close>

fun ref_match ::
  "(price \<Rightarrow> bool) \<Rightarrow> quantity \<Rightarrow> queue_entry list \<Rightarrow> fill list \<times> quantity \<times> queue_entry list" where
  "ref_match ok n [] = ([], n, [])"
| "ref_match ok n ((p, r) # xs) =
     (if n = Quantity 0 \<or> \<not> ok p then ([], n, (p, r) # xs)
      else if ro_remaining_quantity r \<le> n
      then let (fs, n', ys) = ref_match ok (n - ro_remaining_quantity r) xs
           in ((p, r, ro_remaining_quantity r) # fs, n', ys)
      else ([(p, r, n)], Quantity 0,
            (p, r\<lparr>ro_remaining_quantity := ro_remaining_quantity r - n\<rparr>) # xs))"

lemma ref_match_zero [simp]: "ref_match ok (Quantity 0) xs = ([], Quantity 0, xs)"
  by (cases xs) auto

lemma ref_match_append:
  "ref_match ok n (as @ bs) =
     (case ref_match ok n as of (fs, n', as') \<Rightarrow>
        if as' = [] then (case ref_match ok n' bs of (gs, n'', ys) \<Rightarrow> (fs @ gs, n'', ys))
        else (fs, n', as' @ bs))"
  by (induction ok n as rule: ref_match.induct) (auto split: prod.splits)

text \<open>What a list of fills does to the index and to the event batch.\<close>

definition filled_orders :: "fill list \<Rightarrow> queue_entry list" where
  "filled_orders fs = map (\<lambda>(p, r, x). (p, r)) (filter (\<lambda>(p, r, x). x = ro_remaining_quantity r) fs)"

definition erase_ids :: "order_id list \<Rightarrow> locations \<Rightarrow> locations" where
  "erase_ids ids locs = (\<lambda>oid. if oid \<in> set ids then None else locs oid)"

fun trade_list :: "order_t \<Rightarrow> execution_id \<Rightarrow> fill list \<Rightarrow> trade_executed list" where
  "trade_list order xid [] = []"
| "trade_list order xid ((p, r, x) # fs) =
     make_trade order xid p r x # trade_list order (xid + 1) fs"

lemma trade_list_append:
  "trade_list order xid (fs @ gs) =
     trade_list order xid fs @ trade_list order (xid + of_nat (length fs)) gs"
  by (induction order xid fs rule: trade_list.induct) (auto simp: algebra_simps)

lemma length_trade_list [simp]: "length (trade_list order xid fs) = length fs"
  by (induction order xid fs rule: trade_list.induct) auto

lemma filled_orders_simps [simp]:
  "filled_orders [] = []"
  "filled_orders ((p, r, x) # fs) =
     (if x = ro_remaining_quantity r then (p, r) # filled_orders fs else filled_orders fs)"
  "filled_orders (fs @ gs) = filled_orders fs @ filled_orders gs"
  by (auto simp: filled_orders_def)

lemma erase_ids_simps [simp]:
  "erase_ids [] locs = locs"
  "erase_ids (i # ids) locs = erase_ids ids (locs(i := None))"
  "erase_ids (ids @ ids') locs = erase_ids ids' (erase_ids ids locs)"
  by (auto simp: erase_ids_def fun_eq_iff)

definition apply_fills ::
  "order_t \<Rightarrow> fill list \<Rightarrow> quantity \<Rightarrow> levels \<Rightarrow> match_state \<Rightarrow> match_state" where
  "apply_fills order fs n lv st =
     \<lparr>ms_remaining = n, ms_levels = lv,
      ms_locations = erase_ids (map (ro_order_id \<circ> snd) (filled_orders fs)) (ms_locations st),
      ms_next_id = ms_next_id st + of_nat (length fs),
      ms_events = ms_events st @ map Trade_Executed (trade_list order (ms_next_id st) fs)\<rparr>"

lemma apply_fills_apply_fills:
  "apply_fills order gs n' lv' (apply_fills order fs n lv st) = apply_fills order (fs @ gs) n' lv' st"
  by (simp add: apply_fills_def trade_list_append algebra_simps)

lemma apply_fills_Nil: "apply_fills order [] (ms_remaining st) (ms_levels st) st = st"
  by (simp add: apply_fills_def)

section \<open>The matching loops compute the reference matching\<close>

lemma fill_step_apply_fills:
  assumes "ms_levels st = (p, r # rs) # lv"
  shows "fill_step order p r rs lv st =
    (if ro_remaining_quantity r \<le> ms_remaining st
     then apply_fills order [(p, r, ro_remaining_quantity r)]
            (ms_remaining st - ro_remaining_quantity r) ((p, rs) # lv) st
     else apply_fills order [(p, r, ms_remaining st)] (Quantity 0)
            ((p, r\<lparr>ro_remaining_quantity := ro_remaining_quantity r - ms_remaining st\<rparr> # rs) # lv) st)"
proof (cases "ro_remaining_quantity r \<le> ms_remaining st")
  case True
  then show ?thesis by (simp add: fill_step_def apply_fills_def Let_def min_absorb2)
next
  case False
  then have "qnat (ms_remaining st) < qnat (ro_remaining_quantity r)"
    by (simp add: quantity_simps)
  then have "ro_remaining_quantity r - ms_remaining st \<noteq> Quantity 0"
      "ms_remaining st \<noteq> ro_remaining_quantity r" "ms_remaining st \<le> ro_remaining_quantity r"
    by (auto simp: quantity_simps)
  then show ?thesis using False
    by (simp add: fill_step_def apply_fills_def Let_def min_absorb1)
qed

lemma fill_level_ref:
  assumes "ms_levels st = (p, q) # lv" and "ok p"
    and "ref_match ok (ms_remaining st) (map (Pair p) q) = (fs, n', ys)"
  shows "\<exists>q'. ys = map (Pair p) q' \<and>
    fill_level order st = apply_fills order fs n' ((p, q') # lv) st"
  using assms
proof (induction order st arbitrary: q fs n' ys rule: fill_level.induct)
  case (1 order st)
  show ?case
  proof (cases "q = [] \<or> \<not> ms_remaining st > Quantity 0")
    case True
    then have "fill_level order st = st"
      using "1.prems" by (auto simp: fill_level.simps [of order st] split: list.split)
    moreover have "fs = [] \<and> n' = ms_remaining st \<and> ys = map (Pair p) q"
      using True "1.prems"(3) by (cases q) (auto simp: quantity_simps)
    ultimately show ?thesis using "1.prems"(1) apply_fills_Nil [of order st] by auto
  next
    case False
    then obtain r rs where q: "q = r # rs" by (cases q) auto
    let ?st = "fill_step order p r rs lv st"
    have step: "fill_level order st = fill_level order ?st"
      using False "1.prems" q by (simp add: fill_level.simps [of order st])
    have shape: "\<exists>q''. ms_levels ?st = (p, q'') # lv"
      by (simp add: fill_step_def Let_def)
    have IH: "\<lbrakk>ms_levels ?st = (p, q'') # lv; ref_match ok (ms_remaining ?st) (map (Pair p) q'') = (gs, m, zs)\<rbrakk>
      \<Longrightarrow> \<exists>q'. zs = map (Pair p) q' \<and> fill_level order ?st = apply_fills order gs m ((p, q') # lv) ?st"
      for q'' gs m zs
      using "1.IH" [of "(p, q)" lv p q r rs q'' gs m zs] False "1.prems" q by auto
    show ?thesis
    proof (cases "ro_remaining_quantity r \<le> ms_remaining st")
      case True
      note st' = fill_step_apply_fills [of st p r rs lv order] True "1.prems"(1) q
      obtain gs where gs: "ref_match ok (ms_remaining st - ro_remaining_quantity r) (map (Pair p) rs) = (gs, n', ys)"
          "fs = (p, r, ro_remaining_quantity r) # gs"
        using True False q "1.prems" by (auto simp: quantity_simps split: prod.splits if_splits)
      then have "\<exists>q'. ys = map (Pair p) q' \<and> fill_level order ?st = apply_fills order gs n' ((p, q') # lv) ?st"
        using IH [of rs gs n' ys] st' by (simp add: apply_fills_def)
      then show ?thesis using step st' gs(2) by (auto simp: apply_fills_apply_fills)
    next
      case part: False
      let ?r = "r\<lparr>ro_remaining_quantity := ro_remaining_quantity r - ms_remaining st\<rparr>"
      have st': "?st = apply_fills order [(p, r, ms_remaining st)] (Quantity 0) ((p, ?r # rs) # lv) st"
        using fill_step_apply_fills [of st p r rs lv order] part "1.prems"(1) q by simp
      have fs: "fs = [(p, r, ms_remaining st)]" "n' = Quantity 0" "ys = map (Pair p) (?r # rs)"
        using part False q "1.prems" by (auto simp: quantity_simps split: if_splits)
      have "\<exists>q'. map (Pair p) (?r # rs) = map (Pair p) q' \<and>
          fill_level order ?st = apply_fills order [] (Quantity 0) ((p, q') # lv) ?st"
        by (rule IH [of "?r # rs"]) (simp_all add: st' apply_fills_def)
      then have "fill_level order ?st = apply_fills order [] (Quantity 0) ((p, ?r # rs) # lv) ?st"
        by (metis list.inj_map_strong prod.inject)
      then show ?thesis
        using step st' fs by (intro exI [of _ "?r # rs"]) (simp add: apply_fills_apply_fills)
    qed
  qed
qed

lemma ref_match_pos:
  assumes "ref_match ok n xs = (fs, n', ys)"
    and "\<forall>(p, r) \<in> set xs. ro_remaining_quantity r > Quantity 0"
  shows "\<forall>(p, r) \<in> set ys. ro_remaining_quantity r > Quantity 0"
  using assms
  by (induction ok n xs arbitrary: fs n' ys rule: ref_match.induct)
    (auto simp: quantity_simps split: prod.splits if_splits)

lemma drop_empty_best_apply_fills:
  "drop_empty_best (apply_fills order fs n ((p, q) # lv) st) =
     apply_fills order fs n (if q = [] then lv else (p, q) # lv) st"
  by (auto simp: drop_empty_best_def apply_fills_def remove_empty_level_def)

lemma sweep_ref:
  assumes "levels_ok s (ms_levels st)"
    and "ref_match (\<lambda>p. \<not> stops_at order p) (ms_remaining st) (queue_of (ms_levels st)) = (fs, n', ys)"
  shows "\<exists>lv'. queue_of lv' = ys \<and> levels_ok s lv' \<and>
    sweep order st = apply_fills order fs n' lv' st"
  using assms
proof (induction order st arbitrary: fs n' ys rule: sweep.induct)
  case (1 order st)
  let ?ok = "\<lambda>p. \<not> stops_at order p"
  show ?case
  proof (cases "\<exists>p q lv. ms_levels st = (p, q) # lv \<and> ms_remaining st > Quantity 0 \<and> ?ok p")
    case False
    then have "sweep order st = st"
      by (auto simp: sweep.simps [of order st] split: list.split)
    moreover have "fs = [] \<and> n' = ms_remaining st \<and> ys = queue_of (ms_levels st)"
      using False "1.prems"
      by (cases "ms_levels st"; cases "queue_of (ms_levels st)")
        (auto simp: quantity_simps levels_ok_Cons neq_Nil_conv)
    ultimately show ?thesis
      using "1.prems"(1) apply_fills_Nil [of order st] by auto
  next
    case True
    then obtain p q lv where lv: "ms_levels st = (p, q) # lv" "ms_remaining st > Quantity 0" "?ok p"
      by blast
    obtain gs m zs where gs: "ref_match ?ok (ms_remaining st) (map (Pair p) q) = (gs, m, zs)"
      by (metis prod_cases3)
    obtain q' where q': "zs = map (Pair p) q'"
        "fill_level order st = apply_fills order gs m ((p, q') # lv) st"
      using fill_level_ref [where ok = ?ok, OF lv(1,3) gs] by blast
    let ?st = "drop_empty_best (fill_level order st)"
    have st': "?st = apply_fills order gs m (if q' = [] then lv else (p, q') # lv) st"
      by (simp only: q'(2) drop_empty_best_apply_fills)
    have "q' = [] \<or> m = Quantity 0"
      using fill_level_shape [OF lv(1), of order] q'(2) by (simp add: apply_fills_def)
    moreover have "\<forall>r \<in> set q'. ro_remaining_quantity r > Quantity 0"
      using ref_match_pos [OF gs] q'(1) "1.prems"(1) lv(1) by (auto simp: levels_ok_Cons)
    ultimately have ok: "levels_ok s (ms_levels ?st)"
      and match: "\<exists>hs. ref_match ?ok (ms_remaining ?st) (queue_of (ms_levels ?st)) = (hs, n', ys) \<and> fs = gs @ hs"
      using "1.prems" lv(1) st' q'(1) gs
      by (auto simp: apply_fills_def levels_ok_Cons ref_match_append split: prod.splits)
    then show ?thesis
      using "1.IH" [OF lv(1) refl, of _ n' ys] lv st'
      by (auto simp: sweep.simps [of order st] apply_fills_apply_fills)
  qed
qed

section \<open>Laws of the reference matching\<close>

definition fill_quantity :: "fill \<Rightarrow> nat" where
  "fill_quantity = (\<lambda>(p, r, x). qnat x)"

text \<open>The identity of a queue entry: everything but the remaining quantity.\<close>

definition entry_key :: "queue_entry \<Rightarrow> price \<times> order_id \<times> account_id \<times> order_type" where
  "entry_key = (\<lambda>(p, r). (p, ro_order_id r, ro_account_id r, ro_order_type r))"

lemma entry_key_Pair [simp]:
  "entry_key (p, r) = (p, ro_order_id r, ro_account_id r, ro_order_type r)"
  by (simp add: entry_key_def)

definition queue_quantity :: "queue_entry list \<Rightarrow> nat" where
  "queue_quantity xs = sum_list (map (\<lambda>(p, r). qnat (ro_remaining_quantity r)) xs)"

lemma ref_match_conserves:
  "ref_match ok n xs = (fs, n', ys) \<Longrightarrow> sum_list (map fill_quantity fs) + qnat n' = qnat n"
  by (induction ok n xs arbitrary: fs n' ys rule: ref_match.induct)
    (auto simp: quantity_simps fill_quantity_def split: prod.splits if_splits)

lemma ref_match_queue_quantity:
  "ref_match ok n xs = (fs, n', ys) \<Longrightarrow>
     sum_list (map fill_quantity fs) + queue_quantity ys = queue_quantity xs"
  by (induction ok n xs arbitrary: fs n' ys rule: ref_match.induct)
    (auto simp: quantity_simps fill_quantity_def queue_quantity_def split: prod.splits if_splits)

lemma ref_match_keys:
  "ref_match ok n xs = (fs, n', ys) \<Longrightarrow>
     map entry_key xs = map entry_key (filled_orders fs) @ map entry_key ys"
  by (induction ok n xs arbitrary: fs n' ys rule: ref_match.induct)
    (auto simp: quantity_simps entry_key_def split: prod.splits if_splits)

lemma ref_match_prefix:
  "ref_match ok n xs = (fs, n', ys) \<Longrightarrow>
     map (\<lambda>(p, r, x). (p, r)) fs = take (length fs) xs"
  by (induction ok n xs arbitrary: fs n' ys rule: ref_match.induct)
    (auto split: prod.splits if_splits)

lemma ref_match_fills:
  assumes "ref_match ok n xs = (fs, n', ys)"
    and "\<forall>(p, r) \<in> set xs. ro_remaining_quantity r > Quantity 0"
  shows "\<forall>(p, r, x) \<in> set fs. ok p \<and> (p, r) \<in> set xs \<and> x > Quantity 0 \<and> x \<le> ro_remaining_quantity r"
  using assms
proof (induction ok n xs arbitrary: fs n' ys rule: ref_match.induct)
  case (2 ok n p r xs)
  show ?case
  proof (cases "n = Quantity 0 \<or> \<not> ok p \<or> \<not> ro_remaining_quantity r \<le> n")
    case True
    then show ?thesis using "2.prems" by (auto simp: quantity_simps split: if_splits)
  next
    case False
    then obtain gs where gs: "ref_match ok (n - ro_remaining_quantity r) xs = (gs, n', ys)"
        "fs = (p, r, ro_remaining_quantity r) # gs"
      using "2.prems"(1) by (auto split: prod.splits)
    then show ?thesis using "2.IH" [OF _ _ gs(1)] False "2.prems"(2) by auto
  qed
qed simp

lemma ref_match_exhausts:
  "ref_match ok n xs = (fs, n', ys) \<Longrightarrow> n' > Quantity 0 \<Longrightarrow> ys = [] \<or> \<not> ok (fst (hd ys))"
  by (induction ok n xs arbitrary: fs n' ys rule: ref_match.induct)
    (auto simp: quantity_simps split: prod.splits if_splits)

text \<open>An order that has liquidity enough within its limit is filled completely, and only then.\<close>

lemma ref_match_complete:
  assumes "\<forall>(p, r) \<in> set xs. ro_remaining_quantity r > Quantity 0"
    and "ref_match ok n xs = (fs, n', ys)"
  shows "n' = Quantity 0 \<longleftrightarrow> qnat n \<le> queue_quantity (takeWhile (\<lambda>(p, r). ok p) xs)"
  using assms
  by (induction ok n xs arbitrary: fs n' ys rule: ref_match.induct)
    (auto simp: quantity_simps queue_quantity_def split: prod.splits if_splits)

end
