(* ===== verification/Order_Book_Invariant.thy ===== *)
theory Order_Book_Invariant
  imports Order_Book_Matching "HOL-Library.Multiset"
begin

text \<open>
  The invariant \<open>book_inv\<close> of the order book and what keeps it: the effect of inserting into
  and removing from the levels on the priority queue of a side, the sortedness of the queues,
  and two preservation lemmas, one for steps that take orders out of the book
  (\<open>book_inv_shrink\<close>) and one for resting an order (\<open>book_inv_rest_order\<close>).
\<close>

section \<open>Inserting into and removing from the levels\<close>

definition insert_by_priority :: "side \<Rightarrow> queue_entry \<Rightarrow> queue_entry list \<Rightarrow> queue_entry list" where
  "insert_by_priority s e xs =
     takeWhile (\<lambda>e'. \<not> level_lt s (fst e) (fst e')) xs @ e #
     dropWhile (\<lambda>e'. \<not> level_lt s (fst e) (fst e')) xs"

lemma distinct_map_middle:
  "distinct (map f (as @ e # bs)) \<longleftrightarrow> f e \<notin> f ` set (as @ bs) \<and> distinct (map f (as @ bs))"
  by auto

lemma set_middle: "set (as @ e # bs) = insert e (set (as @ bs))"
  by auto

lemma set_insert_by_priority [simp]: "set (insert_by_priority s e xs) = insert e (set xs)"
  by (simp only: insert_by_priority_def set_middle takeWhile_dropWhile_id)

lemma mset_insert_by_priority [simp]: "mset (insert_by_priority s e xs) = add_mset e (mset xs)"
  unfolding insert_by_priority_def
  by (metis mset.simps(2) mset_append takeWhile_dropWhile_id union_mset_add_mset_right)

lemma distinct_map_insert_by_priority:
  "distinct (map f (insert_by_priority s e xs)) \<longleftrightarrow> f e \<notin> f ` set xs \<and> distinct (map f xs)"
  by (simp only: insert_by_priority_def distinct_map_middle takeWhile_dropWhile_id)

lemma insert_by_priority_behind:
  "\<forall>e' \<in> set as. \<not> level_lt s (fst e) (fst e') \<Longrightarrow>
     insert_by_priority s e (as @ bs) = as @ insert_by_priority s e bs"
  by (simp add: insert_by_priority_def takeWhile_append2 dropWhile_append2)

lemma insert_by_priority_front:
  "\<forall>e' \<in> set bs. level_lt s (fst e) (fst e') \<Longrightarrow> insert_by_priority s e bs = e # bs"
  by (cases bs) (auto simp: insert_by_priority_def)

lemma level_push_Cons:
  assumes "omap_ok (level_lt s) ((p', q') # lv)"
  shows "level_push s p r ((p', q') # lv) =
    (if level_lt s p p' then (p, [r]) # (p', q') # lv
     else if p = p' then (p, q' @ [r]) # lv
     else (p', q') # level_push s p r lv)"
proof -
  have "map_of lv p = None" if "level_lt s p p'"
    using that assms level_order.lt_asym [of s p p'] by (auto simp: map_of_eq_None_iff)
  then show ?thesis
    by (auto simp: level_push_def level_order.lt_irrefl split: option.split)
qed

lemma queue_of_level_push:
  "omap_ok (level_lt s) lv \<Longrightarrow>
     queue_of (level_push s p r lv) = insert_by_priority s (p, r) (queue_of lv)"
proof (induction lv)
  case Nil
  then show ?case by (simp add: level_push_def insert_by_priority_def)
next
  case (Cons l lv)
  obtain p' q' where l: "l = (p', q')" by (cases l)
  have later: "\<forall>e \<in> set (queue_of lv). level_lt s p' (fst e)"
    using Cons.prems l by (auto simp: set_queue_of image_iff) force
  from level_order.lt_total [of s p p']
  consider "level_lt s p p'" | "p = p'" | "level_lt s p' p" "\<not> level_lt s p p'" "p \<noteq> p'"
    using level_order.lt_asym level_order.lt_irrefl by blast
  then show ?case
  proof cases
    case 1
    then have "\<forall>e \<in> set (queue_of (l # lv)). level_lt s p (fst e)"
      using later l level_order.lt_trans by fastforce
    then show ?thesis
      using 1 Cons.prems l by (subst insert_by_priority_front) (auto simp: level_push_Cons)
  next
    case 2
    then show ?thesis using Cons.prems l later
      by (simp add: level_push_Cons insert_by_priority_behind insert_by_priority_front
          level_order.lt_irrefl)
  next
    case 3
    then show ?thesis using Cons l
      by (simp add: level_push_Cons insert_by_priority_behind)
  qed
qed

lemma levels_ok_level_push:
  assumes "levels_ok s lv" and "ro_remaining_quantity r > Quantity 0"
  shows "levels_ok s (level_push s p r lv)"
  using assms(1)
proof (induction lv)
  case Nil
  then show ?case using assms(2) by (simp add: level_push_def levels_ok_Cons)
next
  case (Cons l lv)
  obtain p' q' where l: "l = (p', q')" by (cases l)
  have ok: "omap_ok (level_lt s) ((p', q') # lv)" using Cons.prems l by (simp add: levels_ok_def)
  have keys: "fst ` set (level_push s p r lv) = insert p (fst ` set lv)"
    by (simp add: level_push_def fst_set_omap_put)
  from level_order.lt_total [of s p p'] show ?case
    using Cons l assms(2) keys level_order.lt_trans [of s p p']
    by (auto simp: level_push_Cons [OF ok] levels_ok_Cons)
qed

lemma omap_split:
  "map_of lv p = Some q \<Longrightarrow> \<exists>as bs. lv = as @ (p, q) # bs \<and> p \<notin> fst ` set as"
proof (induction lv)
  case (Cons l lv)
  show ?case
  proof (cases "fst l = p")
    case True
    then show ?thesis using Cons.prems by (cases l) (auto intro: exI [of _ "[]"])
  next
    case False
    then have "map_of lv p = Some q" using Cons.prems by (cases l) auto
    then obtain as bs where "lv = as @ (p, q) # bs" "p \<notin> fst ` set as"
      using Cons.IH by blast
    then show ?thesis using False by (intro exI [of _ "l # as"] exI [of _ bs]) auto
  qed
qed simp

lemma erase_first_filter:
  "distinct (map ro_order_id q) \<Longrightarrow> erase_first oid q = filter (\<lambda>r. ro_order_id r \<noteq> oid) q"
  by (induction q) (auto simp: image_iff intro!: filter_True [symmetric])

lemma omap_erase_middle: "p \<notin> fst ` set as \<Longrightarrow> omap_erase p (as @ (p, q) # bs) = as @ bs"
  by (induction as) auto

lemma level_remove_split:
  assumes "omap_ok (level_lt s) lv" and "map_of lv p = Some q"
  obtains as bs where "lv = as @ (p, q) # bs"
    and "level_remove s oid p lv =
      (if erase_first oid q = [] then as @ bs else as @ (p, erase_first oid q) # bs)"
proof -
  obtain as bs where lv: "lv = as @ (p, q) # bs" "p \<notin> fst ` set as"
    using omap_split assms(2) by metis
  have "omap_put (level_lt s) p (erase_first oid q) lv = as @ (p, erase_first oid q) # bs"
    unfolding lv(1) by (rule level_order.omap_put_present) (use assms(1) lv(1) in simp)
  moreover have "map_of (as @ (p, x) # bs) p = Some x" for x :: "resting_order list"
  proof -
    have "map_of as p = None" using lv(2) by (simp add: map_of_eq_None_iff)
    then show ?thesis by (simp add: map_add_def)
  qed
  ultimately have "level_remove s oid p lv =
      (if erase_first oid q = [] then as @ bs else as @ (p, erase_first oid q) # bs)"
    using assms(2) lv(2) by (simp add: level_remove_def remove_empty_level_def omap_erase_middle)
  then show ?thesis using that lv(1) by blast
qed

lemma level_remove_queue:
  assumes "omap_ok (level_lt s) lv" and "map_of lv p = Some q"
    and "distinct (map (ro_order_id \<circ> snd) (queue_of lv))"
    and "r \<in> set q" "ro_order_id r = oid"
  shows "queue_of (level_remove s oid p lv) = filter (\<lambda>e. ro_order_id (snd e) \<noteq> oid) (queue_of lv)"
proof -
  obtain as bs where lv: "lv = as @ (p, q) # bs"
      "level_remove s oid p lv =
        (if erase_first oid q = [] then as @ bs else as @ (p, erase_first oid q) # bs)"
    using level_remove_split [OF assms(1,2)] by blast
  have "distinct (map ro_order_id q)"
      "\<forall>e \<in> set (queue_of as) \<union> set (queue_of bs). ro_order_id (snd e) \<noteq> oid"
    using assms(3-5) lv(1) by (auto simp: comp_def image_iff)
  moreover have "filter (\<lambda>e. ro_order_id (snd e) \<noteq> oid) (map (Pair p) q) =
      map (Pair p) (filter (\<lambda>r. ro_order_id r \<noteq> oid) q)"
    by (simp add: filter_map comp_def)
  ultimately show ?thesis
    using lv by (auto simp: erase_first_filter filter_id_conv)
qed

lemma levels_ok_append:
  "levels_ok s (as @ bs) \<longleftrightarrow>
     levels_ok s as \<and> levels_ok s bs \<and>
     (\<forall>k \<in> fst ` set as. \<forall>k' \<in> fst ` set bs. level_lt s k k')"
proof (induction as)
  case (Cons l as)
  then show ?case
    by (cases l) (simp only: append_Cons levels_ok_Cons set_append image_Un ball_Un list.set
        image_insert ball_simps fst_conv, blast)
qed simp

lemma set_erase_first: "set (erase_first oid q) \<subseteq> set q"
  by (induction q) auto

lemma levels_ok_level_remove:
  assumes "levels_ok s lv"
  shows "levels_ok s (level_remove s oid p lv)"
proof (cases "map_of lv p")
  case None
  then show ?thesis using assms by (simp add: level_remove_def)
next
  case (Some q)
  obtain as bs where "lv = as @ (p, q) # bs"
      "level_remove s oid p lv =
        (if erase_first oid q = [] then as @ bs else as @ (p, erase_first oid q) # bs)"
    using level_remove_split [OF _ Some] assms levels_ok_def by metis
  then show ?thesis
    using assms set_erase_first [of oid q] by (auto simp: levels_ok_append levels_ok_Cons)
qed

section \<open>The invariant of the book\<close>

definition side_queue :: "side \<Rightarrow> order_book \<Rightarrow> queue_entry list" where
  "side_queue s bk = queue_of (levels_of s bk)"

definition side_keys :: "side \<Rightarrow> order_book \<Rightarrow> (price \<times> order_id \<times> account_id \<times> order_type) list" where
  "side_keys s bk = map entry_key (side_queue s bk)"

definition key_id :: "price \<times> order_id \<times> account_id \<times> order_type \<Rightarrow> order_id" where
  "key_id k = fst (snd k)"

definition key_rests :: "price \<times> order_id \<times> account_id \<times> order_type \<Rightarrow> bool" where
  "key_rests k \<longleftrightarrow> snd (snd (snd k)) = Limit \<or> snd (snd (snd k)) = Post_Only"

text \<open>
  Sorted levels without empty queues or empty orders; every order id at most once; the index
  holds exactly the resting orders, each with its side, price and account; the best bid is
  below the best ask; market, IOC and FOK orders never rest.
\<close>

definition book_inv :: "order_book \<Rightarrow> bool" where
  "book_inv bk \<longleftrightarrow>
     (\<forall>s. levels_ok s (levels_of s bk)) \<and>
     distinct (map key_id (side_keys Buy bk @ side_keys Sell bk)) \<and>
     (\<forall>oid loc. order_locations bk oid = Some loc \<longleftrightarrow>
        (\<exists>ty. (ol_price loc, oid, ol_account_id loc, ty) \<in> set (side_keys (ol_side loc) bk))) \<and>
     (\<forall>b \<in> fst ` set (side_keys Buy bk). \<forall>a \<in> fst ` set (side_keys Sell bk). b < a) \<and>
     (\<forall>s. \<forall>k \<in> set (side_keys s bk). key_rests k)"

lemma levels_of_set_levels [simp]:
  "levels_of s (set_levels s' lv bk) = (if s = s' then lv else levels_of s bk)"
  by (cases s; cases s') auto

lemma set_levels_frame [simp]:
  "order_locations (set_levels s lv bk) = order_locations bk"
  "next_execution_id (set_levels s lv bk) = next_execution_id bk"
  "levels_of s (bk\<lparr>order_locations := locs\<rparr>) = levels_of s bk"
  "levels_of s (bk\<lparr>next_execution_id := nid\<rparr>) = levels_of s bk"
  by (cases s; simp)+

lemma book_inv_empty: "book_inv empty_book"
proof -
  have "levels_of s empty_book = []" for s by (cases s) (simp_all add: empty_book_def)
  then show ?thesis
    by (simp add: book_inv_def side_keys_def side_queue_def empty_book_def)
qed

lemma book_inv_levels: "book_inv bk \<Longrightarrow> levels_ok s (levels_of s bk)"
  by (simp add: book_inv_def)

lemma book_inv_distinct:
  assumes "book_inv bk"
  shows "distinct (map key_id (side_keys s bk))"
    and "key_id ` set (side_keys s bk) \<inter> key_id ` set (side_keys (opposite s) bk) = {}"
  using assms by (cases s; auto simp: book_inv_def)+

lemma book_inv_location:
  "book_inv bk \<Longrightarrow> order_locations bk oid = Some loc \<longleftrightarrow>
     (\<exists>ty. (ol_price loc, oid, ol_account_id loc, ty) \<in> set (side_keys (ol_side loc) bk))"
  by (simp add: book_inv_def)

lemma book_inv_uncrossed:
  "book_inv bk \<Longrightarrow> b \<in> fst ` set (side_keys Buy bk) \<Longrightarrow> a \<in> fst ` set (side_keys Sell bk) \<Longrightarrow> b < a"
  by (simp only: book_inv_def)

lemma book_inv_types: "book_inv bk \<Longrightarrow> k \<in> set (side_keys s bk) \<Longrightarrow> key_rests k"
  by (simp add: book_inv_def)

lemma book_inv_contains:
  assumes "book_inv bk"
  shows "order_locations bk oid \<noteq> None \<longleftrightarrow> (\<exists>s. oid \<in> key_id ` set (side_keys s bk))"
proof
  assume "order_locations bk oid \<noteq> None"
  then obtain loc where "order_locations bk oid = Some loc" by blast
  then show "\<exists>s. oid \<in> key_id ` set (side_keys s bk)"
    using book_inv_location [OF assms] by (force simp: key_id_def)
next
  assume "\<exists>s. oid \<in> key_id ` set (side_keys s bk)"
  then obtain s p a ty where "(p, oid, a, ty) \<in> set (side_keys s bk)"
    by (auto simp: key_id_def)
  then show "order_locations bk oid \<noteq> None"
    using book_inv_location [OF assms, of oid "\<lparr>ol_side = s, ol_price = p, ol_account_id = a\<rparr>"]
    by auto
qed

text \<open>The queues are sorted by price, best first.\<close>

lemma levels_ok_sorted:
  assumes "levels_ok s lv"
  shows "sorted_wrt (\<lambda>e e'. \<not> level_lt s (fst e') (fst e)) (queue_of lv)"
  using assms
proof (induction lv)
  case (Cons l lv)
  obtain p q where l: "l = (p, q)" by (cases l)
  have "\<forall>e \<in> set (queue_of lv). level_lt s p (fst e)"
    using Cons.prems l by (force simp: set_queue_of levels_ok_Cons)
  moreover have "sorted_wrt (\<lambda>e e'. \<not> level_lt s (fst e') (fst e)) (map (Pair p) q)"
    by (induction q) (auto simp: level_order.lt_irrefl)
  ultimately show ?case
    using Cons l level_order.lt_asym by (auto simp: sorted_wrt_append levels_ok_Cons)
qed simp

lemma outside_limit_rest:
  assumes "levels_ok (opposite s) lv" and "queue_of lv = e # xs" and "outside_limit s lim (fst e)"
  shows "\<forall>e' \<in> set (queue_of lv). outside_limit s lim (fst e')"
  using levels_ok_sorted [OF assms(1)] assms(2,3) by (cases s) fastforce+

text \<open>Removing entries from one side, with their ids taken out of the index, keeps the invariant.\<close>

lemma book_inv_shrink:
  assumes inv: "book_inv bk"
    and keys: "mset (side_keys s bk) = mset K + mset (side_keys s bk')"
    and same: "side_keys (opposite s) bk' = side_keys (opposite s) bk"
    and ok: "\<And>s'. levels_ok s' (levels_of s' bk')"
    and locs: "order_locations bk' = erase_ids (map key_id K) (order_locations bk)"
  shows "book_inv bk'"
proof -
  have "mset (map key_id (side_keys s bk)) = mset (map key_id (K @ side_keys s bk'))"
    using keys by simp
  then have dist: "distinct (map key_id (K @ side_keys s bk'))"
    using book_inv_distinct(1) [OF inv] mset_eq_imp_distinct_iff by metis
  have set_eq: "set (side_keys s bk) = set K \<union> set (side_keys s bk')"
    using keys by (metis set_mset_mset set_mset_union)
  have disj: "key_id ` set (side_keys s bk) \<inter> key_id ` set (side_keys (opposite s) bk) = {}"
    by (rule book_inv_distinct(2) [OF inv])
  have sub: "set (side_keys s' bk') \<subseteq> set (side_keys s' bk)" for s'
    using same set_eq by (cases s; cases s') auto
  have "distinct (map key_id (side_keys Buy bk' @ side_keys Sell bk'))"
    using dist disj set_eq same book_inv_distinct(1) [OF inv, of "opposite s"]
    by (cases s) (auto simp: comp_def)
  moreover have "order_locations bk' oid = Some loc \<longleftrightarrow>
      (\<exists>ty. (ol_price loc, oid, ol_account_id loc, ty) \<in> set (side_keys (ol_side loc) bk'))" for oid loc
  proof -
    have mem: "(p, oid, a, ty) \<in> set (side_keys s' bk') \<longleftrightarrow>
        oid \<notin> key_id ` set K \<and> (p, oid, a, ty) \<in> set (side_keys s' bk)" for p a ty s'
    proof (cases "s' = s")
      case True
      have "key_id ` set K \<inter> key_id ` set (side_keys s bk') = {}" using dist by auto
      then show ?thesis using True set_eq by (force simp: key_id_def)
    next
      case False
      then have "s' = opposite s" by (cases s; cases s') auto
      then show ?thesis using same disj set_eq by (force simp: key_id_def)
    qed
    have "order_locations bk' oid = Some loc \<longleftrightarrow>
        oid \<notin> key_id ` set K \<and> order_locations bk oid = Some loc"
      using locs by (simp add: erase_ids_def)
    then show ?thesis
      using book_inv_location [OF inv, of oid loc] mem by blast
  qed
  moreover have "\<forall>b \<in> fst ` set (side_keys Buy bk'). \<forall>a \<in> fst ` set (side_keys Sell bk'). b < a"
    using sub by (intro ballI book_inv_uncrossed [OF inv]) (auto intro!: imageI)
  moreover have "\<forall>s. \<forall>k \<in> set (side_keys s bk'). key_rests k"
    using sub by (intro allI ballI book_inv_types [OF inv]) (rule subsetD)
  ultimately show ?thesis using ok by (simp add: book_inv_def)
qed

text \<open>Resting an order with a fresh id that crosses nothing keeps the invariant.\<close>

lemma side_queue_rest_order:
  assumes "book_inv bk"
  shows "side_queue s (rest_order order n bk) =
    (if s = o_side order then insert_by_priority s
       (o_price order, \<lparr>ro_order_id = o_order_id order, ro_remaining_quantity = n,
          ro_order_type = o_order_type order, ro_account_id = o_account_id order\<rparr>) (side_queue s bk)
     else side_queue s bk)"
  using book_inv_levels [OF assms, of "o_side order"]
  by (simp add: side_queue_def rest_order_def Let_def queue_of_level_push levels_ok_def)

lemma book_inv_rest_order:
  assumes inv: "book_inv bk" and fresh: "order_locations bk (o_order_id order) = None"
    and pos: "n > Quantity 0" and ty: "o_order_type order = Limit \<or> o_order_type order = Post_Only"
    and cross: "\<forall>e \<in> set (side_queue (opposite (o_side order)) bk).
                  outside_limit (o_side order) (o_price order) (fst e)"
  shows "book_inv (rest_order order n bk)"
proof -
  let ?s = "o_side order" and ?bk = "rest_order order n bk"
  let ?k = "(o_price order, o_order_id order, o_account_id order, o_order_type order)"
  have keys: "mset (side_keys s ?bk) =
      (if s = ?s then {#?k#} else {#}) + mset (side_keys s bk)" for s
    by (simp add: side_keys_def side_queue_rest_order [OF inv])
  have sets: "set (side_keys s ?bk) = (if s = ?s then {?k} else {}) \<union> set (side_keys s bk)" for s
    using arg_cong [OF keys [of s], of set_mset] by (simp split: if_splits)
  have new: "o_order_id order \<notin> key_id ` set (side_keys s bk)" for s
    using fresh book_inv_contains [OF inv] by blast
  have "mset (map key_id (side_keys Buy ?bk @ side_keys Sell ?bk)) =
      mset (o_order_id order # map key_id (side_keys Buy bk @ side_keys Sell bk))"
    by (cases ?s) (simp_all add: keys key_id_def)
  moreover have "distinct (o_order_id order # map key_id (side_keys Buy bk @ side_keys Sell bk))"
    using inv new by (auto simp: book_inv_def)
  ultimately have "distinct (map key_id (side_keys Buy ?bk @ side_keys Sell ?bk))"
    using mset_eq_imp_distinct_iff by blast
  moreover have "levels_ok s (levels_of s ?bk)" for s
    using book_inv_levels [OF inv] pos
    by (simp add: rest_order_def Let_def levels_ok_level_push)
  moreover have locs: "order_locations ?bk = (order_locations bk)(o_order_id order \<mapsto>
      \<lparr>ol_side = ?s, ol_price = o_price order, ol_account_id = o_account_id order\<rparr>)"
    by (simp add: rest_order_def Let_def emplace_def fresh)
  moreover have "order_locations ?bk oid = Some loc \<longleftrightarrow>
      (\<exists>ty. (ol_price loc, oid, ol_account_id loc, ty) \<in> set (side_keys (ol_side loc) ?bk))" for oid loc
    using book_inv_location [OF inv, of oid loc] fresh new [of "ol_side loc"]
    by (cases loc) (auto simp: locs sets key_id_def image_iff)
  moreover have "\<forall>b \<in> fst ` set (side_keys Buy ?bk). \<forall>a \<in> fst ` set (side_keys Sell ?bk). b < a"
  proof -
    have "\<forall>k \<in> set (side_keys (opposite ?s) bk). outside_limit ?s (o_price order) (fst k)"
      using cross by (auto simp: side_keys_def)
    then show ?thesis
      using book_inv_uncrossed [OF inv] by (cases ?s) (auto simp: sets)
  qed
  moreover have "\<forall>s. \<forall>k \<in> set (side_keys s ?bk). key_rests k"
    using ty book_inv_types [OF inv] by (simp add: sets key_rests_def)
  ultimately show ?thesis by (simp add: book_inv_def)
qed

end
