(* ===== verification/Open_Interest.thy ===== *)
theory Open_Interest
  imports Domain
begin

text \<open>
  The contract between the order book and the account risk manager. Both keep, per instrument,
  the open quantity of every resting order: the book in its queues, the risk manager in its
  reservations. \<open>open_interest\<close> is what they must agree on, \<open>consume\<close> is what a list of trades
  of one incoming order does to it, and the locale \<open>matching_book\<close> states what the risk side
  may assume of a book.
\<close>

type_synonym open_interest = "order_id \<rightharpoonup> side \<times> account_id \<times> nat"

definition take_from :: "open_interest \<Rightarrow> order_id \<Rightarrow> nat \<Rightarrow> open_interest" where
  "take_from V k x =
     (case V k of
        None \<Rightarrow> V
      | Some (s, a, n) \<Rightarrow> if n \<le> x then V(k := None) else V(k \<mapsto> (s, a, n - x)))"

text \<open>One trade takes its quantity from the incoming and from the resting order.\<close>

fun consume :: "open_interest \<Rightarrow> order_id \<Rightarrow> trade_executed list \<Rightarrow> open_interest" where
  "consume V oid [] = V"
| "consume V oid (t # ts) =
     consume
       (take_from (take_from V oid (unat (te_execution_quantity t)))
          (te_resting_order_id t) (unat (te_execution_quantity t))) oid ts"

text \<open>
  Trades are backed when each takes a positive quantity that both its orders have open, and
  the resting order is on the other side and of the account the trade names.
\<close>

fun backed :: "open_interest \<Rightarrow> side \<Rightarrow> order_id \<Rightarrow> trade_executed list \<Rightarrow> bool" where
  "backed V s oid [] \<longleftrightarrow> True"
| "backed V s oid (t # ts) \<longleftrightarrow>
     (let x = unat (te_execution_quantity t); rid = te_resting_order_id t in
      0 < x \<and>
      (case V oid of Some (s', a, n) \<Rightarrow> s' = s \<and> x \<le> n | None \<Rightarrow> False) \<and>
      (case V rid of
         Some (s', a, m) \<Rightarrow> s' = opposite s \<and> a = t_resting_account_id (te_trade t) \<and> x \<le> m
       | None \<Rightarrow> False) \<and>
      backed (take_from (take_from V oid x) rid x) s oid ts)"

definition trades_for :: "order_t \<Rightarrow> trade_executed list \<Rightarrow> bool" where
  "trades_for order ts \<longleftrightarrow>
     (\<forall>t \<in> set ts. te_instrument_id t = o_instrument_id order \<and>
        te_incoming_order_id t = o_order_id order \<and>
        t_incoming_account_id (te_trade t) = o_account_id order)"


definition is_immediate :: "order_type \<Rightarrow> bool" where
  "is_immediate ty \<longleftrightarrow> ty = IOC \<or> ty = FOK \<or> ty = Market"

lemma take_from_other [simp]: "k \<noteq> k' \<Longrightarrow> take_from V k x k' = V k'"
  by (auto simp: take_from_def split: option.split)

lemma take_from_same:
  "take_from V k x k =
     (case V k of None \<Rightarrow> None | Some (s, a, n) \<Rightarrow> if n \<le> x then None else Some (s, a, n - x))"
  by (auto simp: take_from_def split: option.split)

text \<open>Consuming trades never adds to what an order has open.\<close>

lemma take_from_bounded:
  "(\<And>s' a' n'. V k = Some (s', a', n') \<Longrightarrow> n' \<le> n) \<Longrightarrow> take_from V j x k = Some (s', a', n') \<Longrightarrow> n' \<le> n"
  by (cases "k = j") (auto simp: take_from_same split: option.splits if_splits)

lemma consume_bounded':
  "(\<And>s' a' n'. V k = Some (s', a', n') \<Longrightarrow> n' \<le> n) \<Longrightarrow> consume V oid ts k = Some (s', a', n') \<Longrightarrow> n' \<le> n"
proof (induction V oid ts rule: consume.induct)
  case (2 V oid t ts)
  show ?case
    by (rule 2(1) [OF take_from_bounded [OF take_from_bounded [OF 2(2)]]]) (use 2(3) in simp_all)
qed simp

lemma consume_bounded:
  "V k = Some (s, a, n) \<Longrightarrow> consume V oid ts k = Some (s', a', n') \<Longrightarrow> n' \<le> n"
  by (rule consume_bounded') simp_all

section \<open>The interface of a book\<close>

text \<open>
  What a client that mirrors the open interest may rely on: an order is either refused, with
  one reject event and nothing changed, or executed, with one accept event followed by backed
  trades; a cancel either changes nothing and rejects, or takes out one whole order.
\<close>

locale matching_book =
  fixes book_ok :: "'b \<Rightarrow> bool"
    and interest :: "'b \<Rightarrow> open_interest"
    and place :: "'b \<Rightarrow> order_t \<Rightarrow> 'b \<times> event_batch"
    and cancel :: "'b \<Rightarrow> cancel_order \<Rightarrow> 'b \<times> event_batch"
  assumes place_ok: "book_ok b \<Longrightarrow> o_quantity order > Quantity 0 \<Longrightarrow> book_ok (fst (place b order))"
    and place_duplicate: "book_ok b \<Longrightarrow> interest b (o_order_id order) \<noteq> None \<Longrightarrow>
      \<exists>rj. place b order = (b, [Order_Rejected rj])"
    and place_contract: "book_ok b \<Longrightarrow> o_quantity order > Quantity 0 \<Longrightarrow>
      interest b (o_order_id order) = None \<Longrightarrow>
      (\<exists>rj. place b order = (b, [Order_Rejected rj])) \<or>
      (\<exists>b' ac ts. place b order = (b', Order_Accepted ac # map Trade_Executed ts) \<and>
         trades_for order ts \<and>
         (let V = (interest b)(o_order_id order \<mapsto>
                (o_side order, o_account_id order, qnat (o_quantity order)))
          in backed V (o_side order) (o_order_id order) ts \<and>
             interest b' =
               (if is_immediate (o_order_type order)
                then (consume V (o_order_id order) ts)(o_order_id order := None)
                else consume V (o_order_id order) ts)))"
    and cancel_ok: "book_ok b \<Longrightarrow> book_ok (fst (cancel b req))"
    and cancel_contract: "book_ok b \<Longrightarrow>
      (\<exists>rj. cancel b req = (b, [Order_Rejected rj])) \<or>
      (\<exists>b' cn. cancel b req = (b', [Order_Canceled cn]) \<and>
         cn_instrument_id cn = ca_instrument_id req \<and> cn_order_id cn = ca_order_id req \<and>
         interest b' = (interest b)(ca_order_id req := None))"

text \<open>How much of one order is open.\<close>

definition quantity_of :: "(side \<times> account_id \<times> nat) option \<Rightarrow> nat" where
  "quantity_of x = (case x of None \<Rightarrow> 0 | Some (s, a, n) \<Rightarrow> n)"

lemma quantity_of_take_from:
  "(case V k of None \<Rightarrow> False | Some (s, a, n) \<Rightarrow> x \<le> n) \<Longrightarrow>
   quantity_of (V k) = quantity_of (take_from V k x k) + x"
  by (auto simp: quantity_of_def take_from_same split: option.splits)

lemma take_from_origin: "take_from V j x k = Some (s, a, m) \<Longrightarrow> \<exists>n. V k = Some (s, a, n)"
  by (cases "j = k") (auto simp: take_from_same split: option.splits if_splits)

lemma consume_origin: "consume V oid ts k = Some (s, a, m) \<Longrightarrow> \<exists>n. V k = Some (s, a, n)"
proof (induction V oid ts arbitrary: m rule: consume.induct)
  case (2 V oid t ts)
  then show ?case by (fastforce dest!: take_from_origin)
qed simp

lemma consume_quantity:
  assumes "backed V s oid ts" and "k \<noteq> oid"
  shows "quantity_of (V k) = quantity_of (consume V oid ts k) +
    (\<Sum>t\<leftarrow>ts. if te_resting_order_id t = k then unat (te_execution_quantity t) else 0)"
  using assms(1)
proof (induction ts arbitrary: V)
  case (Cons t ts)
  let ?x = "unat (te_execution_quantity t)" and ?r = "te_resting_order_id t"
  let ?V = "take_from (take_from V oid ?x) ?r ?x"
  have enough: "case V ?r of None \<Rightarrow> False | Some (s, a, n) \<Rightarrow> ?x \<le> n" and rest: "backed ?V s oid ts"
    using Cons.prems by (auto simp: Let_def split: option.splits)
  have "quantity_of (V k) = quantity_of (?V k) + (if ?r = k then ?x else 0)"
  proof (cases "?r = k")
    case True
    then have "take_from V oid ?x k = V k" and "?V k = take_from V k ?x k"
      using assms(2) by (simp_all add: take_from_same)
    then show ?thesis using quantity_of_take_from [where V = V and k = k and x = ?x] enough True by simp
  next
    case False
    then show ?thesis using assms(2) by simp
  qed
  then show ?case using Cons.IH [OF rest] by simp
qed simp

context matching_book
begin

text \<open>Orders other than the incoming one lose exactly what is traded against them.\<close>

lemma place_takes:
  assumes "book_ok b" and "o_quantity order > Quantity 0" and "place b order = (b', events)"
  shows "trades_of events = [] \<or> trades_for order (trades_of events)"
    and "interest b k \<noteq> None \<Longrightarrow> quantity_of (interest b k) = quantity_of (interest b' k) +
      (\<Sum>t\<leftarrow>trades_of events. if te_resting_order_id t = k then unat (te_execution_quantity t) else 0)"
    and "interest b' k = Some (s, a, m) \<Longrightarrow>
      (\<exists>n. interest b k = Some (s, a, n)) \<or>
      (interest b k = None \<and> k = o_order_id order \<and> a = o_account_id order)"
proof -
  define oid where "oid = o_order_id order"
  define V where "V = (interest b)(oid \<mapsto> (o_side order, o_account_id order, qnat (o_quantity order)))"
  consider rj where "b' = b" "events = [Order_Rejected rj]"
    | ac ts where "interest b oid = None" "events = Order_Accepted ac # map Trade_Executed ts"
      "trades_for order ts" "backed V (o_side order) oid ts"
      "interest b' = (if is_immediate (o_order_type order) then (consume V oid ts)(oid := None) else consume V oid ts)"
    using place_duplicate [OF assms(1), of order] place_contract [OF assms(1,2)] assms(3)
    unfolding oid_def V_def Let_def by (cases "interest b (o_order_id order)") force+
  then have "(trades_of events = [] \<or> trades_for order (trades_of events)) \<and>
    (interest b k \<noteq> None \<longrightarrow> quantity_of (interest b k) = quantity_of (interest b' k) +
      (\<Sum>t\<leftarrow>trades_of events. if te_resting_order_id t = k then unat (te_execution_quantity t) else 0)) \<and>
    (interest b' k = Some (s, a, m) \<longrightarrow>
      (\<exists>n. interest b k = Some (s, a, n)) \<or>
      (interest b k = None \<and> k = oid \<and> a = o_account_id order))"
  proof cases
    case 2
    have "V k = interest b k" if "k \<noteq> oid" using that by (simp add: V_def)
    then show ?thesis
      using 2 consume_quantity [OF 2(4), of k] consume_origin [of V oid ts k s a m]
      by (cases "k = oid") (auto simp: V_def split: if_splits)
  qed simp
  then show "trades_of events = [] \<or> trades_for order (trades_of events)"
    and "interest b k \<noteq> None \<Longrightarrow> quantity_of (interest b k) = quantity_of (interest b' k) +
      (\<Sum>t\<leftarrow>trades_of events. if te_resting_order_id t = k then unat (te_execution_quantity t) else 0)"
    and "interest b' k = Some (s, a, m) \<Longrightarrow>
      (\<exists>n. interest b k = Some (s, a, n)) \<or>
      (interest b k = None \<and> k = o_order_id order \<and> a = o_account_id order)"
    unfolding oid_def by blast+
qed

end

end
