(* ===== verification/Order_Book_Correctness.thy ===== *)
theory Order_Book_Correctness
  imports Order_Book_Invariant Open_Interest
begin

text \<open>
  Correctness of the order book against an abstract book (one priority queue per side): a
  specification of \<open>place_order\<close> and \<open>cancel_order\<close>, the refinement between the two, the
  preservation of the invariant, and the properties of single operations.
\<close>

section \<open>Specification\<close>

type_synonym book_view = "side \<Rightarrow> queue_entry list"

definition view :: "order_book \<Rightarrow> book_view" where
  "view bk = (\<lambda>s. side_queue s bk)"

definition view_ids :: "book_view \<Rightarrow> order_id set" where
  "view_ids v = (\<Union>s. (ro_order_id \<circ> snd) ` set (v s))"

text \<open>What the order may trade with, and the reference matching against it.\<close>

definition reachable_liquidity :: "book_view \<Rightarrow> order_t \<Rightarrow> nat" where
  "reachable_liquidity v order =
     queue_quantity (takeWhile (\<lambda>(p, r). \<not> stops_at order p) (v (opposite (o_side order))))"

definition spec_match :: "book_view \<Rightarrow> order_t \<Rightarrow> fill list \<times> quantity \<times> queue_entry list" where
  "spec_match v order =
     ref_match (\<lambda>p. \<not> stops_at order p) (o_quantity order) (v (opposite (o_side order)))"

definition resting_entry :: "order_t \<Rightarrow> quantity \<Rightarrow> queue_entry" where
  "resting_entry order n =
     (o_price order, \<lparr>ro_order_id = o_order_id order, ro_remaining_quantity = n,
        ro_order_type = o_order_type order, ro_account_id = o_account_id order\<rparr>)"

datatype outcome = Refused reject_reason | Executed "fill list"

definition spec_place :: "book_view \<Rightarrow> order_t \<Rightarrow> book_view \<times> outcome" where
  "spec_place v order =
     (if o_order_id order \<in> view_ids v then (v, Refused Duplicate_Order_Id)
      else if o_order_type order = FOK \<and> reachable_liquidity v order < qnat (o_quantity order)
      then (v, Refused Fok_Not_Filled)
      else if o_order_type order = Post_Only \<and>
        (\<exists>e \<in> set (v (opposite (o_side order))). \<not> stops_at order (fst e))
      then (v, Refused Post_Only_Rejected)
      else
        (case spec_match v order of (fs, n, ys) \<Rightarrow>
           let v' = v(opposite (o_side order) := ys)
           in (if is_immediate (o_order_type order) \<or> n = Quantity 0 then v'
               else v'(o_side order := insert_by_priority (o_side order) (resting_entry order n)
                                         (v (o_side order))),
               Executed fs)))"

fun outcome_events :: "order_t \<Rightarrow> execution_id \<Rightarrow> outcome \<Rightarrow> event_batch" where
  "outcome_events order xid (Refused reason) = book_reject order reason"
| "outcome_events order xid (Executed fs) =
     accepted_event order # map Trade_Executed (trade_list order xid fs)"

fun outcome_fills :: "outcome \<Rightarrow> fill list" where
  "outcome_fills (Refused reason) = []"
| "outcome_fills (Executed fs) = fs"

section \<open>The matching part of \<open>place_order\<close>\<close>

lemma view_ids_contains:
  assumes "book_inv bk"
  shows "oid \<in> view_ids (view bk) \<longleftrightarrow> order_locations bk oid \<noteq> None"
proof -
  have "(ro_order_id \<circ> snd) ` set (side_queue s bk) = key_id ` set (side_keys s bk)" for s
    by (force simp: side_keys_def key_id_def)
  then show ?thesis
    unfolding book_inv_contains [OF assms] by (simp add: view_ids_def view_def)
qed

lemma spec_match_unfold:
  "spec_match (view bk) order = ref_match (\<lambda>p. \<not> stops_at order p) (o_quantity order)
     (queue_of (levels_of (opposite (o_side order)) bk))"
  by (simp add: spec_match_def view_def side_queue_def)

text \<open>The matching loops, run on a well-formed book, in one equation.\<close>

lemma sweep_book:
  assumes inv: "book_inv bk" and match: "spec_match (view bk) order = (fs, n, ys)"
  obtains lv where "queue_of lv = ys" "levels_ok (opposite (o_side order)) lv"
    "sweep order (start_match bk order) = apply_fills order fs n lv (start_match bk order)"
  using sweep_ref [of "opposite (o_side order)" "start_match bk order" order fs n ys]
    book_inv_levels [OF inv] match
  by (auto simp: start_match_def spec_match_unfold)

lemma finish_match_frame:
  "levels_of s (finish_match bk order st) =
     (if s = opposite (o_side order) then ms_levels st else levels_of s bk)"
  "order_locations (finish_match bk order st) = ms_locations st"
  "next_execution_id (finish_match bk order st) = ms_next_id st"
  by (simp_all add: finish_match_def)

definition matched_book :: "order_book \<Rightarrow> order_t \<Rightarrow> order_book" where
  "matched_book bk order = finish_match bk order (sweep order (start_match bk order))"

lemma matched_book:
  assumes inv: "book_inv bk" and match: "spec_match (view bk) order = (fs, n, ys)"
  shows "view (matched_book bk order) = (view bk)(opposite (o_side order) := ys)"
    and "book_inv (matched_book bk order)"
    and "order_locations (matched_book bk order) =
      erase_ids (map key_id (map entry_key (filled_orders fs))) (order_locations bk)"
    and "next_execution_id (matched_book bk order) = next_execution_id bk + of_nat (length fs)"
    and "ms_events (sweep order (start_match bk order)) =
      accepted_event order # map Trade_Executed (trade_list order (next_execution_id bk) fs)"
    and "ms_remaining (sweep order (start_match bk order)) = n"
proof -
  let ?o = "opposite (o_side order)"
  obtain lv where lv: "queue_of lv = ys" "levels_ok ?o lv"
      and run: "sweep order (start_match bk order) = apply_fills order fs n lv (start_match bk order)"
    using sweep_book [OF inv match] by blast
  have levels: "levels_of s (matched_book bk order) = (if s = ?o then lv else levels_of s bk)" for s
    by (simp add: matched_book_def finish_match_frame run apply_fills_def)
  show view: "view (matched_book bk order) = (view bk)(?o := ys)"
    using lv(1) by (auto simp: view_def side_queue_def levels)
  have ids: "map (ro_order_id \<circ> snd) xs = map key_id (map entry_key xs)" for xs
    by (induction xs) (auto simp: key_id_def)
  show locs: "order_locations (matched_book bk order) =
      erase_ids (map key_id (map entry_key (filled_orders fs))) (order_locations bk)"
    unfolding matched_book_def finish_match_frame run
    by (simp add: apply_fills_def start_match_def ids del: map_map)
  show "next_execution_id (matched_book bk order) = next_execution_id bk + of_nat (length fs)"
    unfolding matched_book_def finish_match_frame run
    by (simp add: apply_fills_def start_match_def)
  show "ms_events (sweep order (start_match bk order)) =
      accepted_event order # map Trade_Executed (trade_list order (next_execution_id bk) fs)"
    unfolding run by (simp add: apply_fills_def start_match_def)
  show "ms_remaining (sweep order (start_match bk order)) = n"
    by (simp add: run apply_fills_def)
  have sq: "side_queue ?o (matched_book bk order) = ys"
      "side_queue (o_side order) (matched_book bk order) = side_queue (o_side order) bk"
    using fun_cong [OF view, of ?o] fun_cong [OF view, of "o_side order"] by (simp_all add: view_def)
  have "map entry_key (side_queue ?o bk) =
      map entry_key (filled_orders fs) @ map entry_key (side_queue ?o (matched_book bk order))"
    using ref_match_keys match sq(1) by (simp add: spec_match_unfold side_queue_def)
  moreover have "opposite ?o = o_side order" by (cases "o_side order") auto
  ultimately show "book_inv (matched_book bk order)"
    using lv(2) book_inv_levels [OF inv] locs sq(2)
    by (intro book_inv_shrink [OF inv, where s = ?o and K = "map entry_key (filled_orders fs)"])
      (simp_all add: side_keys_def levels)
qed

lemma view_rest_order:
  "book_inv bk \<Longrightarrow> view (rest_order order n bk) =
     (view bk)(o_side order := insert_by_priority (o_side order) (resting_entry order n)
                                 (view bk (o_side order)))"
  by (auto simp: view_def side_queue_rest_order resting_entry_def)

section \<open>The guards of \<open>place_order\<close>\<close>

text \<open>The fill-or-kill preflight answers exactly whether the reachable liquidity suffices.\<close>

lemma preflight_level_spec:
  "(\<forall>r \<in> set q. ro_remaining_quantity r > Quantity 0) \<Longrightarrow>
   preflight_level n q =
     (if q \<noteq> [] \<and> qnat n \<le> queue_quantity (map (Pair p) q) then None
      else Some (Quantity (of_nat (qnat n - queue_quantity (map (Pair p) q)))))"
proof (induction n q rule: preflight_level.induct)
  case (1 n)
  then show ?case by (cases n) (simp add: queue_quantity_def qnat_def)
next
  case (2 n r rs)
  show ?case
  proof (cases "qnat n \<le> qnat (ro_remaining_quantity r)")
    case True
    then show ?thesis by (auto simp: queue_quantity_def quantity_less_iff quantity_eq_iff)
  next
    case False
    then show ?thesis
      using 2 by (auto simp: queue_quantity_def quantity_less_iff quantity_eq_iff qnat_minus)
  qed
qed

lemma preflight_levels_spec:
  assumes "levels_ok s lv" and "n > Quantity 0"
  shows "preflight_levels order n lv \<longleftrightarrow>
    qnat n \<le> queue_quantity (takeWhile (\<lambda>(p, r). \<not> stops_at order p) (queue_of lv))"
  using assms
proof (induction order n lv rule: preflight_levels.induct)
  case (1 order n)
  then show ?case by (simp add: queue_quantity_def quantity_simps)
next
  case (2 order n p q lv)
  let ?P = "\<lambda>(p, r). \<not> stops_at order p" and ?Q = "queue_quantity (map (Pair p) q)"
  have q: "q \<noteq> []" "\<forall>r \<in> set q. ro_remaining_quantity r > Quantity 0" "levels_ok s lv"
    using "2.prems"(1) by (auto simp: levels_ok_Cons)
  show ?case
  proof (cases "stops_at order p")
    case True
    then have "takeWhile ?P (queue_of ((p, q) # lv)) = []" using q(1) by (cases q) auto
    then show ?thesis using True "2.prems"(2) by (simp add: queue_quantity_def quantity_simps)
  next
    case go: False
    have tw: "takeWhile ?P (queue_of ((p, q) # lv)) = map (Pair p) q @ takeWhile ?P (queue_of lv)"
      unfolding queue_of_Cons using go by (intro takeWhile_append2) auto
    show ?thesis
    proof (cases "qnat n \<le> ?Q")
      case True
      then show ?thesis using go q tw preflight_level_spec [OF q(2), of n p]
        by (simp add: queue_quantity_def)
    next
      case False
      let ?n = "Quantity (of_nat (qnat n - ?Q))"
      have "qnat n - ?Q < 2 ^ 64"
        using unat_lt64 [of "quantity_value n"] by (simp add: qnat_def)
      then have n: "qnat ?n = qnat n - ?Q"
        by (simp add: qnat_def unat_of_nat)
      have "preflight_levels order ?n lv \<longleftrightarrow>
          qnat ?n \<le> queue_quantity (takeWhile ?P (queue_of lv))"
        using "2.IH" [OF go, of ?n] False q preflight_level_spec [OF q(2), of n p] n
        by (simp add: quantity_less_iff)
      then show ?thesis using go q False tw n preflight_level_spec [OF q(2), of n p]
        by (auto simp: queue_quantity_def)
    qed
  qed
qed

lemma can_fully_match_spec:
  assumes "book_inv bk" and "o_quantity order > Quantity 0"
  shows "can_fully_match bk order \<longleftrightarrow> qnat (o_quantity order) \<le> reachable_liquidity (view bk) order"
  using preflight_levels_spec [OF book_inv_levels [OF assms(1)] assms(2)]
  by (simp add: can_fully_match_def reachable_liquidity_def view_def side_queue_def)

text \<open>Only the best opposite price decides whether a post-only order crosses.\<close>

lemma crosses_book_spec:
  assumes inv: "book_inv bk" and ty: "o_order_type order \<noteq> Market"
  shows "crosses_book bk order \<longleftrightarrow>
    (\<exists>e \<in> set (view bk (opposite (o_side order))). \<not> stops_at order (fst e))"
proof (cases "levels_of (opposite (o_side order)) bk")
  case Nil
  then show ?thesis
    by (cases "o_side order") (simp_all add: crosses_book_def view_def side_queue_def)
next
  case (Cons l lv)
  obtain p q where l: "l = (p, q)" by (cases l)
  have ok: "levels_ok (opposite (o_side order)) ((p, q) # lv)"
    using book_inv_levels [OF inv, of "opposite (o_side order)"] Cons l by simp
  then obtain r rs where q: "q = r # rs" by (cases q) (auto simp: levels_ok_Cons)
  have "crosses_book bk order \<longleftrightarrow> \<not> outside_limit (o_side order) (o_price order) p"
    using Cons l by (cases "o_side order") (auto simp: crosses_book_def)
  moreover have "(\<exists>e \<in> set (queue_of ((p, q) # lv)). \<not> outside_limit (o_side order) (o_price order) (fst e))
      \<longleftrightarrow> \<not> outside_limit (o_side order) (o_price order) p"
    using outside_limit_rest [OF ok] q by force
  ultimately show ?thesis
    using Cons l ty by (simp add: view_def side_queue_def stops_at_def)
qed

section \<open>Refinement and preservation\<close>

text \<open>The branches of \<open>place_order\<close>, over the abstract view.\<close>

lemma book_place_order_refused:
  assumes "book_inv bk" and "o_quantity order > Quantity 0"
    and "spec_place (view bk) order = (v, Refused reason)"
  shows "book_place_order bk order = (bk, book_reject order reason) \<and> v = view bk"
  using assms crosses_book_spec [OF assms(1), of order]
  by (auto simp: spec_place_def book_place_order_def view_ids_contains can_fully_match_spec Let_def
      split: if_splits prod.splits)

lemma book_place_order_executed:
  assumes "book_inv bk" and "o_quantity order > Quantity 0"
    and "spec_place (view bk) order = (v, Executed fs)"
    and "spec_match (view bk) order = (fs, n, ys)"
  shows "book_place_order bk order =
    (if is_immediate (o_order_type order) \<or> n = Quantity 0 then matched_book bk order
     else rest_order order n (matched_book bk order),
     outcome_events order (next_execution_id bk) (Executed fs))"
  using assms crosses_book_spec [OF assms(1), of order] matched_book(5,6) [OF assms(1,4)]
  by (auto simp: spec_place_def book_place_order_def view_ids_contains can_fully_match_spec Let_def
      matched_book_def is_immediate_def quantity_simps split: if_splits prod.splits)

lemma spec_place_executed_fills:
  assumes "spec_place v order = (v', Executed fs)"
  obtains n ys where "spec_match v order = (fs, n, ys)"
    and "v' = (if is_immediate (o_order_type order) \<or> n = Quantity 0
       then v(opposite (o_side order) := ys)
       else v(opposite (o_side order) := ys,
              o_side order := insert_by_priority (o_side order) (resting_entry order n)
                                (v (o_side order))))"
    and "o_order_id order \<notin> view_ids v"
    and "o_order_type order = FOK \<Longrightarrow> qnat (o_quantity order) \<le> reachable_liquidity v order"
    and "o_order_type order = Post_Only \<Longrightarrow>
      \<forall>e \<in> set (v (opposite (o_side order))). stops_at order (fst e)"
  using assms by (cases "spec_match v order") (auto simp: spec_place_def Let_def split: if_splits)

text \<open>What is left of a limit order rests only where nothing within its limit remains.\<close>

lemma leftover_outside:
  assumes inv: "book_inv bk" and match: "spec_match (view bk) order = (fs, n, ys)"
    and n: "n > Quantity 0"
  shows "\<forall>e \<in> set ys. stops_at order (fst e)"
proof (cases ys)
  case (Cons e es)
  obtain lv where lv: "queue_of lv = ys" "levels_ok (opposite (o_side order)) lv"
    using sweep_book [OF inv match] by blast
  have "stops_at order (fst e)"
    using ref_match_exhausts n match Cons unfolding spec_match_def by fastforce
  then show ?thesis
    using outside_limit_rest [OF lv(2)] lv(1) Cons by (auto simp: stops_at_def)
qed simp

lemma fresh_in_matched_book:
  assumes "book_inv bk" and "spec_match (view bk) order = (fs, n, ys)"
    and "order_locations bk oid = None"
  shows "order_locations (matched_book bk order) oid = None"
  using assms(3) by (simp add: matched_book(3) [OF assms(1,2)] erase_ids_def)

lemma rest_order_matched_inv:
  assumes inv: "book_inv bk" and match: "spec_match (view bk) order = (fs, n, ys)"
    and n: "n > Quantity 0" and ty: "\<not> is_immediate (o_order_type order)"
    and fresh: "order_locations bk (o_order_id order) = None"
  shows "book_inv (rest_order order n (matched_book bk order))"
proof -
  have "side_queue (opposite (o_side order)) (matched_book bk order) = ys"
    using fun_cong [OF matched_book(1) [OF inv match], of "opposite (o_side order)"]
    by (simp add: view_def)
  then have "\<forall>e \<in> set (side_queue (opposite (o_side order)) (matched_book bk order)).
      outside_limit (o_side order) (o_price order) (fst e)"
    using leftover_outside [OF inv match n] by (simp add: stops_at_def)
  moreover have "o_order_type order = Limit \<or> o_order_type order = Post_Only"
    using ty by (cases "o_order_type order") (auto simp: is_immediate_def)
  ultimately show ?thesis
    using book_inv_rest_order [OF matched_book(2) [OF inv match]] fresh_in_matched_book [OF inv match] fresh n
    by blast
qed

lemma book_place_refines:
  assumes "book_inv bk" and "o_quantity order > Quantity 0"
  shows "view (fst (book_place_order bk order)) = fst (spec_place (view bk) order) \<and>
    snd (book_place_order bk order) =
      outcome_events order (next_execution_id bk) (snd (spec_place (view bk) order))"
proof (cases "snd (spec_place (view bk) order)")
  case (Refused reason)
  then show ?thesis
    using book_place_order_refused [OF assms, of _ reason] by (cases "spec_place (view bk) order") auto
next
  case (Executed fs)
  then obtain v where v: "spec_place (view bk) order = (v, Executed fs)"
    by (cases "spec_place (view bk) order") auto
  then obtain n ys where match: "spec_match (view bk) order = (fs, n, ys)"
    and v': "v = (if is_immediate (o_order_type order) \<or> n = Quantity 0
       then (view bk)(opposite (o_side order) := ys)
       else (view bk)(opposite (o_side order) := ys,
              o_side order := insert_by_priority (o_side order) (resting_entry order n)
                                (view bk (o_side order))))"
    by (elim spec_place_executed_fills) blast
  show ?thesis
    using book_place_order_executed [OF assms v match] v v'
      matched_book(1,2) [OF assms(1) match] by (simp add: view_rest_order)
qed

lemma book_place_inv:
  assumes "book_inv bk" and "o_quantity order > Quantity 0"
  shows "book_inv (fst (book_place_order bk order))"
proof (cases "snd (spec_place (view bk) order)")
  case (Refused reason)
  then show ?thesis
    using book_place_order_refused [OF assms, of _ reason] assms(1)
    by (cases "spec_place (view bk) order") auto
next
  case (Executed fs)
  then obtain v where v: "spec_place (view bk) order = (v, Executed fs)"
    by (cases "spec_place (view bk) order") auto
  then obtain n ys where match: "spec_match (view bk) order = (fs, n, ys)"
    and fresh: "o_order_id order \<notin> view_ids (view bk)"
    by (elim spec_place_executed_fills) blast
  show ?thesis
    using book_place_order_executed [OF assms v match] matched_book(2) [OF assms(1) match]
      rest_order_matched_inv [OF assms(1) match] fresh
    by (auto simp: view_ids_contains [OF assms(1)] quantity_simps)
qed

text \<open>The index after \<open>place_order\<close>, and the execution ids it consumed.\<close>

lemma book_place_contains:
  assumes "book_inv bk" and "o_quantity order > Quantity 0"
  shows "order_locations (fst (book_place_order bk order)) oid \<noteq> None \<longleftrightarrow>
    oid \<in> view_ids (fst (spec_place (view bk) order))"
  using view_ids_contains [OF book_place_inv [OF assms], of oid] book_place_refines [OF assms]
  by simp

lemma rest_order_frame [simp]:
  "next_execution_id (rest_order order n bk) = next_execution_id bk"
  by (simp add: rest_order_def Let_def)

lemma book_place_next_id:
  assumes "book_inv bk" and "o_quantity order > Quantity 0"
  shows "next_execution_id (fst (book_place_order bk order)) =
    next_execution_id bk + of_nat (length (outcome_fills (snd (spec_place (view bk) order))))"
proof (cases "snd (spec_place (view bk) order)")
  case (Refused reason)
  then show ?thesis
    using book_place_order_refused [OF assms, of _ reason] by (cases "spec_place (view bk) order") auto
next
  case (Executed fs)
  then obtain v where v: "spec_place (view bk) order = (v, Executed fs)"
    by (cases "spec_place (view bk) order") auto
  then obtain n ys where match: "spec_match (view bk) order = (fs, n, ys)"
    by (elim spec_place_executed_fills) blast
  show ?thesis
    using book_place_order_executed [OF assms v match] matched_book(4) [OF assms(1) match] v by simp
qed

lemma trades_of_outcome [simp]:
  "trades_of (outcome_events order xid out) = trade_list order xid (outcome_fills out)"
  by (cases out) (auto simp: book_reject_def accepted_event_def)

section \<open>Canceling\<close>

lemma located_entry:
  assumes inv: "book_inv bk" and loc: "order_locations bk oid = Some loc"
  obtains r q where "map_of (levels_of (ol_side loc) bk) (ol_price loc) = Some q" "r \<in> set q"
    "ro_order_id r = oid" "ro_account_id r = ol_account_id loc"
    "(ol_price loc, r) \<in> set (side_queue (ol_side loc) bk)"
proof -
  obtain ty where "(ol_price loc, oid, ol_account_id loc, ty) \<in> set (side_keys (ol_side loc) bk)"
    using book_inv_location [OF inv] loc by blast
  then obtain r where r: "(ol_price loc, r) \<in> set (side_queue (ol_side loc) bk)"
      "ro_order_id r = oid" "ro_account_id r = ol_account_id loc"
    by (auto simp: side_keys_def)
  then obtain q where q: "(ol_price loc, q) \<in> set (levels_of (ol_side loc) bk)" "r \<in> set q"
    by (auto simp: side_queue_def set_queue_of)
  have "distinct (map fst (levels_of (ol_side loc) bk))"
    using book_inv_levels [OF inv] level_order.omap_ok_distinct by (auto simp: levels_ok_def)
  then have "map_of (levels_of (ol_side loc) bk) (ol_price loc) = Some q"
    using q(1) by simp
  then show ?thesis using that q(2) r by blast
qed

lemma find_order_type_member:
  assumes "r \<in> set q" and "ro_order_id r = oid" and "distinct (map ro_order_id q)"
  shows "find_order_type oid q = ro_order_type r"
  using assms by (induction q) (auto simp: image_iff)

lemma side_queue_distinct:
  "book_inv bk \<Longrightarrow> distinct (map (ro_order_id \<circ> snd) (side_queue s bk))"
  using book_inv_distinct(1) [of bk s]
  by (simp add: side_keys_def comp_def key_id_def entry_key_def split_def)

definition canceled_event :: "order_location \<Rightarrow> cancel_order \<Rightarrow> order_type \<Rightarrow> engine_event" where
  "canceled_event stale req ty =
     Order_Canceled
       \<lparr>cn_order = \<lparr>o_instrument_id = ca_instrument_id req, o_order_id = ca_order_id req,
          o_side = ol_side stale, o_price = ol_price stale, o_quantity = Quantity 0,
          o_remaining_quantity = Quantity 0, o_status = Canceled, o_order_type = ty,
          o_account_id = ca_account_id req\<rparr>,
        cn_instrument_id = ca_instrument_id req, cn_order_id = ca_order_id req\<rparr>"

lemma book_cancel_success:
  assumes inv: "book_inv bk" and loc: "order_locations bk (ca_order_id req) = Some loc"
    and acct: "ca_account_id req = ol_account_id loc"
  obtains r bk' where "(ol_price loc, r) \<in> set (side_queue (ol_side loc) bk)"
    "ro_order_id r = ca_order_id req"
    "book_cancel_order stale bk req = (bk', [canceled_event stale req (ro_order_type r)])"
    "view bk' = (view bk)(ol_side loc :=
       filter (\<lambda>e. ro_order_id (snd e) \<noteq> ca_order_id req) (view bk (ol_side loc)))"
    "order_locations bk' = (order_locations bk)(ca_order_id req := None)"
    "next_execution_id bk' = next_execution_id bk" "book_inv bk'"
proof -
  let ?s = "ol_side loc" and ?oid = "ca_order_id req"
  let ?bk1 = "remove_order_from_level ?oid loc bk"
  let ?bk' = "?bk1\<lparr>order_locations := (order_locations ?bk1)(?oid := None)\<rparr>"
  obtain r q where r: "map_of (levels_of ?s bk) (ol_price loc) = Some q" "r \<in> set q"
      "ro_order_id r = ?oid" "(ol_price loc, r) \<in> set (side_queue ?s bk)"
    using located_entry [OF inv loc] by blast
  have ok: "omap_ok (level_lt ?s) (levels_of ?s bk)"
    using book_inv_levels [OF inv] by (simp add: levels_ok_def)
  have dist: "distinct (map (ro_order_id \<circ> snd) (queue_of (levels_of ?s bk)))"
    using side_queue_distinct [OF inv, of ?s] by (simp add: side_queue_def)
  obtain as bs where "levels_of ?s bk = as @ (ol_price loc, q) # bs"
    using omap_split [OF r(1)] by blast
  then have "distinct (map ro_order_id q)" using dist by (simp add: comp_def)
  then have event: "book_cancel_order stale bk req = (?bk', [canceled_event stale req (ro_order_type r)])"
    using loc acct r find_order_type_member [OF r(2,3)]
    by (simp add: book_cancel_order_def Let_def canceled_event_def)
  have view: "view ?bk' = (view bk)(?s := filter (\<lambda>e. ro_order_id (snd e) \<noteq> ?oid) (view bk ?s))"
    using level_remove_queue [OF ok r(1) dist r(2,3)]
    by (auto simp: view_def side_queue_def remove_order_from_level_def)
  have locs: "order_locations ?bk' = (order_locations bk)(?oid := None)"
    by (simp add: remove_order_from_level_def)
  let ?K = "filter (\<lambda>k. key_id k = ?oid) (side_keys ?s bk)"
  have "side_keys ?s ?bk' = filter (\<lambda>k. key_id k \<noteq> ?oid) (side_keys ?s bk)"
    using fun_cong [OF view, of ?s]
    by (simp add: view_def side_keys_def filter_map comp_def key_id_def entry_key_def split_def)
  then have keys: "mset (side_keys ?s bk) = mset ?K + mset (side_keys ?s ?bk')"
    by (simp add: mset_filter flip: multiset_partition)
  have same: "side_keys (opposite ?s) ?bk' = side_keys (opposite ?s) bk"
    using fun_cong [OF view, of "opposite ?s"] by (simp add: view_def side_keys_def)
  have "?oid \<in> key_id ` set (side_keys ?s bk)"
    using r(3,4) by (force simp: side_keys_def key_id_def)
  then have "set (map key_id ?K) = {?oid}" by force
  then have erased: "order_locations ?bk' = erase_ids (map key_id ?K) (order_locations bk)"
    using locs by (auto simp: erase_ids_def fun_eq_iff)
  have "levels_ok s' (levels_of s' ?bk')" for s'
    using book_inv_levels [OF inv, of s'] levels_ok_level_remove
    by (auto simp: remove_order_from_level_def)
  then have "book_inv ?bk'"
    by (rule book_inv_shrink [OF inv keys same _ erased])
  moreover have "next_execution_id ?bk' = next_execution_id bk"
    by (simp add: remove_order_from_level_def)
  ultimately show ?thesis using that r(3,4) event view locs by blast
qed

lemma book_cancel_inv:
  assumes "book_inv bk"
  shows "book_inv (fst (book_cancel_order stale bk req))"
proof (cases "order_locations bk (ca_order_id req)")
  case None
  then show ?thesis using assms by (simp add: book_cancel_order_def)
next
  case (Some loc)
  show ?thesis
  proof (cases "ca_account_id req = ol_account_id loc")
    case True
    then show ?thesis using book_cancel_success [OF assms Some True, of stale] by (metis fst_conv)
  next
    case False
    then show ?thesis using assms Some by (simp add: book_cancel_order_def)
  qed
qed

end
