(* ===== verification/Order_Book_Properties.thy ===== *)
theory Order_Book_Properties
  imports Order_Book_Correctness
begin

text \<open>
  The properties of the order book stated over its operations: refinement of the
  specification, the invariant of every reachable book, conservation of quantity, price-time
  priority, the order types, cancellation and execution ids. Each property with hypotheses is
  followed by a witness on the concrete book \<open>demo_book\<close> with two resting asks.
\<close>

section \<open>Concrete orders and books for the witnesses\<close>

definition demo_order ::
  "order_id \<Rightarrow> side \<Rightarrow> raw_price \<Rightarrow> raw_quantity \<Rightarrow> order_type \<Rightarrow> account_id \<Rightarrow> order_t" where
  "demo_order oid s p q ty a =
     \<lparr>o_instrument_id = 1, o_order_id = oid, o_side = s, o_price = Price p,
      o_quantity = Quantity q, o_remaining_quantity = Quantity q, o_status = New_Order,
      o_order_type = ty, o_account_id = a\<rparr>"

definition demo_ask :: "order_id \<Rightarrow> raw_quantity \<Rightarrow> resting_order" where
  "demo_ask oid q =
     \<lparr>ro_order_id = oid, ro_remaining_quantity = Quantity q, ro_order_type = Limit,
      ro_account_id = 7\<rparr>"

definition demo_book :: order_book where
  "demo_book = \<lparr>buy_levels = [], sell_levels = [(Price 100, [demo_ask 1 5, demo_ask 2 5])],
     order_locations =
       [1 \<mapsto> \<lparr>ol_side = Sell, ol_price = Price 100, ol_account_id = 7\<rparr>,
        2 \<mapsto> \<lparr>ol_side = Sell, ol_price = Price 100, ol_account_id = 7\<rparr>],
     next_execution_id = 1\<rparr>"

lemmas book_eval =
  book_place_order_def empty_book_def start_match_def sweep.simps fill_level.simps
  fill_step_def Let_def less_quantity_def less_price_def min_def less_eq_quantity_def
  less_eq_price_def stops_at_def drop_empty_best_def remove_empty_level_def
  minus_quantity_def finish_match_def rest_order_def level_push_def emplace_def
  make_trade_def accepted_event_def demo_order_def book_reject_def can_fully_match_def
  crosses_book_def book_cancel_order_def cancel_rejected_def level_remove_def
  remove_order_from_level_def contains_order_def

lemma demo_book_built:
  "demo_book = fst (book_place_order (fst (book_place_order empty_book
     (demo_order 1 Sell 100 5 Limit 7))) (demo_order 2 Sell 100 5 Limit 7))"
  by (simp add: book_eval demo_book_def demo_ask_def)

lemma demo_order_positive: "0 < q \<Longrightarrow> o_quantity (demo_order oid s p q ty a) > Quantity 0"
  by (simp add: demo_order_def less_quantity_def)

lemma demo_book_inv: "book_inv demo_book"
  unfolding demo_book_built by (intro book_place_inv book_inv_empty demo_order_positive) simp_all

lemma demo_queues:
  "side_queue Sell demo_book = [(Price 100, demo_ask 1 5), (Price 100, demo_ask 2 5)]"
  "side_queue Buy demo_book = []"
  by (simp_all add: side_queue_def demo_book_def)

section \<open>Projections of the fills\<close>

definition traded :: "event_batch \<Rightarrow> nat" where
  "traded evs = sum_list (map (unat \<circ> te_execution_quantity) (trades_of evs))"

lemma trade_list_resting:
  "map te_resting_order_id (trade_list order xid fs) = map (\<lambda>(p, r, x). ro_order_id r) fs"
  by (induction order xid fs rule: trade_list.induct) (auto simp: make_trade_def)

lemma trade_list_prices:
  "map te_execution_price (trade_list order xid fs) = map (\<lambda>(p, r, x). price_value p) fs"
  by (induction order xid fs rule: trade_list.induct) (auto simp: make_trade_def)

lemma trade_list_quantity:
  "map (unat \<circ> te_execution_quantity) (trade_list order xid fs) = map fill_quantity fs"
  by (induction order xid fs rule: trade_list.induct)
    (auto simp: make_trade_def fill_quantity_def qnat_def)

lemma trade_list_ids:
  "map (t_execution_id \<circ> te_trade) (trade_list order xid fs) =
     map (\<lambda>k. xid + of_nat k) [0..<length fs]"
  by (induction order xid fs rule: trade_list.induct)
    (auto simp: make_trade_def map_upt_Suc algebra_simps simp del: upt_Suc)

lemma trade_list_full:
  assumes "ref_match ok n xs = (fs, n', ys)"
  shows "map te_execution_quantity (butlast (trade_list order xid fs)) =
    map (quantity_value \<circ> ro_remaining_quantity \<circ> snd) (butlast (map (\<lambda>(p, r, x). (p, r)) fs))"
  using assms
proof (induction ok n xs arbitrary: fs n' ys xid rule: ref_match.induct)
  case (2 ok n p r xs)
  show ?case
  proof (cases "n = Quantity 0 \<or> \<not> ok p \<or> \<not> ro_remaining_quantity r \<le> n")
    case True
    then show ?thesis using "2.prems" by (auto split: if_splits)
  next
    case False
    then obtain gs where gs: "ref_match ok (n - ro_remaining_quantity r) xs = (gs, n', ys)"
        "fs = (p, r, ro_remaining_quantity r) # gs"
      using "2.prems"(1) by (auto split: prod.splits)
    then show ?thesis
      using "2.IH" [OF _ _ gs(1), of "xid + 1"] False
      by (cases gs) (auto simp: make_trade_def)
  qed
qed simp

lemma ref_match_length: "ref_match ok n xs = (fs, n', ys) \<Longrightarrow> length fs \<le> length xs"
  by (induction ok n xs arbitrary: fs n' ys rule: ref_match.induct)
    (auto split: prod.splits if_splits)

lemma traded_outcome:
  "traded (outcome_events order xid out) = sum_list (map fill_quantity (outcome_fills out))"
  by (simp add: traded_def trade_list_quantity)

lemma traded_executed:
  "traded (accepted_event order # map Trade_Executed (trade_list order xid fs)) =
     sum_list (map fill_quantity fs)"
  using traded_outcome [of order xid "Executed fs"] by simp

lemma view_ids_memberI: "e \<in> set (w s) \<Longrightarrow> ro_order_id (snd e) = oid \<Longrightarrow> oid \<in> view_ids w"
  by (auto simp: view_ids_def)

lemma view_queue [simp]: "view bk s = side_queue s bk"
  by (simp add: view_def)

lemma queue_quantity_insert:
  "queue_quantity (insert_by_priority s e xs) = qnat (ro_remaining_quantity (snd e)) + queue_quantity xs"
proof -
  have "queue_quantity ys = sum_mset (image_mset (\<lambda>(p, r). qnat (ro_remaining_quantity r)) (mset ys))" for ys
    by (simp add: queue_quantity_def flip: sum_mset_sum_list)
  then show ?thesis by (simp add: split_def)
qed

section \<open>Refinement\<close>

text \<open>
  C4: \<open>place_order\<close> refines its specification. On a well-formed book and a positive
  quantity the nested loops over price levels, queues and the index produce exactly the queues
  and the event batch that the specification on abstract priority queues gives: the same
  refusals (duplicate id, unfillable fill-or-kill, crossing post-only), the same trades in the
  same order with consecutive execution ids, and the same resting order at the same place.
\<close>

theorem place_order_refines_spec:
  assumes "book_inv bk" and "o_quantity order > Quantity 0"
  shows "view (fst (book_place_order bk order)) = fst (spec_place (view bk) order) \<and>
    snd (book_place_order bk order) =
      outcome_events order (next_execution_id bk) (snd (spec_place (view bk) order))"
  using assms by (rule book_place_refines)

theorem place_order_refines_spec_witness:
  "let order = demo_order 3 Buy 101 7 Limit 9 in
   view (fst (book_place_order demo_book order)) = fst (spec_place (view demo_book) order) \<and>
   map te_resting_order_id (trades_of (snd (book_place_order demo_book order))) = [1, 2]"
proof -
  let ?o = "demo_order 3 Buy 101 7 Limit 9"
  have "map te_resting_order_id (trades_of (snd (book_place_order demo_book ?o))) = [1, 2]"
    by (simp add: book_eval demo_book_def demo_ask_def)
  then show ?thesis
    using place_order_refines_spec [OF demo_book_inv demo_order_positive, of 7 3 Buy 101 Limit 9]
    by (simp only: Let_def) simp
qed

section \<open>The invariant of reachable books\<close>

inductive book_reachable :: "order_book \<Rightarrow> bool" where
  reach_empty: "book_reachable empty_book"
| reach_place: "book_reachable bk \<Longrightarrow> o_quantity order > Quantity 0 \<Longrightarrow>
     book_reachable (fst (book_place_order bk order))"
| reach_cancel: "book_reachable bk \<Longrightarrow> book_reachable (fst (book_cancel_order stale bk req))"

text \<open>
  C24: whatever orders and cancellations arrive, a book stays well formed: levels sorted best
  first with no empty queue and no empty order, order ids unique, the id index exact (each
  resting order is found under its side, price and account and nothing else is indexed), the
  best bid below the best ask, and only limit and post-only orders resting. What the freed
  iterator of \<open>cancel_order\<close> yields plays no role.
\<close>

theorem reachable_books_well_formed:
  assumes "book_reachable bk"
  shows "book_inv bk"
  using assms
proof (induction rule: book_reachable.induct)
  case reach_empty
  show ?case by (rule book_inv_empty)
next
  case (reach_place bk order)
  then show ?case by (intro book_place_inv)
next
  case (reach_cancel bk stale req)
  then show ?case by (intro book_cancel_inv)
qed

theorem reachable_books_well_formed_witness:
  "book_inv demo_book \<and> demo_book \<noteq> empty_book"
proof -
  have "book_reachable demo_book"
    unfolding demo_book_built
    by (intro book_reachable.intros demo_order_positive) simp_all
  then show ?thesis
    using reachable_books_well_formed by (simp add: demo_book_def empty_book_def)
qed

section \<open>Conservation and priority\<close>

text \<open>Whether the order of an executed request is in the book afterwards.\<close>

lemma contains_after_match:
  assumes inv: "book_inv bk" and pos: "o_quantity order > Quantity 0"
    and v: "spec_place (view bk) order = (v, Executed fs)"
    and match: "spec_match (view bk) order = (fs, n, ys)"
    and fresh: "o_order_id order \<notin> view_ids (view bk)"
    and v': "v = (if is_immediate (o_order_type order) \<or> n = Quantity 0
       then (view bk)(opposite (o_side order) := ys)
       else (view bk)(opposite (o_side order) := ys,
              o_side order := insert_by_priority (o_side order) (resting_entry order n)
                                (view bk (o_side order))))"
  shows "contains_order (fst (book_place_order bk order)) (o_order_id order) \<longleftrightarrow>
      \<not> (is_immediate (o_order_type order) \<or> n = Quantity 0)"
    and "\<not> contains_order bk (o_order_id order)"
proof -
  have "contains_order (fst (book_place_order bk order)) (o_order_id order) \<longleftrightarrow>
      o_order_id order \<in> view_ids v"
    using book_place_contains [OF inv pos, of "o_order_id order"] v by (simp add: contains_order_def)
  moreover have "o_order_id order \<notin> view_ids ((view bk)(opposite (o_side order) := ys))"
    using fresh_in_matched_book [OF inv match] fresh view_ids_contains [OF inv]
      view_ids_contains [OF matched_book(2) [OF inv match]] matched_book(1) [OF inv match]
    by auto
  moreover have "o_order_id order \<in> view_ids v"
    if "\<not> (is_immediate (o_order_type order) \<or> n = Quantity 0)"
    by (rule view_ids_memberI [where s = "o_side order" and e = "resting_entry order n"])
      (use that in \<open>simp_all add: v' resting_entry_def\<close>)
  ultimately show "contains_order (fst (book_place_order bk order)) (o_order_id order) \<longleftrightarrow>
      \<not> (is_immediate (o_order_type order) \<or> n = Quantity 0)"
    using v' by auto
  show "\<not> contains_order bk (o_order_id order)"
    using fresh view_ids_contains [OF inv] by (simp add: contains_order_def)
qed

text \<open>
  C12: no quantity is created or lost by matching. The opposite side shrinks by exactly what
  was traded, the order never trades more than its quantity, and its own side grows by exactly
  the untraded rest when the order came to rest, and by nothing otherwise.
\<close>

theorem place_order_conserves_quantity:
  fixes bk order
  defines "bk' \<equiv> fst (book_place_order bk order)" and "evs \<equiv> snd (book_place_order bk order)"
  assumes "book_inv bk" and "o_quantity order > Quantity 0"
  shows "traded evs + queue_quantity (side_queue (opposite (o_side order)) bk') =
           queue_quantity (side_queue (opposite (o_side order)) bk) \<and>
         traded evs \<le> qnat (o_quantity order) \<and>
         queue_quantity (side_queue (o_side order) bk') =
           queue_quantity (side_queue (o_side order) bk) +
           (if contains_order bk' (o_order_id order) \<and> \<not> contains_order bk (o_order_id order)
            then qnat (o_quantity order) - traded evs else 0)"
proof (cases "snd (spec_place (view bk) order)")
  case (Refused reason)
  then have "book_place_order bk order = (bk, book_reject order reason)"
    using book_place_order_refused [OF assms(3,4), of _ reason]
    by (cases "spec_place (view bk) order") auto
  then show ?thesis by (simp add: bk'_def evs_def traded_def book_reject_def)
next
  case (Executed fs)
  then obtain v where v: "spec_place (view bk) order = (v, Executed fs)"
    by (cases "spec_place (view bk) order") auto
  note ref = book_place_refines [OF assms(3,4)]
  obtain n ys where match: "spec_match (view bk) order = (fs, n, ys)"
    and fresh: "o_order_id order \<notin> view_ids (view bk)"
    and v': "v = (if is_immediate (o_order_type order) \<or> n = Quantity 0
       then (view bk)(opposite (o_side order) := ys)
       else (view bk)(opposite (o_side order) := ys,
              o_side order := insert_by_priority (o_side order) (resting_entry order n)
                                (view bk (o_side order))))"
    using v by (elim spec_place_executed_fills) blast
  have tr: "traded evs = sum_list (map fill_quantity fs)"
    using ref v by (simp add: evs_def traded_executed)
  have sq: "side_queue s bk' = v s" for s
    using ref v by (metis bk'_def fst_conv view_queue)
  have "traded evs + queue_quantity ys = queue_quantity (side_queue (opposite (o_side order)) bk)"
    using ref_match_queue_quantity match tr by (simp add: spec_match_def)
  moreover have cons: "traded evs + qnat n = qnat (o_quantity order)"
    using ref_match_conserves match tr by (simp add: spec_match_def)
  moreover note contains_after_match [OF assms(3,4) v match fresh v', folded bk'_def]
  ultimately show ?thesis
    by (auto simp: sq v' queue_quantity_insert resting_entry_def quantity_zero_iff)
qed

theorem place_order_conserves_quantity_witness:
  "let r = book_place_order demo_book (demo_order 3 Buy 101 12 Limit 9) in
   traded (snd r) = 10 \<and> queue_quantity (side_queue Buy (fst r)) = 2 \<and>
   traded (snd r) + queue_quantity (side_queue Sell (fst r)) = 10"
proof -
  let ?r = "book_place_order demo_book (demo_order 3 Buy 101 12 Limit 9)"
  have "traded (snd ?r) = 10" and "queue_quantity (side_queue Buy (fst ?r)) = 2"
    by (simp_all add: book_eval demo_book_def demo_ask_def traded_def side_queue_def
        queue_quantity_def qnat_def)
  moreover have "traded (snd ?r) + queue_quantity (side_queue Sell (fst ?r)) = 10"
    using place_order_conserves_quantity [OF demo_book_inv demo_order_positive, of 12 3 Buy 101 Limit 9]
    by (simp add: demo_queues demo_order_def demo_ask_def queue_quantity_def qnat_def)
  ultimately show ?thesis by (simp add: Let_def)
qed

text \<open>The trades of a matching, field by field, along the queue they consume.\<close>

lemma trades_along_queue:
  fixes xid
  assumes match: "ref_match (\<lambda>p. \<not> stops_at order p) n front = (fs, n', ys)"
    and pos: "\<forall>(p, r) \<in> set front. ro_remaining_quantity r > Quantity 0"
  defines "ts \<equiv> trade_list order xid fs"
  shows "map te_resting_order_id ts = take (length ts) (map (ro_order_id \<circ> snd) front)"
    and "map te_execution_price ts = take (length ts) (map (price_value \<circ> fst) front)"
    and "map te_execution_quantity (butlast ts) =
      take (length ts - 1) (map (quantity_value \<circ> ro_remaining_quantity \<circ> snd) front)"
    and "\<forall>t \<in> set ts. \<not> stops_at order (Price (te_execution_price t))"
proof -
  have pre: "map (\<lambda>(p, r, x). (p, r)) fs = take (length fs) front" by (rule ref_match_prefix [OF match])
  have "map te_resting_order_id ts = map (ro_order_id \<circ> snd) (map (\<lambda>(p, r, x). (p, r)) fs)"
    "map te_execution_price ts = map (price_value \<circ> fst) (map (\<lambda>(p, r, x). (p, r)) fs)"
    "map te_execution_quantity (butlast ts) =
      map (quantity_value \<circ> ro_remaining_quantity \<circ> snd) (butlast (map (\<lambda>(p, r, x). (p, r)) fs))"
    using trade_list_full [OF match, of order xid]
    by (simp_all add: ts_def trade_list_resting trade_list_prices split_def)
  then show "map te_resting_order_id ts = take (length ts) (map (ro_order_id \<circ> snd) front)"
    and "map te_execution_price ts = take (length ts) (map (price_value \<circ> fst) front)"
    and "map te_execution_quantity (butlast ts) =
      take (length ts - 1) (map (quantity_value \<circ> ro_remaining_quantity \<circ> snd) front)"
    using ref_match_length [OF match] by (simp_all add: pre ts_def take_map butlast_take)
  show "\<forall>t \<in> set ts. \<not> stops_at order (Price (te_execution_price t))"
  proof
    fix t assume "t \<in> set ts"
    then have "te_execution_price t \<in> set (map te_execution_price ts)" by simp
    then obtain p r x where "(p, r, x) \<in> set fs" "te_execution_price t = price_value p"
      by (auto simp: ts_def trade_list_prices)
    then show "\<not> stops_at order (Price (te_execution_price t))"
      using ref_match_fills [OF match pos] by auto
  qed
qed

text \<open>
  C10: price-time priority. The resting orders an incoming order trades with are the front of
  the opposite queue, in queue order (best price first, oldest first within a price), each at
  its own price; every one of them but the last is filled completely; and an order that is not
  a market order trades at no price outside its limit.
\<close>

theorem matching_follows_price_time_priority:
  fixes bk order
  defines "ts \<equiv> trades_of (snd (book_place_order bk order))"
    and "front \<equiv> side_queue (opposite (o_side order)) bk"
  assumes "book_inv bk" and "o_quantity order > Quantity 0"
  shows "map te_resting_order_id ts = take (length ts) (map (ro_order_id \<circ> snd) front) \<and>
    map te_execution_price ts = take (length ts) (map (price_value \<circ> fst) front) \<and>
    map te_execution_quantity (butlast ts) =
      take (length ts - 1) (map (quantity_value \<circ> ro_remaining_quantity \<circ> snd) front) \<and>
    (\<forall>t \<in> set ts. \<not> stops_at order (Price (te_execution_price t)))"
proof -
  obtain fs where ts: "ts = trade_list order (next_execution_id bk) fs"
    and fs: "fs = outcome_fills (snd (spec_place (view bk) order))"
    using book_place_refines [OF assms(3,4)] by (simp add: ts_def)
  have "fs = [] \<or> (\<exists>n ys. spec_match (view bk) order = (fs, n, ys))"
  proof (cases "snd (spec_place (view bk) order)")
    case (Executed gs)
    then show ?thesis using fs
      by (metis outcome_fills.simps(2) prod.collapse spec_place_executed_fills)
  qed (simp add: fs)
  then consider "fs = []" | n ys where "ref_match (\<lambda>p. \<not> stops_at order p) (o_quantity order) front = (fs, n, ys)"
    by (auto simp: spec_match_def front_def)
  then show ?thesis
  proof cases
    case 1
    then show ?thesis by (simp add: ts)
  next
    case 2
    have "\<forall>(p, r) \<in> set front. ro_remaining_quantity r > Quantity 0"
      using book_inv_levels [OF assms(3), of "opposite (o_side order)"]
      by (fastforce simp: front_def side_queue_def set_queue_of levels_ok_def)
    from trades_along_queue [OF 2 this] show ?thesis unfolding ts by blast
  qed
qed

theorem matching_follows_price_time_priority_witness:
  "let ts = trades_of (snd (book_place_order demo_book (demo_order 3 Buy 101 7 Limit 9))) in
   length ts = 2 \<and> map te_resting_order_id ts = [1, 2] \<and> map te_execution_price ts = [100, 100] \<and>
   map te_execution_quantity (butlast ts) = [5]"
proof -
  have "length (trades_of (snd (book_place_order demo_book (demo_order 3 Buy 101 7 Limit 9)))) = 2"
    by (simp add: book_eval demo_book_def demo_ask_def)
  then show ?thesis
    using matching_follows_price_time_priority
      [OF demo_book_inv demo_order_positive, of 7 3 Buy 101 Limit 9]
    by (simp add: demo_queues demo_order_def demo_ask_def Let_def)
qed

section \<open>Order types\<close>

lemma place_result_executed:
  assumes "book_inv bk" and "o_quantity order > Quantity 0"
    and "spec_place (view bk) order = (v, Executed fs)"
  shows "traded (snd (book_place_order bk order)) = sum_list (map fill_quantity fs)"
  using book_place_refines [OF assms(1,2)] assms(3) by (simp add: traded_executed)

lemma place_cases:
  assumes "book_inv bk" and "o_quantity order > Quantity 0"
  obtains (refused) reason where "spec_place (view bk) order = (view bk, Refused reason)"
      "book_place_order bk order = (bk, book_reject order reason)"
  | (executed) v fs n ys where "spec_place (view bk) order = (v, Executed fs)"
      "spec_match (view bk) order = (fs, n, ys)"
      "snd (book_place_order bk order) = outcome_events order (next_execution_id bk) (Executed fs)"
proof (cases "spec_place (view bk) order")
  case (Pair v out)
  show ?thesis
  proof (cases out)
    case (Refused reason)
    then show ?thesis
      using refused book_place_order_refused [OF assms] Pair by metis
  next
    case (Executed fs)
    then show ?thesis
      using executed Pair book_place_refines [OF assms]
      by (metis snd_conv spec_place_executed_fills)
  qed
qed

text \<open>An order keeps the price it came with.\<close>

lemma place_locations:
  assumes "book_inv bk" and "o_quantity order > Quantity 0"
    and "order_locations (fst (book_place_order bk order)) oid = Some loc"
  shows "order_locations bk oid = Some loc \<or> (oid = o_order_id order \<and> ol_price loc = o_price order)"
  using assms(1,2)
proof (cases rule: place_cases)
  case (refused reason)
  then show ?thesis using assms(3) by simp
next
  case (executed v fs n ys)
  have "order_locations (matched_book bk order) oid = Some loc \<Longrightarrow> order_locations bk oid = Some loc"
    by (simp add: matched_book(3) [OF assms(1) executed(2)] erase_ids_def split: if_splits)
  then show ?thesis
    using assms(3) book_place_order_executed [OF assms(1,2) executed(1,2)]
    by (auto simp: rest_order_def Let_def emplace_def split: if_splits option.splits)
qed

text \<open>
  C29: fill-or-kill is atomic. With a fresh id, an FOK order is rejected with the book
  untouched exactly when the quantity available within its limit is below its own, and is
  otherwise traded completely; in neither case does it come to rest.
\<close>

theorem fok_all_or_nothing:
  assumes "book_inv bk" and "o_quantity order > Quantity 0"
    and "o_order_type order = FOK" and "\<not> contains_order bk (o_order_id order)"
  shows "if reachable_liquidity (view bk) order < qnat (o_quantity order)
    then book_place_order bk order = (bk, book_reject order Fok_Not_Filled)
    else traded (snd (book_place_order bk order)) = qnat (o_quantity order) \<and>
      \<not> contains_order (fst (book_place_order bk order)) (o_order_id order)"
proof -
  have fresh: "o_order_id order \<notin> view_ids (view bk)"
    using assms(4) view_ids_contains [OF assms(1)] by (simp add: contains_order_def)
  show ?thesis
  proof (cases "reachable_liquidity (view bk) order < qnat (o_quantity order)")
    case True
    then have "spec_place (view bk) order = (view bk, Refused Fok_Not_Filled)"
      using fresh assms(3) by (simp add: spec_place_def)
    then show ?thesis using True book_place_order_refused [OF assms(1,2)] by simp
  next
    case False
    obtain fs n ys where match: "spec_match (view bk) order = (fs, n, ys)"
      by (metis prod_cases3)
    then have v: "spec_place (view bk) order = ((view bk)(opposite (o_side order) := ys), Executed fs)"
      using False fresh assms(3) by (simp add: spec_place_def is_immediate_def)
    have "\<forall>(p, r) \<in> set (side_queue (opposite (o_side order)) bk). ro_remaining_quantity r > Quantity 0"
      using book_inv_levels [OF assms(1), of "opposite (o_side order)"]
      by (fastforce simp: side_queue_def set_queue_of levels_ok_def)
    then have "n = Quantity 0"
      using ref_match_complete False match
      by (simp add: spec_match_def reachable_liquidity_def)
    then have "traded (snd (book_place_order bk order)) = qnat (o_quantity order)"
      using place_result_executed [OF assms(1,2) v] ref_match_conserves [OF match [unfolded spec_match_def]]
      by simp
    moreover have "o_order_id order \<notin> view_ids ((view bk)(opposite (o_side order) := ys))"
      using fresh_in_matched_book [OF assms(1) match] fresh view_ids_contains [OF assms(1)]
        view_ids_contains [OF matched_book(2) [OF assms(1) match]] matched_book(1) [OF assms(1) match]
      by auto
    ultimately show ?thesis
      using False book_place_contains [OF assms(1,2), of "o_order_id order"] v
      by (simp add: contains_order_def)
  qed
qed

theorem fok_all_or_nothing_witness:
  "book_place_order demo_book (demo_order 3 Buy 100 11 FOK 9) =
     (demo_book, book_reject (demo_order 3 Buy 100 11 FOK 9) Fok_Not_Filled) \<and>
   traded (snd (book_place_order demo_book (demo_order 3 Buy 100 10 FOK 9))) = 10"
proof -
  have fresh: "\<not> contains_order demo_book (o_order_id (demo_order 3 Buy 100 q FOK 9))" for q
    by (simp add: contains_order_def demo_book_def demo_order_def)
  have liq: "reachable_liquidity (view demo_book) (demo_order 3 Buy 100 q FOK 9) = 10" for q
    by (simp add: reachable_liquidity_def demo_order_def demo_queues stops_at_def less_price_def
        queue_quantity_def demo_ask_def qnat_def)
  have ty: "o_order_type (demo_order 3 Buy 100 q FOK 9) = FOK"
      "qnat (o_quantity (demo_order 3 Buy 100 q FOK 9)) = unat q" for q
    by (simp_all add: demo_order_def qnat_def)
  show ?thesis
    using fok_all_or_nothing [OF demo_book_inv demo_order_positive ty(1) fresh, of 11]
      fok_all_or_nothing [OF demo_book_inv demo_order_positive ty(1) fresh, of 10]
    by (simp add: liq ty(2))
qed

text \<open>
  C30: post-only orders only make, immediate orders only take. A post-only order never causes a
  trade; a market, IOC or FOK order that was not already in the book is not in it afterwards.
\<close>

theorem post_only_makes_immediate_takes:
  assumes "book_inv bk" and "o_quantity order > Quantity 0"
  shows "(o_order_type order = Post_Only \<longrightarrow> trades_of (snd (book_place_order bk order)) = []) \<and>
    (is_immediate (o_order_type order) \<and> \<not> contains_order bk (o_order_id order) \<longrightarrow>
       \<not> contains_order (fst (book_place_order bk order)) (o_order_id order))"
  using assms
proof (cases rule: place_cases)
  case (refused reason)
  then show ?thesis by (simp add: book_reject_def)
next
  case (executed v fs n ys)
  have "fs = []" if "o_order_type order = Post_Only"
  proof -
    have "\<forall>e \<in> set (side_queue (opposite (o_side order)) bk). stops_at order (fst e)"
      using that executed(1) by (elim spec_place_executed_fills) simp
    then show ?thesis
      using executed(2) by (cases "side_queue (opposite (o_side order)) bk") (auto simp: spec_match_def)
  qed
  moreover have "\<not> contains_order (fst (book_place_order bk order)) (o_order_id order)"
    if "is_immediate (o_order_type order)" "\<not> contains_order bk (o_order_id order)"
  proof -
    have "order_locations (matched_book bk order) (o_order_id order) = None"
      using fresh_in_matched_book [OF assms(1) executed(2)] that(2) by (simp add: contains_order_def)
    then show ?thesis
      using book_place_order_executed [OF assms executed(1,2)] that(1) by (simp add: contains_order_def)
  qed
  ultimately show ?thesis using executed(3) by (simp add: accepted_event_def)
qed

theorem post_only_makes_immediate_takes_witness:
  "trades_of (snd (book_place_order demo_book (demo_order 3 Buy 99 4 Post_Only 9))) = [] \<and>
   \<not> contains_order (fst (book_place_order demo_book (demo_order 3 Buy 100 20 IOC 9))) 3"
proof -
  have "\<not> contains_order demo_book 3" by (simp add: contains_order_def demo_book_def)
  then show ?thesis
    using post_only_makes_immediate_takes
        [OF demo_book_inv demo_order_positive, of 4 3 Buy 99 Post_Only 9]
      post_only_makes_immediate_takes
        [OF demo_book_inv demo_order_positive, of 20 3 Buy 100 IOC 9]
    by (simp add: demo_order_def is_immediate_def)
qed

text \<open>
  Execution ids are consecutive and never reused. The trades of one \<open>place_order\<close> are
  numbered from the book's counter upwards (modulo the width of the counter), and the counter
  afterwards is the first number not handed out.
\<close>

theorem execution_ids_consecutive:
  fixes bk order
  defines "ts \<equiv> trades_of (snd (book_place_order bk order))"
  assumes "book_inv bk" and "o_quantity order > Quantity 0"
  shows "map (t_execution_id \<circ> te_trade) ts =
      map (\<lambda>k. next_execution_id bk + of_nat k) [0..<length ts] \<and>
    next_execution_id (fst (book_place_order bk order)) = next_execution_id bk + of_nat (length ts)"
  using book_place_refines [OF assms(2,3)] book_place_next_id [OF assms(2,3)]
  by (simp add: ts_def trade_list_ids)

theorem execution_ids_consecutive_witness:
  "next_execution_id (fst (book_place_order demo_book (demo_order 3 Buy 101 7 Limit 9))) = 3"
proof -
  have "length (trades_of (snd (book_place_order demo_book (demo_order 3 Buy 101 7 Limit 9)))) = 2"
    by (simp add: book_eval demo_book_def demo_ask_def)
  then show ?thesis
    using execution_ids_consecutive [OF demo_book_inv demo_order_positive, of 7 3 Buy 101 Limit 9]
    by (simp add: demo_book_def)
qed

section \<open>Cancellation\<close>

lemma book_cancel_queues:
  assumes inv: "book_inv bk" and loc: "order_locations bk (ca_order_id req) = Some loc"
    and acct: "ca_account_id req = ol_account_id loc"
  obtains r bk' where "(ol_price loc, r) \<in> set (side_queue (ol_side loc) bk)"
    "ro_order_id r = ca_order_id req"
    "book_cancel_order stale bk req = (bk', [canceled_event stale req (ro_order_type r)])"
    "\<And>s. side_queue s bk' = filter (\<lambda>e. ro_order_id (snd e) \<noteq> ca_order_id req) (side_queue s bk)"
    "order_locations bk' = (order_locations bk)(ca_order_id req := None)"
proof -
  obtain r bk' where r: "(ol_price loc, r) \<in> set (side_queue (ol_side loc) bk)"
      "ro_order_id r = ca_order_id req"
      "book_cancel_order stale bk req = (bk', [canceled_event stale req (ro_order_type r)])"
    and view: "view bk' = (view bk)(ol_side loc :=
        filter (\<lambda>e. ro_order_id (snd e) \<noteq> ca_order_id req) (view bk (ol_side loc)))"
    and locs: "order_locations bk' = (order_locations bk)(ca_order_id req := None)"
    by (rule book_cancel_success [OF inv loc acct, of stale])
  have "side_queue s bk' = filter (\<lambda>e. ro_order_id (snd e) \<noteq> ca_order_id req) (side_queue s bk)" for s
  proof (cases "s = ol_side loc")
    case False
    then have "s = opposite (ol_side loc)" by (cases s; cases "ol_side loc") auto
    then have "\<forall>e \<in> set (side_queue s bk). ro_order_id (snd e) \<noteq> ca_order_id req"
      using book_inv_distinct(2) [OF inv, of "ol_side loc"] r(1,2)
      by (force simp: side_keys_def key_id_def)
    then show ?thesis using False fun_cong [OF view, of s] by simp
  qed (use fun_cong [OF view, of s] in simp)
  then show thesis using that r locs by blast
qed

text \<open>
  C32: the three outcomes of \<open>cancel_order\<close>. An unknown id and a foreign account are rejected
  with the book unchanged; otherwise exactly the named order leaves its queue and the index,
  everything else keeps its place, and one cancel event with the order's type is returned. The
  side and the price of that event are what the freed iterator yields: nothing ties them to
  the order that was canceled.
\<close>

theorem cancel_order_outcomes:
  assumes "book_inv bk"
  shows "case order_locations bk (ca_order_id req) of
      None \<Rightarrow>
        book_cancel_order stale bk req = (bk, cancel_rejected req Buy (Price 0) 0 Unknown_Order_Id)
    | Some loc \<Rightarrow>
        if ca_account_id req \<noteq> ol_account_id loc
        then book_cancel_order stale bk req =
          (bk, cancel_rejected req (ol_side loc) (ol_price loc) (ol_account_id loc) Unauthorized_Order)
        else \<exists>r bk'. (ol_price loc, r) \<in> set (side_queue (ol_side loc) bk) \<and>
          ro_order_id r = ca_order_id req \<and>
          book_cancel_order stale bk req = (bk', [canceled_event stale req (ro_order_type r)]) \<and>
          (\<forall>s. side_queue s bk' =
             filter (\<lambda>e. ro_order_id (snd e) \<noteq> ca_order_id req) (side_queue s bk)) \<and>
          order_locations bk' = (order_locations bk)(ca_order_id req := None)"
proof (cases "order_locations bk (ca_order_id req)")
  case None
  then show ?thesis by (simp add: book_cancel_order_def)
next
  case (Some loc)
  show ?thesis
  proof (cases "ca_account_id req = ol_account_id loc")
    case False
    then show ?thesis using Some by (simp add: book_cancel_order_def)
  next
    case True
    show ?thesis
      by (rule book_cancel_queues [OF assms Some True, of stale]) (use Some True in auto)
  qed
qed

theorem cancel_order_outcomes_witness:
  "\<exists>bk'. book_cancel_order \<lparr>ol_side = Buy, ol_price = Price 0, ol_account_id = 0\<rparr> demo_book
       \<lparr>ca_instrument_id = 1, ca_order_id = 1, ca_account_id = 7\<rparr> =
     (bk', [canceled_event \<lparr>ol_side = Buy, ol_price = Price 0, ol_account_id = 0\<rparr>
              \<lparr>ca_instrument_id = 1, ca_order_id = 1, ca_account_id = 7\<rparr> Limit]) \<and>
     side_queue Sell bk' = [(Price 100, demo_ask 2 5)]"
proof -
  have "order_locations demo_book 1 = Some \<lparr>ol_side = Sell, ol_price = Price 100, ol_account_id = 7\<rparr>"
    by (simp add: demo_book_def)
  then show ?thesis
    using cancel_order_outcomes [OF demo_book_inv,
        of "\<lparr>ol_side = Buy, ol_price = Price 0, ol_account_id = 0\<rparr>"
           "\<lparr>ca_instrument_id = 1, ca_order_id = 1, ca_account_id = 7\<rparr>"]
    by (auto simp: demo_queues demo_ask_def)
qed

end
