(* ===== verification/Order_Book_Interest.thy ===== *)
theory Order_Book_Interest
  imports Order_Book_Correctness
begin

text \<open>
  The order book as a provider of the \<open>matching_book\<close> interface: its open interest, the effect
  of the reference matching on it, and the interpretation of the locale on the book's own
  operations.
\<close>

definition entry_interest :: "side \<Rightarrow> queue_entry \<Rightarrow> order_id \<times> side \<times> account_id \<times> nat" where
  "entry_interest s e =
     (ro_order_id (snd e), s, ro_account_id (snd e), qnat (ro_remaining_quantity (snd e)))"

definition queue_interest :: "side \<Rightarrow> queue_entry list \<Rightarrow> open_interest" where
  "queue_interest s xs = map_of (map (entry_interest s) xs)"

definition queue_ids :: "queue_entry list \<Rightarrow> order_id set" where
  "queue_ids xs = (ro_order_id \<circ> snd) ` set xs"

definition book_interest :: "order_book \<Rightarrow> open_interest" where
  "book_interest bk =
     queue_interest Buy (side_queue Buy bk) ++ queue_interest Sell (side_queue Sell bk)"

lemma queue_interest_Nil [simp]: "queue_interest s [] = Map.empty"
  by (simp add: queue_interest_def)

lemma queue_interest_Cons [simp]:
  "queue_interest s (e # xs) =
     (queue_interest s xs)(ro_order_id (snd e) \<mapsto>
        (s, ro_account_id (snd e), qnat (ro_remaining_quantity (snd e))))"
  by (simp add: queue_interest_def entry_interest_def)

lemma queue_ids_simps [simp]:
  "queue_ids [] = {}"
  "queue_ids (e # xs) = insert (ro_order_id (snd e)) (queue_ids xs)"
  by (simp_all add: queue_ids_def)

lemma dom_queue_interest: "dom (queue_interest s xs) = queue_ids xs"
  by (simp add: queue_interest_def queue_ids_def dom_map_of_conv_image_fst image_image
      entry_interest_def comp_def)

lemma queue_interest_None: "k \<notin> queue_ids xs \<Longrightarrow> queue_interest s xs k = None"
  using dom_queue_interest [of s xs] by (metis domIff)

text \<open>A map that gives every entry of a queue its own interest agrees with the queue's interest.\<close>

definition covers :: "open_interest \<Rightarrow> side \<Rightarrow> queue_entry list \<Rightarrow> bool" where
  "covers V s xs \<longleftrightarrow> (\<forall>k \<in> queue_ids xs. V k = queue_interest s xs k)"

lemma covers_Cons:
  assumes "covers V s (e # xs)" and "ro_order_id (snd e) \<notin> queue_ids xs"
  shows "V (ro_order_id (snd e)) =
      Some (s, ro_account_id (snd e), qnat (ro_remaining_quantity (snd e)))"
    and "covers V s xs"
  using assms by (auto simp: covers_def)

lemma ref_match_ids:
  assumes "ref_match ok n xs = (fs, n', ys)"
  shows "queue_ids ys \<subseteq> queue_ids xs"
proof -
  have "queue_ids zs = key_id ` set (map entry_key zs)" for zs
    by (force simp: queue_ids_def key_id_def)
  moreover have "set (map entry_key ys) \<subseteq> set (map entry_key xs)"
    unfolding ref_match_keys [OF assms] by simp
  ultimately show ?thesis by (simp only: image_mono)
qed

definition left_over :: "side \<Rightarrow> account_id \<Rightarrow> quantity \<Rightarrow> (side \<times> account_id \<times> nat) option" where
  "left_over s a n = (if n = Quantity 0 then None else Some (s, a, qnat n))"

lemma take_from_whole:
  "V k = Some (s, a, m) \<Longrightarrow> m \<le> x \<Longrightarrow> take_from V k x = V(k := None)"
  by (simp add: take_from_def)

lemma take_from_part:
  "V k = Some (s, a, m) \<Longrightarrow> x < m \<Longrightarrow> take_from V k x = V(k \<mapsto> (s, a, m - x))"
  by (simp add: take_from_def)

text \<open>
  The trades of a reference matching are backed, and consuming them leaves the queue's new
  interest, the order's remaining quantity and everything else as it was.
\<close>

text \<open>The two steps of the reference matching: an order filled in part, and one filled whole.\<close>

lemma partial_fill_interest:
  assumes "V oid = Some (s, a, qnat n)" and "0 < qnat n" and "qnat n < qnat (ro_remaining_quantity r)"
    and "V (ro_order_id r) = Some (opposite s, ro_account_id r, qnat (ro_remaining_quantity r))"
    and "covers V (opposite s) xs"
    and "ro_order_id r \<notin> queue_ids xs" and "ro_order_id r \<noteq> oid" and "oid \<notin> queue_ids xs"
  shows "consume V oid (trade_list order xid [(p, r, n)]) =
      (\<lambda>k. if k = oid then left_over s a (Quantity 0)
           else if k \<in> queue_ids ((p, r) # xs)
           then queue_interest (opposite s)
             ((p, r\<lparr>ro_remaining_quantity := ro_remaining_quantity r - n\<rparr>) # xs) k
           else V k) \<and>
    backed V s oid (trade_list order xid [(p, r, n)])"
proof -
  have "take_from (take_from V oid (qnat n)) (ro_order_id r) (qnat n) =
      V(oid := None, ro_order_id r \<mapsto>
        (opposite s, ro_account_id r, qnat (ro_remaining_quantity r) - qnat n))"
    using assms by (simp add: take_from_def)
  moreover have "V k = queue_interest (opposite s) xs k" if "k \<in> queue_ids xs" for k
    using assms(5) that by (simp add: covers_def)
  ultimately show ?thesis
    using assms by (auto simp: make_trade_def qnat_def [symmetric] left_over_def qnat_minus fun_eq_iff)
qed

lemma full_fill_interest:
  fixes V oid s a n r
  defines "m \<equiv> ro_remaining_quantity r"
    and "W \<equiv> V(oid := left_over s a (n - ro_remaining_quantity r), ro_order_id r := None)"
  assumes "V oid = Some (s, a, qnat n)" and "0 < qnat m" and "m \<le> n"
    and "V (ro_order_id r) = Some (opposite s, ro_account_id r, qnat m)"
    and "ro_order_id r \<noteq> oid" and "ro_order_id r \<notin> queue_ids ys"
    and "consume W oid (trade_list order (xid + 1) gs) =
      (\<lambda>k. if k = oid then left_over s a n'
           else if k \<in> queue_ids xs then queue_interest (opposite s) ys k else W k)"
    and "backed W s oid (trade_list order (xid + 1) gs)"
    and "ro_order_id r \<notin> queue_ids xs"
  shows "consume V oid (trade_list order xid ((p, r, m) # gs)) =
      (\<lambda>k. if k = oid then left_over s a n'
           else if k \<in> queue_ids ((p, r) # xs) then queue_interest (opposite s) ys k else V k) \<and>
    backed V s oid (trade_list order xid ((p, r, m) # gs))"
proof
  have W: "take_from (take_from V oid (qnat m)) (ro_order_id r) (qnat m) = W"
    using assms(3-7)
    by (auto simp: W_def m_def take_from_def left_over_def quantity_le_iff quantity_zero_iff qnat_minus
        fun_eq_iff)
  have Wk: "W oid = left_over s a (n - m)" "W (ro_order_id r) = None"
      "k \<noteq> oid \<Longrightarrow> k \<noteq> ro_order_id r \<Longrightarrow> W k = V k" for k
    using assms(7) by (simp_all add: W_def m_def)
  have trade: "te_resting_order_id (make_trade order xid p r m) = ro_order_id r"
      "unat (te_execution_quantity (make_trade order xid p r m)) = qnat m"
      "t_resting_account_id (te_trade (make_trade order xid p r m)) = ro_account_id r"
    by (simp_all add: make_trade_def qnat_def)
  show "consume V oid (trade_list order xid ((p, r, m) # gs)) =
      (\<lambda>k. if k = oid then left_over s a n'
           else if k \<in> queue_ids ((p, r) # xs) then queue_interest (opposite s) ys k else V k)"
    using Wk assms(7,8,11) by (auto simp: trade W assms(9) queue_interest_None fun_eq_iff)
  show "backed V s oid (trade_list order xid ((p, r, m) # gs))"
    using assms(3-7,10) by (simp add: trade W Let_def quantity_le_iff)
qed

lemma ref_match_interest:
  assumes "ref_match ok n xs = (fs, n', ys)"
    and "distinct (map (ro_order_id \<circ> snd) xs)" and "oid \<notin> queue_ids xs"
    and "\<forall>(p, r) \<in> set xs. ro_remaining_quantity r > Quantity 0"
    and "V oid = left_over s a n" and "covers V (opposite s) xs"
  shows "consume V oid (trade_list order xid fs) =
      (\<lambda>k. if k = oid then left_over s a n'
           else if k \<in> queue_ids xs then queue_interest (opposite s) ys k else V k) \<and>
    backed V s oid (trade_list order xid fs)"
  using assms
proof (induction ok n xs arbitrary: fs n' ys V xid rule: ref_match.induct)
  case (1 ok n)
  then show ?case by auto
next
  case (2 ok n p r xs)
  let ?rid = "ro_order_id r" and ?m = "ro_remaining_quantity r"
  have new: "?rid \<notin> queue_ids xs" "?rid \<noteq> oid" "oid \<notin> queue_ids xs"
    using "2.prems"(2,3) by (auto simp: queue_ids_def)
  have V: "V ?rid = Some (opposite s, ro_account_id r, qnat ?m)" "covers V (opposite s) xs"
    using covers_Cons [OF "2.prems"(6)] new by auto
  have m: "0 < qnat ?m" using "2.prems"(4) by (auto simp: quantity_simps)
  show ?case
  proof (cases "n = Quantity 0 \<or> \<not> ok p")
    case True
    then show ?thesis using "2.prems"(1,5,6) by (auto simp: covers_def)
  next
    case go: False
    then have n: "V oid = Some (s, a, qnat n)" "0 < qnat n"
      using "2.prems"(5) by (auto simp: left_over_def quantity_simps)
    show ?thesis
    proof (cases "?m \<le> n")
      case True
      obtain gs where gs: "ref_match ok (n - ?m) xs = (gs, n', ys)" "fs = (p, r, ?m) # gs"
        using True go "2.prems"(1) by (auto split: prod.splits)
      let ?W = "V(oid := left_over s a (n - ?m), ?rid := None)"
      have cov: "covers ?W (opposite s) xs" using V(2) new by (auto simp: covers_def)
      have "consume ?W oid (trade_list order (xid + 1) gs) =
          (\<lambda>k. if k = oid then left_over s a n'
               else if k \<in> queue_ids xs then queue_interest (opposite s) ys k else ?W k) \<and>
          backed ?W s oid (trade_list order (xid + 1) gs)"
        by (rule "2.IH" [OF _ _ gs(1) _ new(3) _ _ cov]) (use go True "2.prems"(2,4) new in auto)
      moreover have "?rid \<notin> queue_ids ys" using ref_match_ids [OF gs(1)] new(1) by blast
      ultimately show ?thesis
        unfolding gs(2) using n(1) m True V(1) new
        by (intro full_fill_interest) blast+
    next
      case False
      have res: "fs = [(p, r, n)]" "n' = Quantity 0"
          "ys = (p, r\<lparr>ro_remaining_quantity := ?m - n\<rparr>) # xs"
        using False go "2.prems"(1) by auto
      have "qnat n < qnat ?m" using False by (simp add: quantity_le_iff)
      then show ?thesis
        unfolding res by (rule partial_fill_interest [OF n _ V new])
    qed
  qed
qed

section \<open>The book's interest through its view\<close>

definition view_interest :: "book_view \<Rightarrow> open_interest" where
  "view_interest v = queue_interest Buy (v Buy) ++ queue_interest Sell (v Sell)"

lemma book_interest_view: "book_interest bk = view_interest (view bk)"
  by (simp add: book_interest_def view_interest_def view_def)

definition sides_disjoint :: "book_view \<Rightarrow> bool" where
  "sides_disjoint v \<longleftrightarrow> queue_ids (v Buy) \<inter> queue_ids (v Sell) = {}"

lemma view_interest_side:
  assumes "sides_disjoint v"
  shows "view_interest v k =
    (if k \<in> queue_ids (v s) then queue_interest s (v s) k
     else queue_interest (opposite s) (v (opposite s)) k)"
  using assms dom_queue_interest [of Buy "v Buy"] dom_queue_interest [of Sell "v Sell"]
  by (cases s) (auto simp: view_interest_def sides_disjoint_def map_add_def queue_interest_None
      split: option.splits)

lemma queue_ids_keys: "queue_ids (side_queue s bk) = key_id ` set (side_keys s bk)"
  by (force simp: queue_ids_def side_keys_def key_id_def)

lemma book_inv_disjoint: "book_inv bk \<Longrightarrow> sides_disjoint (view bk)"
  using book_inv_distinct(2) [of bk Buy] by (simp add: sides_disjoint_def view_def queue_ids_keys)

lemma book_interest_None:
  assumes "book_inv bk"
  shows "book_interest bk oid = None \<longleftrightarrow> order_locations bk oid = None"
proof -
  have "dom (book_interest bk) = (\<Union>s. queue_ids (side_queue s bk))"
    by (simp add: UNIV_side book_interest_def dom_queue_interest Un_commute)
  then show ?thesis
    using book_inv_contains [OF assms, of oid] by (auto simp: queue_ids_keys domIff)
qed

text \<open>The index and the interest name the same side and account for an open order.\<close>

lemma queue_interest_member:
  assumes "distinct (map (ro_order_id \<circ> snd) xs)" and "(p, r) \<in> set xs"
  shows "queue_interest s xs (ro_order_id r) =
    Some (s, ro_account_id r, qnat (ro_remaining_quantity r))"
  using assms by (induction xs) (force simp: image_iff)+

lemma book_interest_entry:
  assumes inv: "book_inv bk" and r: "(p, r) \<in> set (side_queue s bk)"
  shows "book_interest bk (ro_order_id r) = Some (s, ro_account_id r, qnat (ro_remaining_quantity r))"
    and "order_locations bk (ro_order_id r) = Some \<lparr>ol_side = s, ol_price = p, ol_account_id = ro_account_id r\<rparr>"
proof -
  have "ro_order_id r \<in> queue_ids (view bk s)"
    using r by (force simp: queue_ids_def view_def)
  then show "book_interest bk (ro_order_id r) = Some (s, ro_account_id r, qnat (ro_remaining_quantity r))"
    using view_interest_side [OF book_inv_disjoint [OF inv], of _ s]
      queue_interest_member [OF side_queue_distinct [OF inv] r]
    by (simp add: book_interest_view view_def)
  show "order_locations bk (ro_order_id r) = Some \<lparr>ol_side = s, ol_price = p, ol_account_id = ro_account_id r\<rparr>"
    using r by (force simp: book_inv_location [OF inv] side_keys_def)
qed

lemma book_interest_location:
  assumes inv: "book_inv bk" and loc: "order_locations bk oid = Some loc"
  shows "\<exists>n. book_interest bk oid = Some (ol_side loc, ol_account_id loc, n)"
  using located_entry [OF inv loc] book_interest_entry(1) [OF inv] by metis

lemma book_interest_SomeE:
  assumes inv: "book_inv bk" and v: "book_interest bk oid = Some (s, a, n)"
  obtains p r where "(p, r) \<in> set (side_queue s bk)" "ro_order_id r = oid" "ro_account_id r = a"
    "qnat (ro_remaining_quantity r) = n"
proof -
  obtain loc where loc: "order_locations bk oid = Some loc"
    using v book_interest_None [OF inv, of oid] by auto
  obtain r where "ro_order_id r = oid" "(ol_price loc, r) \<in> set (side_queue (ol_side loc) bk)"
    using located_entry [OF inv loc] by metis
  then show thesis using that book_interest_entry(1) [OF inv] v by fastforce
qed

lemma queue_interest_insert:
  assumes "ro_order_id (snd e) \<notin> queue_ids xs"
  shows "queue_interest s (insert_by_priority s' e xs) = (queue_interest s xs)(ro_order_id (snd e) \<mapsto>
     (s, ro_account_id (snd e), qnat (ro_remaining_quantity (snd e))))"
proof -
  let ?P = "\<lambda>e'. \<not> level_lt s' (fst e) (fst e')"
  have split: "queue_interest s (as @ bs) = queue_interest s bs ++ queue_interest s as" for as bs
    by (simp add: queue_interest_def)
  have "queue_ids (takeWhile ?P xs) \<subseteq> queue_ids xs"
    by (auto simp: queue_ids_def dest: set_takeWhileD)
  then have "queue_interest s (takeWhile ?P xs) (ro_order_id (snd e)) = None"
    using assms queue_interest_None by blast
  then show ?thesis
    using split [of "takeWhile ?P xs" "dropWhile ?P xs"]
    by (auto simp: insert_by_priority_def split fun_eq_iff map_add_def split: option.splits)
qed

text \<open>
  An executed order: the interest after \<open>place_order\<close> is the interest before, with the whole
  incoming order added, consumed by the trades; an immediate order's rest is dropped.
\<close>

text \<open>The view after matching, and after the rest of the order has come to rest.\<close>

lemma view_interest_matched:
  assumes "sides_disjoint v" and "queue_ids ys \<subseteq> queue_ids (v (opposite s))"
  shows "view_interest (v(opposite s := ys)) k =
    (if k \<in> queue_ids (v (opposite s)) then queue_interest (opposite s) ys k
     else queue_interest s (v s) k)"
proof -
  have oo: "opposite (opposite s) = s" by (cases s) auto
  have "sides_disjoint (v(opposite s := ys))"
    using assms by (cases s) (auto simp: sides_disjoint_def)
  moreover have "queue_interest s (v s) k = None" if "k \<in> queue_ids (v (opposite s))"
    using assms(1) that by (cases s) (auto simp: sides_disjoint_def intro: queue_interest_None)
  ultimately show ?thesis
    using view_interest_side [of "v(opposite s := ys)" k "opposite s"] assms(2)
    by (auto simp: oo queue_interest_None)
qed

lemma view_interest_rested:
  fixes e :: queue_entry
  defines "oid \<equiv> ro_order_id (snd e)"
  assumes "oid \<notin> queue_ids (v s)" and "oid \<notin> queue_ids (v (opposite s))"
  shows "view_interest (v(s := insert_by_priority s e (v s))) = (view_interest v)
    (oid \<mapsto> (s, ro_account_id (snd e), qnat (ro_remaining_quantity (snd e))))"
proof -
  let ?v = "v(s := insert_by_priority s e (v s))"
  have "queue_interest s (?v s) = (queue_interest s (v s))
      (oid \<mapsto> (s, ro_account_id (snd e), qnat (ro_remaining_quantity (snd e))))"
      "?v (opposite s) = v (opposite s)" "queue_interest (opposite s) (v (opposite s)) oid = None"
    using assms queue_interest_insert [of e "v s" s s] by (auto simp: queue_interest_None)
  then show ?thesis
    by (cases s) (auto simp: view_interest_def fun_eq_iff map_add_def split: option.splits)
qed

lemma executed_consume:
  assumes inv: "book_inv bk" and pos: "o_quantity order > Quantity 0"
    and match: "spec_match (view bk) order = (fs, n, ys)" and fresh: "o_order_id order \<notin> view_ids (view bk)"
  defines "ts \<equiv> trade_list order (next_execution_id bk) fs"
    and "V \<equiv> (book_interest bk)(o_order_id order \<mapsto>
               (o_side order, o_account_id order, qnat (o_quantity order)))"
  shows "consume V (o_order_id order) ts =
      (view_interest ((view bk)(opposite (o_side order) := ys)))
        (o_order_id order := left_over (o_side order) (o_account_id order) n)"
    and "backed V (o_side order) (o_order_id order) ts"
    and "queue_ids ys \<subseteq> queue_ids (view bk (opposite (o_side order)))"
proof -
  let ?s = "o_side order" and ?oid = "o_order_id order" and ?o = "opposite (o_side order)"
  have ref: "ref_match (\<lambda>p. \<not> stops_at order p) (o_quantity order) (view bk ?o) = (fs, n, ys)"
    using match by (simp add: spec_match_def)
  have new: "?oid \<notin> queue_ids (view bk s)" for s
    using fresh by (auto simp: view_ids_def queue_ids_def)
  note disj = book_inv_disjoint [OF inv]
  have oo: "opposite ?o = ?s" by (cases ?s) auto
  have V: "V k = (if k = ?oid then left_over ?s (o_account_id order) (o_quantity order)
      else if k \<in> queue_ids (view bk ?o) then queue_interest ?o (view bk ?o) k
      else queue_interest ?s (view bk ?s) k)" for k
    using pos view_interest_side [OF disj, of k ?o]
    by (simp add: V_def book_interest_view left_over_def quantity_simps oo)
  have cov: "covers V ?o (view bk ?o)"
    unfolding covers_def using V new [of ?o] by auto
  have dist: "distinct (map (ro_order_id \<circ> snd) (view bk ?o))"
    using side_queue_distinct [OF inv] by (simp add: view_def)
  have posq: "\<forall>(p, r) \<in> set (view bk ?o). ro_remaining_quantity r > Quantity 0"
    using book_inv_levels [OF inv, of ?o]
    by (fastforce simp: view_def side_queue_def set_queue_of levels_ok_def)
  have main: "consume V ?oid ts =
      (\<lambda>k. if k = ?oid then left_over ?s (o_account_id order) n
           else if k \<in> queue_ids (view bk ?o) then queue_interest ?o ys k else V k)"
      "backed V ?s ?oid ts"
    using ref_match_interest [OF ref dist new posq _ cov,
        where a = "o_account_id order" and xid = "next_execution_id bk"] V
    by (auto simp: ts_def)
  show ids: "queue_ids ys \<subseteq> queue_ids (view bk ?o)" by (rule ref_match_ids [OF ref])
  show "backed V ?s ?oid ts" by (rule main(2))
  show "consume V ?oid ts =
      (view_interest ((view bk)(?o := ys)))(?oid := left_over ?s (o_account_id order) n)"
    unfolding main(1) using V new by (auto simp: view_interest_matched [OF disj ids] fun_eq_iff)
qed

lemma book_place_interest:
  assumes inv: "book_inv bk" and pos: "o_quantity order > Quantity 0"
    and place: "spec_place (view bk) order = (v, Executed fs)"
  defines "ts \<equiv> trade_list order (next_execution_id bk) fs"
    and "V \<equiv> (book_interest bk)(o_order_id order \<mapsto>
               (o_side order, o_account_id order, qnat (o_quantity order)))"
  shows "backed V (o_side order) (o_order_id order) ts"
    and "book_interest (fst (book_place_order bk order)) =
      (if is_immediate (o_order_type order)
       then (consume V (o_order_id order) ts)(o_order_id order := None)
       else consume V (o_order_id order) ts)"
proof -
  let ?s = "o_side order" and ?oid = "o_order_id order" and ?o = "opposite (o_side order)"
  obtain n ys where match: "spec_match (view bk) order = (fs, n, ys)"
    and fresh: "?oid \<notin> view_ids (view bk)"
    and v: "v = (if is_immediate (o_order_type order) \<or> n = Quantity 0
       then (view bk)(?o := ys)
       else (view bk)(?o := ys, ?s := insert_by_priority ?s (resting_entry order n) (view bk ?s)))"
    using place by (elim spec_place_executed_fills) blast
  note consume = executed_consume [OF inv pos match fresh, folded ts_def V_def]
  show "backed V ?s ?oid ts" by (rule consume(2))
  let ?w = "(view bk)(?o := ys)"
  have "?s \<noteq> ?o" by (cases ?s) simp_all
  have new: "?oid \<notin> queue_ids (view bk s)" for s
    using fresh by (auto simp: view_ids_def queue_ids_def)
  then have free: "?oid \<notin> queue_ids (?w ?s)" "?oid \<notin> queue_ids (?w ?o)"
    using consume(3) \<open>?s \<noteq> ?o\<close> by auto
  then have none: "view_interest ?w ?oid = None"
    by (cases ?s) (auto simp: view_interest_def map_add_def queue_interest_None)
  have after: "book_interest (fst (book_place_order bk order)) = view_interest v"
    using book_place_refines [OF inv pos] place by (simp add: book_interest_view)
  show "book_interest (fst (book_place_order bk order)) =
      (if is_immediate (o_order_type order) then (consume V ?oid ts)(?oid := None)
       else consume V ?oid ts)"
  proof (cases "is_immediate (o_order_type order) \<or> n = Quantity 0")
    case True
    then have w: "v = ?w" using v by simp
    show ?thesis
      unfolding after consume(1) w using True none by (auto simp: left_over_def fun_eq_iff)
  next
    case False
    let ?e = "resting_entry order n"
    have e: "ro_order_id (snd ?e) = ?oid" "ro_account_id (snd ?e) = o_account_id order"
        "qnat (ro_remaining_quantity (snd ?e)) = qnat n"
      by (simp_all add: resting_entry_def)
    have "v = ?w(?s := insert_by_priority ?s ?e (?w ?s))"
      using v False \<open>?s \<noteq> ?o\<close> by (simp add: fun_upd_twist)
    then have "view_interest v = (view_interest ?w)(?oid \<mapsto> (?s, o_account_id order, qnat n))"
      using view_interest_rested [of ?e ?w ?s] free by (simp only: e not_False_eq_True)
    then show ?thesis
      unfolding after consume(1) using False by (simp add: left_over_def)
  qed
qed

lemma book_cancel_interest:
  assumes inv: "book_inv bk" and loc: "order_locations bk (ca_order_id req) = Some loc"
    and acct: "ca_account_id req = ol_account_id loc"
  shows "\<exists>bk' ty. book_cancel_order stale bk req = (bk', [canceled_event stale req ty]) \<and>
    book_interest bk' = (book_interest bk)(ca_order_id req := None)"
proof -
  let ?oid = "ca_order_id req" and ?s = "ol_side loc"
  obtain r bk' where r: "(ol_price loc, r) \<in> set (side_queue ?s bk)" "ro_order_id r = ?oid"
      "book_cancel_order stale bk req = (bk', [canceled_event stale req (ro_order_type r)])"
    and view: "view bk' = (view bk)(?s := filter (\<lambda>e. ro_order_id (snd e) \<noteq> ?oid) (view bk ?s))"
    by (rule book_cancel_success [OF inv loc acct, of stale])
  have "queue_interest s (filter (\<lambda>e. ro_order_id (snd e) \<noteq> ?oid) xs) =
      (queue_interest s xs)(?oid := None)" for s xs
    by (induction xs) (auto simp: fun_eq_iff)
  moreover have "?oid \<in> queue_ids (view bk ?s)"
    using r(1,2) by (force simp: queue_ids_def view_def)
  then have "queue_interest (opposite ?s) (view bk (opposite ?s)) ?oid = None"
    using book_inv_disjoint [OF inv]
    by (cases ?s) (auto simp: sides_disjoint_def intro!: queue_interest_None)
  ultimately have "book_interest bk' = (book_interest bk)(?oid := None)"
    by (cases ?s) (auto simp: book_interest_view view_interest_def view map_add_def fun_eq_iff
        split: option.splits)
  then show ?thesis using r(3) by blast
qed

section \<open>The interpretation\<close>

lemma trades_for_trade_list: "trades_for order (trade_list order xid fs)"
  by (induction order xid fs rule: trade_list.induct) (auto simp: trades_for_def make_trade_def)

lemma book_place_duplicate:
  "book_inv bk \<Longrightarrow> book_interest bk (o_order_id order) \<noteq> None \<Longrightarrow>
    \<exists>rj. book_place_order bk order = (bk, [Order_Rejected rj])"
  by (auto simp: book_interest_None book_place_order_def book_reject_def)

lemma book_place_contract:
  assumes inv: "book_inv bk" and pos: "o_quantity order > Quantity 0"
  shows "(\<exists>rj. book_place_order bk order = (bk, [Order_Rejected rj])) \<or>
    (\<exists>b' ac ts. book_place_order bk order = (b', Order_Accepted ac # map Trade_Executed ts) \<and>
       trades_for order ts \<and>
       (let V = (book_interest bk)(o_order_id order \<mapsto>
              (o_side order, o_account_id order, qnat (o_quantity order)))
        in backed V (o_side order) (o_order_id order) ts \<and>
           book_interest b' =
             (if is_immediate (o_order_type order)
              then (consume V (o_order_id order) ts)(o_order_id order := None)
              else consume V (o_order_id order) ts)))"
proof (cases "snd (spec_place (view bk) order)")
  case (Refused reason)
  then show ?thesis
    using book_place_order_refused [OF inv pos, of _ reason]
    by (cases "spec_place (view bk) order") (auto simp: book_reject_def)
next
  case (Executed fs)
  then obtain v where place: "spec_place (view bk) order = (v, Executed fs)"
    by (cases "spec_place (view bk) order") auto
  then have "book_place_order bk order = (fst (book_place_order bk order),
      accepted_event order # map Trade_Executed (trade_list order (next_execution_id bk) fs))"
    using book_place_refines [OF inv pos] by (metis outcome_events.simps(2) prod.collapse snd_conv)
  then show ?thesis
    using book_place_interest [OF inv pos place] trades_for_trade_list
    unfolding accepted_event_def Let_def by blast
qed

lemma book_cancel_contract:
  assumes inv: "book_inv bk"
  shows "(\<exists>rj. book_cancel_order stale bk req = (bk, [Order_Rejected rj])) \<or>
    (\<exists>b' cn. book_cancel_order stale bk req = (b', [Order_Canceled cn]) \<and>
       cn_instrument_id cn = ca_instrument_id req \<and> cn_order_id cn = ca_order_id req \<and>
       book_interest b' = (book_interest bk)(ca_order_id req := None))"
proof (cases "order_locations bk (ca_order_id req)")
  case (Some loc)
  then show ?thesis
    using book_cancel_interest [OF inv Some, of stale]
    by (cases "ca_account_id req = ol_account_id loc")
      (auto simp: canceled_event_def book_cancel_order_def cancel_rejected_def)
qed (simp add: book_cancel_order_def cancel_rejected_def)

interpretation order_book: matching_book book_inv book_interest book_place_order
  "book_cancel_order stale" for stale
  by unfold_locales
    (erule (1) book_place_inv book_place_duplicate book_place_contract
     | erule book_cancel_inv book_cancel_contract)+

end
