(* ===== verification/Order_Book_Runs.thy ===== *)
theory Order_Book_Runs
  imports Order_Book_Properties Order_Book_Interest
begin

text \<open>
  A book over a whole run of orders and cancels: execution ids never repeat, and an order at rest
  is served. The measure of the second is the quantity that has to trade before the order is
  filled, its own included; orders behind it never add to that measure.
\<close>

section \<open>Runs\<close>

datatype book_command = Do_Place order_t | Do_Cancel order_location cancel_order

fun run_command :: "order_book \<Rightarrow> book_command \<Rightarrow> order_book \<times> event_batch" where
  "run_command bk (Do_Place order) = book_place_order bk order"
| "run_command bk (Do_Cancel stale req) = book_cancel_order stale bk req"

fun run_book :: "order_book \<Rightarrow> book_command list \<Rightarrow> order_book \<times> event_batch list" where
  "run_book bk [] = (bk, [])"
| "run_book bk (c # cs) =
     (case run_command bk c of (bk1, events) \<Rightarrow>
        case run_book bk1 cs of (bk2, batches) \<Rightarrow> (bk2, events # batches))"

text \<open>The engine hands orders of a positive quantity to a book.\<close>

fun positive_command :: "book_command \<Rightarrow> bool" where
  "positive_command (Do_Place order) \<longleftrightarrow> Quantity 0 < o_quantity order"
| "positive_command (Do_Cancel stale req) \<longleftrightarrow> True"

lemma run_command_inv: "book_inv bk \<Longrightarrow> positive_command c \<Longrightarrow> book_inv (fst (run_command bk c))"
  by (cases c) (simp_all add: book_place_inv book_cancel_inv)

lemma run_book_Cons:
  "fst (run_book bk (c # cs)) = fst (run_book (fst (run_command bk c)) cs)"
  "snd (run_book bk (c # cs)) = snd (run_command bk c) # snd (run_book (fst (run_command bk c)) cs)"
  by (simp_all split: prod.split)

lemma cancel_batch:
  assumes "book_inv bk"
  shows "trades_of (snd (book_cancel_order stale bk req)) = []"
    and "next_execution_id (fst (book_cancel_order stale bk req)) = next_execution_id bk"
proof -
  have "trades_of (snd (book_cancel_order stale bk req)) = [] \<and>
      next_execution_id (fst (book_cancel_order stale bk req)) = next_execution_id bk"
    by (auto simp: book_cancel_order_def cancel_rejected_def remove_order_from_level_def Let_def
        split: option.split)
  then show "trades_of (snd (book_cancel_order stale bk req)) = []"
    and "next_execution_id (fst (book_cancel_order stale bk req)) = next_execution_id bk"
    by blast+
qed

section \<open>Execution ids\<close>

lemma run_execution_ids:
  assumes "book_inv bk" and "\<forall>c \<in> set cs. positive_command c"
  defines "ts \<equiv> trades_of (concat (snd (run_book bk cs)))"
  shows "map (t_execution_id \<circ> te_trade) ts = map (\<lambda>k. next_execution_id bk + of_nat k) [0..<length ts]"
  using assms(1,2) unfolding ts_def
proof (induction cs arbitrary: bk)
  case (Cons c cs)
  let ?bk = "fst (run_command bk c)" and ?ts = "trades_of (snd (run_command bk c))"
  have step: "map (t_execution_id \<circ> te_trade) ?ts = map (\<lambda>k. next_execution_id bk + of_nat k) [0..<length ?ts] \<and>
      next_execution_id ?bk = next_execution_id bk + of_nat (length ?ts)"
  proof (cases c)
    case (Do_Place order)
    then have "o_quantity order > Quantity 0" using Cons.prems(2) by simp
    then show ?thesis
      using Do_Place execution_ids_consecutive [OF Cons.prems(1)] by simp
  qed (simp add: cancel_batch [OF Cons.prems(1)])
  have "book_inv ?bk" using run_command_inv Cons.prems by simp
  from Cons.IH [OF this] Cons.prems(2) step show ?case
    by (simp add: run_book_Cons map_upt_add add.assoc comp_def del: run_book.simps upt_Suc)
qed simp

text \<open>
  C31: execution ids never repeat. Over any sequence of orders and cancels that a new book
  receives, the trades are numbered 1, 2, 3, and so on in the order they happen, across all
  batches; with fewer than \<open>2 ^ 64\<close> trades no number is used twice.
\<close>

theorem execution_ids_never_repeat:
  assumes "\<forall>c \<in> set cs. positive_command c"
  defines "ts \<equiv> trades_of (concat (snd (run_book empty_book cs)))"
  shows "map (t_execution_id \<circ> te_trade) ts = map (\<lambda>k. of_nat (Suc k)) [0..<length ts] \<and>
    (length ts < 2 ^ 64 \<longrightarrow> distinct (map (t_execution_id \<circ> te_trade) ts))"
proof -
  have ids: "map (t_execution_id \<circ> te_trade) ts = map (\<lambda>k. of_nat (Suc k)) [0..<length ts]"
    using run_execution_ids [OF book_inv_empty assms(1)] by (simp add: ts_def empty_book_def)
  have "inj_on (\<lambda>k. of_nat (Suc k) :: u64) {0..<length ts}" if "length ts < 2 ^ 64"
  proof (rule inj_onI)
    fix x y assume "x \<in> {0..<length ts}" "y \<in> {0..<length ts}" "(of_nat (Suc x) :: u64) = of_nat (Suc y)"
    then have "unat (of_nat (Suc x) :: u64) = unat (of_nat (Suc y) :: u64)" "Suc x < 2 ^ 64" "Suc y < 2 ^ 64"
      using that by simp_all
    then show "x = y" by (simp only: unat_of_nat) simp
  qed
  then show ?thesis unfolding ids by (simp add: distinct_map del: of_nat_Suc)
qed

text \<open>Two asks at 100, and a bid that takes the first and a part of the second.\<close>

definition demo_commands :: "book_command list" where
  "demo_commands =
     [Do_Place (demo_order 1 Sell 100 5 Limit 7), Do_Place (demo_order 2 Sell 100 5 Limit 7),
      Do_Place (demo_order 3 Buy 101 7 Limit 9)]"

theorem execution_ids_never_repeat_witness:
  "map (t_execution_id \<circ> te_trade) (trades_of (concat (snd (run_book empty_book demo_commands)))) = [1, 2]"
proof -
  have "length (trades_of (concat (snd (run_book empty_book demo_commands)))) = 2"
    by (simp add: demo_commands_def book_eval)
  moreover have "\<forall>c \<in> set demo_commands. positive_command c"
    by (simp add: demo_commands_def demo_order_positive)
  ultimately show ?thesis
    using execution_ids_never_repeat [of demo_commands] by (simp add: upt_rec)
qed

section \<open>Waiting for execution\<close>

text \<open>What has to trade on a queue until one order is filled, the order included.\<close>

fun up_to :: "order_id \<Rightarrow> queue_entry list \<Rightarrow> nat" where
  "up_to oid [] = 0"
| "up_to oid (e # xs) =
     qnat (ro_remaining_quantity (snd e)) + (if ro_order_id (snd e) = oid then 0 else up_to oid xs)"

lemma up_to_append:
  "up_to oid (xs @ ys) = (if oid \<in> queue_ids xs then up_to oid xs else up_to oid xs + up_to oid ys)"
  by (induction xs) auto

lemma up_to_filter: "oid \<noteq> k \<Longrightarrow> up_to oid (filter (\<lambda>e. ro_order_id (snd e) \<noteq> k) xs) \<le> up_to oid xs"
  by (induction xs) auto

text \<open>Matching never moves an order back, and an incoming order that reaches it moves it forward.\<close>

lemma up_to_match:
  assumes "ref_match ok n xs = (fs, n', ys)" and "oid \<in> queue_ids ys" and "distinct (map (ro_order_id \<circ> snd) xs)"
  shows "up_to oid ys \<le> up_to oid xs"
    and "\<forall>e \<in> set (takeWhile (\<lambda>e. ro_order_id (snd e) \<noteq> oid) xs). ok (fst e) \<Longrightarrow>
      \<forall>e \<in> set xs. ro_order_id (snd e) = oid \<longrightarrow> ok (fst e) \<Longrightarrow> up_to oid ys + qnat n \<le> up_to oid xs"
proof -
  have "up_to oid ys \<le> up_to oid xs \<and>
    ((\<forall>e \<in> set (takeWhile (\<lambda>e. ro_order_id (snd e) \<noteq> oid) xs). ok (fst e)) \<longrightarrow>
     (\<forall>e \<in> set xs. ro_order_id (snd e) = oid \<longrightarrow> ok (fst e)) \<longrightarrow> up_to oid ys + qnat n \<le> up_to oid xs)"
    using assms
  proof (induction ok n xs arbitrary: fs n' ys rule: ref_match.induct)
    case (2 ok n p r xs)
    let ?m = "ro_remaining_quantity r"
    consider "n = Quantity 0" | "n \<noteq> Quantity 0" "\<not> ok p" | "n \<noteq> Quantity 0" "ok p" "?m \<le> n" | "n \<noteq> Quantity 0" "ok p" "\<not> ?m \<le> n"
      by blast
    then show ?case
    proof cases
      case 1
      then show ?thesis using "2.prems"(1) by (auto simp: qnat_def)
    next
      case 2
      then have "ys = (p, r) # xs" using "2.prems"(1) by simp
      moreover have "ro_order_id r = oid \<or> (p, r) \<in> set (takeWhile (\<lambda>e. ro_order_id (snd e) \<noteq> oid) ((p, r) # xs))"
        by simp
      ultimately show ?thesis using 2(2) by fastforce
    next
      case 3
      then obtain gs where gs: "ref_match ok (n - ?m) xs = (gs, n', ys)"
        using "2.prems"(1) by (auto split: prod.splits)
      have "oid \<in> queue_ids xs" using ref_match_ids [OF gs] "2.prems"(2) by blast
      then have "ro_order_id r \<noteq> oid" using "2.prems"(3) by (auto simp: queue_ids_def)
      then show ?thesis
        using "2.IH" [OF _ _ gs "2.prems"(2)] 3 "2.prems"(3) by (auto simp: qnat_minus quantity_le_iff)
    next
      case 4
      then have "ys = (p, r\<lparr>ro_remaining_quantity := ?m - n\<rparr>) # xs" "n \<le> ?m"
        using "2.prems"(1) by (auto split: if_splits)
      then show ?thesis by (auto simp: qnat_minus quantity_le_iff)
    qed
  qed simp
  then show "up_to oid ys \<le> up_to oid xs"
    and "\<forall>e \<in> set (takeWhile (\<lambda>e. ro_order_id (snd e) \<noteq> oid) xs). ok (fst e) \<Longrightarrow>
      \<forall>e \<in> set xs. ro_order_id (snd e) = oid \<longrightarrow> ok (fst e) \<Longrightarrow> up_to oid ys + qnat n \<le> up_to oid xs"
    by blast+
qed

text \<open>An order of the own side that is not at a better price queues up behind.\<close>

lemma sorted_wrt_halves:
  "sorted_wrt R xs \<Longrightarrow> x \<in> set (takeWhile P xs) \<Longrightarrow> y \<in> set (dropWhile P xs) \<Longrightarrow> R x y"
  using sorted_wrt_append [of R "takeWhile P xs" "dropWhile P xs"] by simp

lemma set_takeWhile_dropWhile: "x \<in> set xs \<longleftrightarrow> x \<in> set (takeWhile P xs) \<or> x \<in> set (dropWhile P xs)"
  using set_append [of "takeWhile P xs" "dropWhile P xs"] by simp

lemma level_lt_trans_not: "level_lt s p q \<Longrightarrow> \<not> level_lt s r q \<Longrightarrow> level_lt s p r"
  by (cases s) auto

lemma up_to_insert:
  assumes sorted: "sorted_wrt (\<lambda>e e'. \<not> level_lt s (fst e') (fst e)) xs"
    and r: "(p, r) \<in> set xs" "ro_order_id r = oid" and worse: "\<not> level_lt s (fst e) p"
  shows "up_to oid (insert_by_priority s e xs) = up_to oid xs"
proof -
  let ?P = "\<lambda>e'. \<not> level_lt s (fst e) (fst e')"
  have "(p, r) \<notin> set (dropWhile ?P xs)"
  proof
    assume in_drop: "(p, r) \<in> set (dropWhile ?P xs)"
    then obtain h t where ht: "dropWhile ?P xs = h # t" by (cases "dropWhile ?P xs") auto
    have "sorted_wrt (\<lambda>e e'. \<not> level_lt s (fst e') (fst e)) (dropWhile ?P xs)"
      by (rule sorted_wrt_dropWhile [OF sorted])
    then have "(p, r) = h \<or> \<not> level_lt s p (fst h)" using in_drop unfolding ht by auto
    moreover have "level_lt s (fst e) (fst h)" using hd_dropWhile [of ?P xs] ht by auto
    ultimately show False using worse level_lt_trans_not by (metis fst_conv)
  qed
  then have "(p, r) \<in> set (takeWhile ?P xs)"
    using r(1) set_takeWhile_dropWhile [of "(p, r)" xs ?P] by blast
  then have "oid \<in> queue_ids (takeWhile ?P xs)" using r(2) by (force simp: queue_ids_def)
  then show ?thesis
    using up_to_append [of oid "takeWhile ?P xs" "dropWhile ?P xs"]
    by (simp add: insert_by_priority_def up_to_append)
qed

section \<open>Orders at rest are served\<close>

text \<open>
  What a command does for an order at price \<open>p\<close> on side \<open>s\<close>: the quantity of an accepted order of
  the other side whose limit reaches \<open>p\<close>, and whether it puts an order ahead of it.
\<close>

fun is_accepted :: "event_batch \<Rightarrow> bool" where
  "is_accepted (Order_Accepted a # evs) \<longleftrightarrow> True"
| "is_accepted _ \<longleftrightarrow> False"

fun serves :: "side \<Rightarrow> price \<Rightarrow> order_book \<Rightarrow> book_command \<Rightarrow> nat" where
  "serves s p bk (Do_Place order) =
     (if o_side order = opposite s \<and> \<not> stops_at order p \<and> is_accepted (snd (book_place_order bk order))
      then qnat (o_quantity order) else 0)"
| "serves s p bk (Do_Cancel stale req) = 0"

fun overtakes :: "side \<Rightarrow> price \<Rightarrow> book_command \<Rightarrow> bool" where
  "overtakes s p (Do_Place order) \<longleftrightarrow>
     o_side order = s \<and> \<not> is_immediate (o_order_type order) \<and> level_lt s (o_price order) p"
| "overtakes s p (Do_Cancel stale req) \<longleftrightarrow> False"

fun cancels :: "order_id \<Rightarrow> book_command \<Rightarrow> bool" where
  "cancels oid (Do_Cancel stale req) \<longleftrightarrow> ca_order_id req = oid"
| "cancels oid (Do_Place order) \<longleftrightarrow> False"

text \<open>The accepted quantity of a run that reaches the price, and what trades against the order.\<close>

fun served :: "side \<Rightarrow> price \<Rightarrow> order_book \<Rightarrow> book_command list \<Rightarrow> nat" where
  "served s p bk [] = 0"
| "served s p bk (c # cs) = serves s p bk c + served s p (fst (run_command bk c)) cs"

definition traded_with :: "order_id \<Rightarrow> event_batch \<Rightarrow> nat" where
  "traded_with oid evs =
     (\<Sum>t\<leftarrow>trades_of evs. if te_resting_order_id t = oid then unat (te_execution_quantity t) else 0)"

lemma traded_with_append: "traded_with oid (es @ fs) = traded_with oid es + traded_with oid fs"
  by (simp add: traded_with_def)

lemma reaches_better:
  "\<not> stops_at order p \<Longrightarrow> o_side order = opposite s \<Longrightarrow> \<not> level_lt s p q \<Longrightarrow> \<not> stops_at order q"
  by (cases s; cases "o_order_type order = Market") (auto simp: stops_at_def)

lemma side_queue_sorted:
  "book_inv bk \<Longrightarrow> sorted_wrt (\<lambda>e e'. \<not> level_lt s (fst e') (fst e)) (side_queue s bk)"
  unfolding side_queue_def by (rule levels_ok_sorted [OF book_inv_levels])

lemma entries_ahead:
  assumes inv: "book_inv bk" and r: "(p, r) \<in> set (side_queue s bk)"
    and e: "e \<in> set (takeWhile (\<lambda>e. ro_order_id (snd e) \<noteq> ro_order_id r) (side_queue s bk))"
  shows "\<not> level_lt s p (fst e)"
proof -
  let ?P = "\<lambda>e. ro_order_id (snd e) \<noteq> ro_order_id r"
  have "(p, r) \<notin> set (takeWhile ?P (side_queue s bk))" by (auto dest: set_takeWhileD)
  then have "(p, r) \<in> set (dropWhile ?P (side_queue s bk))"
    using r set_takeWhile_dropWhile [of "(p, r)" _ ?P] by blast
  from sorted_wrt_halves [OF side_queue_sorted [OF inv] e this] show ?thesis by simp
qed

lemma place_moves_forward:
  assumes inv: "book_inv bk" and pos: "o_quantity order > Quantity 0"
    and r: "(p, r) \<in> set (side_queue s bk)" and behind: "\<not> overtakes s p (Do_Place order)"
    and here: "ro_order_id r \<in> queue_ids (side_queue s (fst (book_place_order bk order)))"
  shows "up_to (ro_order_id r) (side_queue s (fst (book_place_order bk order))) + serves s p bk (Do_Place order)
    \<le> up_to (ro_order_id r) (side_queue s bk)"
  using inv pos
proof (cases rule: place_cases)
  case (refused reason)
  then show ?thesis by (simp add: book_reject_def)
next
  case (executed v fs n ys)
  let ?o = "opposite (o_side order)" and ?oid = "ro_order_id r"
  obtain n' ys' where "spec_match (view bk) order = (fs, n', ys')"
    and v': "v = (if is_immediate (o_order_type order) \<or> n' = Quantity 0
       then (view bk)(?o := ys')
       else (view bk)(?o := ys', o_side order := insert_by_priority (o_side order) (resting_entry order n') (view bk (o_side order))))"
    using executed(1) by (elim spec_place_executed_fills) blast
  then have v: "v = (if is_immediate (o_order_type order) \<or> n = Quantity 0
       then (view bk)(?o := ys)
       else (view bk)(?o := ys, o_side order := insert_by_priority (o_side order) (resting_entry order n) (view bk (o_side order))))"
    using executed(2) by simp
  have queue: "side_queue s (fst (book_place_order bk order)) = v s"
    using book_place_refines [OF inv pos] executed(1) by (metis fst_conv view_queue)
  show ?thesis
  proof (cases "s = o_side order")
    case True
    then have "serves s p bk (Do_Place order) = 0" by simp
    moreover have "up_to ?oid (v s) = up_to ?oid (side_queue s bk)"
      using up_to_insert [OF side_queue_sorted [OF inv] r refl, of "resting_entry order n"] behind True
      by (auto simp: v resting_entry_def)
    ultimately show ?thesis by (simp add: queue)
  next
    case False
    then have s: "s = ?o" by (cases s; cases "o_side order") auto
    have match: "ref_match (\<lambda>p. \<not> stops_at order p) (o_quantity order) (side_queue s bk) = (fs, n, ys)"
      using executed(2) s by (simp add: spec_match_def)
    have vs: "v s = ys" using False s by (auto simp: v)
    have dist: "distinct (map (ro_order_id \<circ> snd) (side_queue s bk))" by (rule side_queue_distinct [OF inv])
    have mem: "?oid \<in> queue_ids ys" using here by (simp add: queue vs)
    note fwd = up_to_match [OF match mem dist]
    show ?thesis
    proof (cases "o_side order = opposite s \<and> \<not> stops_at order p")
      case reach: True
      have "\<forall>e \<in> set (takeWhile (\<lambda>e. ro_order_id (snd e) \<noteq> ?oid) (side_queue s bk)). \<not> stops_at order (fst e)"
        using reach reaches_better entries_ahead [OF inv r] by blast
      moreover have "\<forall>e \<in> set (side_queue s bk). ro_order_id (snd e) = ?oid \<longrightarrow> \<not> stops_at order (fst e)"
        using reach dist r by (fastforce simp: distinct_map inj_on_def)
      ultimately show ?thesis using fwd(2) by (auto simp: queue vs)
    next
      case False
      then show ?thesis using fwd(1) by (auto simp: queue vs)
    qed
  qed
qed

lemma cancel_frame:
  fixes stale req
  assumes inv: "book_inv bk"
  defines "bk' \<equiv> fst (book_cancel_order stale bk req)"
  shows "bk' = bk \<or>
    side_queue s bk' = filter (\<lambda>e. ro_order_id (snd e) \<noteq> ca_order_id req) (side_queue s bk) \<and>
    order_locations bk' = (order_locations bk)(ca_order_id req := None)"
proof (cases "\<exists>loc. order_locations bk (ca_order_id req) = Some loc \<and> ca_account_id req = ol_account_id loc")
  case True
  then obtain loc where loc: "order_locations bk (ca_order_id req) = Some loc" "ca_account_id req = ol_account_id loc"
    by blast
  show ?thesis
    by (rule book_cancel_queues [OF inv loc, of stale]) (simp add: bk'_def)
next
  case False
  then show ?thesis by (auto simp: bk'_def book_cancel_order_def split: option.split)
qed

text \<open>One command: the order leaves the book, or stays at its price, moved forward.\<close>

lemma command_location:
  assumes "book_inv bk" and "positive_command c" and "order_locations bk oid = Some loc"
    and "order_locations (fst (run_command bk c)) oid = Some loc'"
  shows "loc' = loc"
proof (cases c)
  case (Do_Place order)
  then have pos: "o_quantity order > Quantity 0" using assms(2) by simp
  have "fst (book_place_order bk order) = bk" if "oid = o_order_id order"
    using that assms(3) by (simp add: book_place_order_def)
  then show ?thesis
    using place_locations [OF assms(1) pos, of oid loc'] assms(3,4) Do_Place by auto
next
  case (Do_Cancel stale req)
  then show ?thesis
    using cancel_frame [OF assms(1), of stale req s] assms(3,4) by (auto split: if_splits)
qed

lemma command_moves_forward:
  assumes inv: "book_inv bk" and pos: "positive_command c" and behind: "\<not> overtakes s p c"
    and r: "(p, r) \<in> set (side_queue s bk)"
    and stays: "contains_order (fst (run_command bk c)) (ro_order_id r)"
  obtains r' where "(p, r') \<in> set (side_queue s (fst (run_command bk c)))" "ro_order_id r' = ro_order_id r"
    "up_to (ro_order_id r) (side_queue s (fst (run_command bk c))) + serves s p bk c
       \<le> up_to (ro_order_id r) (side_queue s bk)"
proof -
  let ?bk = "fst (run_command bk c)" and ?oid = "ro_order_id r"
  have inv': "book_inv ?bk" by (rule run_command_inv [OF inv pos])
  obtain loc where loc: "order_locations ?bk ?oid = Some loc"
    using stays by (auto simp: contains_order_def)
  have "loc = \<lparr>ol_side = s, ol_price = p, ol_account_id = ro_account_id r\<rparr>"
    by (rule command_location [OF inv pos book_interest_entry(2) [OF inv r] loc])
  then obtain r' where r': "(p, r') \<in> set (side_queue s ?bk)" "ro_order_id r' = ?oid"
    using located_entry [OF inv' loc] by auto
  then have mem: "?oid \<in> queue_ids (side_queue s ?bk)" by (force simp: queue_ids_def)
  have "up_to ?oid (side_queue s ?bk) + serves s p bk c \<le> up_to ?oid (side_queue s bk)"
  proof (cases c)
    case (Do_Place order)
    then show ?thesis
      using place_moves_forward [OF inv _ r, of order] pos behind mem by simp
  next
    case (Do_Cancel stale req)
    then show ?thesis
      using cancel_frame [OF inv, of stale req s] mem up_to_filter [of ?oid "ca_order_id req"]
      by (auto simp: queue_ids_def)
  qed
  then show thesis using that r' by blast
qed

text \<open>What an order loses in one command is what trades against it, unless it is canceled.\<close>

lemma command_trades:
  assumes inv: "book_inv bk" and pos: "positive_command c" and nc: "\<not> cancels oid c"
    and present: "book_interest bk oid \<noteq> None"
  shows "quantity_of (book_interest bk oid) =
    quantity_of (book_interest (fst (run_command bk c)) oid) + traded_with oid (snd (run_command bk c))"
proof (cases c)
  case (Do_Place order)
  then have "o_quantity order > Quantity 0" using pos by simp
  from order_book.place_takes(2) [OF inv this _ present] show ?thesis
    using Do_Place by (simp add: traded_with_def)
next
  case (Do_Cancel stale req)
  then show ?thesis
    using order_book.cancel_contract [OF inv, of stale req] nc cancel_batch(1) [OF inv, of stale req]
    by (auto simp: traded_with_def)
qed

lemma up_to_positive:
  assumes "book_inv bk" and "(p, r) \<in> set (side_queue s bk)"
  shows "0 < qnat (ro_remaining_quantity r)" and "0 < up_to (ro_order_id r) (side_queue s bk)"
proof -
  have pos: "\<forall>e \<in> set (side_queue s bk). 0 < qnat (ro_remaining_quantity (snd e))"
    using book_inv_levels [OF assms(1), of s]
    by (fastforce simp: side_queue_def set_queue_of levels_ok_def quantity_less_iff qnat_def)
  then show "0 < qnat (ro_remaining_quantity r)" using assms(2) by fastforce
  have "0 < up_to oid xs" if "xs \<noteq> []" "\<forall>e \<in> set xs. 0 < qnat (ro_remaining_quantity (snd e))" for oid xs
    using that by (cases xs) auto
  then show "0 < up_to (ro_order_id r) (side_queue s bk)" using pos assms(2) by (cases "side_queue s bk") auto
qed

text \<open>
  C11: an order at rest is served. Take any order that rests in a well-formed book and any further
  run of orders and cancels in which nobody rests an order at a better price on the same side. As
  soon as the accepted orders of the other side whose limits reach the price bring in the quantity
  that stands before the order, its own included, the order has left the book, however many
  orders have joined behind it and whatever else was canceled or refused; and unless a cancel
  named it, all of its remaining quantity has been traded against it by then.
\<close>

theorem resting_order_is_served:
  fixes bk r
  defines "oid \<equiv> ro_order_id r"
  assumes "book_inv bk" and "(p, r) \<in> set (side_queue s bk)"
    and "\<forall>c \<in> set cs. positive_command c \<and> \<not> overtakes s p c"
    and "up_to oid (side_queue s bk) \<le> served s p bk cs"
  shows "\<exists>n \<le> length cs. \<not> contains_order (fst (run_book bk (take n cs))) oid \<and>
    ((\<forall>c \<in> set cs. \<not> cancels oid c) \<longrightarrow>
       traded_with oid (concat (snd (run_book bk (take n cs)))) = qnat (ro_remaining_quantity r))"
  using assms(2-5) unfolding oid_def
proof (induction cs arbitrary: bk r)
  case Nil
  then show ?case using up_to_positive(2) [OF Nil.prems(1,2)] by simp
next
  case (Cons c cs)
  let ?bk = "fst (run_command bk c)" and ?oid = "ro_order_id r"
  have inv: "book_inv ?bk" and pos: "positive_command c" using run_command_inv Cons.prems(1,3) by auto
  note entry = book_interest_entry(1) [OF Cons.prems(1,2)]
  have trades: "qnat (ro_remaining_quantity r) =
      quantity_of (book_interest ?bk ?oid) + traded_with ?oid (snd (run_command bk c))" if "\<not> cancels ?oid c"
    using command_trades [OF Cons.prems(1) pos that] entry by (simp add: quantity_of_def)
  show ?case
  proof (cases "contains_order ?bk ?oid")
    case False
    then have "book_interest ?bk ?oid = None" using book_interest_None [OF inv] by (simp add: contains_order_def)
    then show ?thesis
      using False trades
      by (intro exI [of _ 1]) (auto simp: run_book_Cons quantity_of_def simp del: run_book.simps(2))
  next
    case True
    obtain r' where r': "(p, r') \<in> set (side_queue s ?bk)" "ro_order_id r' = ?oid"
        "up_to ?oid (side_queue s ?bk) + serves s p bk c \<le> up_to ?oid (side_queue s bk)"
      using command_moves_forward [OF Cons.prems(1) pos _ Cons.prems(2) True] Cons.prems(3) by auto
    have "up_to (ro_order_id r') (side_queue s ?bk) \<le> served s p ?bk cs"
      using r'(2,3) Cons.prems(4) by simp
    from Cons.IH [OF inv r'(1) _ this] Cons.prems(3) obtain n where n: "n \<le> length cs"
        "\<not> contains_order (fst (run_book ?bk (take n cs))) ?oid"
        "(\<forall>c \<in> set cs. \<not> cancels ?oid c) \<Longrightarrow>
          traded_with ?oid (concat (snd (run_book ?bk (take n cs)))) = qnat (ro_remaining_quantity r')"
      unfolding r'(2) by auto
    have "book_interest ?bk ?oid = Some (s, ro_account_id r', qnat (ro_remaining_quantity r'))"
      using book_interest_entry(1) [OF inv r'(1)] r'(2) by simp
    then show ?thesis
      using n trades
      by (intro exI [of _ "Suc n"])
        (auto simp: run_book_Cons traded_with_append quantity_of_def simp del: run_book.simps(2))
  qed
qed

text \<open>The second ask of \<open>demo_book\<close> waits behind 5; another ask joins, then bids for 6 and 4 arrive.\<close>

theorem resting_order_is_served_witness:
  "\<exists>n \<le> 3. \<not> contains_order (fst (run_book demo_book (take n
     [Do_Place (demo_order 3 Sell 100 9 Limit 7), Do_Place (demo_order 4 Buy 100 6 Limit 9),
      Do_Place (demo_order 5 Buy 103 4 IOC 9)]))) 2"
proof -
  let ?cs = "[Do_Place (demo_order 3 Sell 100 9 Limit 7), Do_Place (demo_order 4 Buy 100 6 Limit 9),
      Do_Place (demo_order 5 Buy 103 4 IOC 9)]"
  have "(Price 100, demo_ask 2 5) \<in> set (side_queue Sell demo_book)" by (simp add: demo_queues)
  moreover have "\<forall>c \<in> set ?cs. positive_command c \<and> \<not> overtakes Sell (Price 100) c"
    by (simp add: demo_order_positive) (simp add: demo_order_def less_price_def)
  moreover have "served Sell (Price 100) demo_book ?cs = 10"
    by (simp add: book_eval demo_book_def demo_ask_def qnat_def)
  then have "up_to (ro_order_id (demo_ask 2 5)) (side_queue Sell demo_book) \<le> served Sell (Price 100) demo_book ?cs"
    by (simp add: demo_queues demo_ask_def qnat_def)
  ultimately have "\<exists>n \<le> length ?cs. \<not> contains_order (fst (run_book demo_book (take n ?cs))) (ro_order_id (demo_ask 2 5))"
    using resting_order_is_served [OF demo_book_inv, of "Price 100" "demo_ask 2 5" Sell ?cs] by blast
  then show ?thesis by (simp add: demo_ask_def numeral_3_eq_3)
qed

end
