(* ===== verification/Risk_Checks.thy ===== *)
theory Risk_Checks
  imports Domain
begin

text \<open>
  The engine configuration (\<open>engine/engine_config.hpp\<close>) and the two stateless validators:
  \<open>RiskManager\<close> (\<open>risk/risk_manager.cpp\<close>) and \<open>FatFingerValidator\<close>
  (\<open>risk/fat_finger_validator.cpp\<close>), with what their word arithmetic means on numbers.
\<close>

record engine_config =
  maximum_order_price :: raw_price
  maximum_order_quantity :: raw_quantity
  maximum_order_notional :: raw_quantity
  maximum_position_quantity :: raw_quantity
  maximum_open_order_quantity :: raw_quantity
  maximum_account_credit :: raw_quantity
  initial_margin_basis_points :: raw_quantity
  maximum_reference_deviation_basis_points :: raw_quantity

definition default_config :: engine_config where
  "default_config =
     \<lparr>maximum_order_price = i64_max, maximum_order_quantity = u64_max,
      maximum_order_notional = u64_max, maximum_position_quantity = u64_max,
      maximum_open_order_quantity = u64_max, maximum_account_credit = u64_max,
      initial_margin_basis_points = 10000, maximum_reference_deviation_basis_points = 1000\<rparr>"

definition config_is_valid :: "engine_config \<Rightarrow> bool" where
  "config_is_valid c \<longleftrightarrow>
     0 <s maximum_order_price c \<and> 0 < maximum_order_quantity c \<and>
     0 < maximum_order_notional c \<and> 0 < maximum_account_credit c \<and>
     initial_margin_basis_points c \<le> 10000 \<and>
     maximum_reference_deviation_basis_points c \<le> 10000"

section \<open>Pre-trade limits\<close>

datatype risk_reject = Risk_None | Quantity_Limit | Notional_Limit | Fat_Finger_Limit

text \<open>The division by the price traps when the price is zero: the \<open>Inl\<close> branch.\<close>

definition risk_evaluate :: "engine_config \<Rightarrow> place_order \<Rightarrow> fault + risk_reject" where
  "risk_evaluate c req =
     (if pl_quantity req > maximum_order_quantity c then Inr Quantity_Limit
      else if pl_order_type req = Market then Inr Risk_None
      else if maximum_order_price c <s pl_price req then Inr Fat_Finger_Limit
      else if pl_price req = 0 then Inl Division_By_Zero
      else if pl_quantity req > maximum_order_notional c div pl_price req then Inr Notional_Limit
      else Inr Risk_None)"

definition structurally_valid :: "place_order \<Rightarrow> bool" where
  "structurally_valid req \<longleftrightarrow>
     ((pl_order_type req = Market \<and> pl_price req = 0) \<or>
      (pl_order_type req \<noteq> Market \<and> 0 <s pl_price req)) \<and> pl_quantity req \<noteq> 0"

lemma div_limit_iff: "0 < p \<Longrightarrow> q \<le> n div p \<longleftrightarrow> p * q \<le> n" for n p q :: nat
  by (simp add: less_eq_div_iff_mult_less_eq mult.commute)

lemma risk_evaluate_limit:
  assumes "0 <s pl_price req" and "pl_order_type req \<noteq> Market"
  shows "risk_evaluate c req = Inr
    (if unat (maximum_order_quantity c) < unat (pl_quantity req) then Quantity_Limit
     else if sint (maximum_order_price c) < int (unat (pl_price req)) then Fat_Finger_Limit
     else if unat (maximum_order_notional c) < unat (pl_price req) * unat (pl_quantity req)
     then Notional_Limit else Risk_None)"
proof -
  have p: "sint (pl_price req) = int (unat (pl_price req))" "0 < unat (pl_price req)"
    using sint_positive_unat [OF assms(1)] by auto
  then have "pl_price req \<noteq> 0" by auto
  moreover have "maximum_order_notional c div pl_price req < pl_quantity req \<longleftrightarrow>
      unat (maximum_order_notional c) < unat (pl_price req) * unat (pl_quantity req)"
    using div_limit_iff [OF p(2), of "unat (pl_quantity req)" "unat (maximum_order_notional c)"]
    by (simp add: word_less_nat_alt unat_div_distrib not_le [symmetric])
  ultimately show ?thesis
    using assms(2) p(1) by (simp add: risk_evaluate_def word_less_nat_alt word_sless_alt)
qed

lemma risk_evaluate_market:
  "pl_order_type req = Market \<Longrightarrow> risk_evaluate c req = Inr
     (if unat (maximum_order_quantity c) < unat (pl_quantity req) then Quantity_Limit else Risk_None)"
  by (simp add: risk_evaluate_def word_less_nat_alt)

lemma risk_evaluate_valid: "structurally_valid req \<Longrightarrow> \<exists>r. risk_evaluate c req = Inr r"
  using risk_evaluate_limit [of req c] risk_evaluate_market [of req c]
  by (auto simp: structurally_valid_def)

text \<open>
  The pre-trade limits mean what they say. On every structurally valid request the
  evaluation returns (it never divides by zero), and a request passes exactly when its quantity
  is within the limit and, unless it is a market order, its price is within the limit and the
  true product of price and quantity, taken over the naturals without wrap-around, is within
  the notional limit; a refusal names the first limit that fails.
\<close>

theorem risk_limits_exact:
  assumes "structurally_valid req"
  shows "risk_evaluate c req = Inr
    (if unat (pl_quantity req) > unat (maximum_order_quantity c) then Quantity_Limit
     else if pl_order_type req = Market then Risk_None
     else if int (unat (pl_price req)) > sint (maximum_order_price c) then Fat_Finger_Limit
     else if unat (pl_price req) * unat (pl_quantity req) > unat (maximum_order_notional c)
     then Notional_Limit else Risk_None)"
  using assms risk_evaluate_limit [of req c] risk_evaluate_market [of req c]
  by (auto simp: structurally_valid_def)

definition demo_request ::
  "order_id \<Rightarrow> side \<Rightarrow> raw_price \<Rightarrow> raw_quantity \<Rightarrow> order_type \<Rightarrow> account_id \<Rightarrow> place_order" where
  "demo_request oid s p q ty a =
     \<lparr>pl_instrument_id = 1, pl_order_id = oid, pl_side = s, pl_price = p, pl_quantity = q,
      pl_order_type = ty, pl_account_id = a\<rparr>"

theorem risk_limits_exact_witness:
  "risk_evaluate (default_config\<lparr>maximum_order_notional := 500\<rparr>) (demo_request 603 Buy 100 6 Limit 0) =
     Inr Notional_Limit \<and>
   risk_evaluate (default_config\<lparr>maximum_order_notional := 500\<rparr>) (demo_request 604 Buy 100 5 Limit 0) =
     Inr Risk_None"
  using risk_limits_exact [of "demo_request 603 Buy 100 6 Limit 0"
      "default_config\<lparr>maximum_order_notional := 500\<rparr>"]
    risk_limits_exact [of "demo_request 604 Buy 100 5 Limit 0"
      "default_config\<lparr>maximum_order_notional := 500\<rparr>"]
  by (simp add: structurally_valid_def demo_request_def default_config_def word_sless_alt)

section \<open>The reference-price band\<close>

datatype fat_finger_result = FF_Accepted | Reference_Price_Unavailable | Outside_Reference_Band

definition deviation_amount :: "raw_price \<Rightarrow> raw_quantity \<Rightarrow> raw_price" where
  "deviation_amount reference_price basis_points =
     (let whole_units = reference_price div 10000;
          remainder = reference_price mod 10000
      in whole_units * basis_points + remainder * basis_points div 10000)"

definition fat_finger_evaluate :: "engine_config \<Rightarrow> place_order \<Rightarrow> raw_price \<Rightarrow> fat_finger_result" where
  "fat_finger_evaluate c req reference_price =
     (if pl_order_type req = Market then FF_Accepted
      else if reference_price \<le>s 0 then Reference_Price_Unavailable
      else
        let deviation = deviation_amount reference_price (maximum_reference_deviation_basis_points c);
            lower_bound = reference_price - deviation;
            upper_bound = (if i64_max - reference_price <s deviation then i64_max
                           else reference_price + deviation)
        in if lower_bound \<le>s pl_price req \<and> pl_price req \<le>s upper_bound then FF_Accepted
           else Outside_Reference_Band)"

lemma unat_mult_small: "unat a * unat b < 2 ^ 64 \<Longrightarrow> unat (a * b :: u64) = unat a * unat b"
  by (simp add: unat_word_ariths)

lemma scaled_split: "(r div 10000) * b + (r mod 10000) * b div 10000 = r * b div 10000" for r b :: nat
proof -
  have "r * b = (r mod 10000) * b + 10000 * ((r div 10000) * b)"
    by (metis add.commute add_mult_distrib mult.assoc mult_div_mod_eq)
  then show ?thesis by simp
qed

lemma deviation_amount_exact:
  assumes "unat b \<le> 10000"
  shows "unat (deviation_amount r b) = unat r * unat b div 10000"
    and "unat (deviation_amount r b) \<le> unat r"
proof -
  have r: "unat r < 2 ^ 64" by (rule unat_lt64)
  have whole: "unat (r div 10000) * unat b \<le> unat r"
  proof -
    have "unat r div 10000 * unat b \<le> unat r div 10000 * 10000" using assms by simp
    also have "\<dots> \<le> unat r" by simp
    finally show ?thesis by (simp add: unat_div_distrib)
  qed
  have rem: "unat (r mod 10000) * unat b \<le> 10000 * 10000"
    using mult_le_mono [of "unat (r mod 10000)" 10000 "unat b" 10000] assms
    by (simp add: unat_mod_distrib less_imp_le)
  have w: "unat (r div 10000 * b) = unat (r div 10000) * unat b"
    by (rule unat_mult_small) (use whole r in linarith)
  have m: "unat (r mod 10000 * b) = unat (r mod 10000) * unat b"
    by (rule unat_mult_small) (use rem in simp)
  have sum: "unat (r div 10000) * unat b + unat (r mod 10000) * unat b div 10000 = unat r * unat b div 10000"
    using scaled_split [of "unat r" "unat b"] by (simp add: unat_div_distrib unat_mod_distrib)
  have le: "unat r * unat b div 10000 \<le> unat r"
  proof -
    have "unat r * unat b div 10000 \<le> unat r * 10000 div 10000"
      using assms by (intro div_le_mono mult_le_mono) auto
    then show ?thesis by simp
  qed
  have "unat (deviation_amount r b) = unat (r div 10000 * b) + unat (r mod 10000 * b div 10000)"
    unfolding deviation_amount_def Let_def
    by (rule unat_add_small) (use w m sum le r in \<open>simp add: unat_div_distrib\<close>)
  then show "unat (deviation_amount r b) = unat r * unat b div 10000"
    using w m sum by (simp add: unat_div_distrib)
  then show "unat (deviation_amount r b) \<le> unat r" using le by simp
qed

text \<open>The deviation of a positive reference price, and the two bounds it gives, as integers.\<close>

lemma deviation_amount_int:
  assumes "unat b \<le> 10000" and "0 < sint ref"
  shows "sint (deviation_amount ref b) = sint ref * int (unat b) div 10000"
    and "0 \<le> sint (deviation_amount ref b)" and "sint (deviation_amount ref b) \<le> sint ref"
proof -
  have r: "sint ref = int (unat ref)" "unat ref < 2 ^ 63"
    using sint_positive_unat [of ref] assms(2) by (auto simp: word_sless_alt)
  have "unat (deviation_amount ref b) < 2 ^ 63"
    using deviation_amount_exact(2) [OF assms(1), of ref] r(2) by linarith
  then have eq: "sint (deviation_amount ref b) = int (unat (deviation_amount ref b))"
    by (rule sint_nonneg_unat)
  show "sint (deviation_amount ref b) = sint ref * int (unat b) div 10000"
    unfolding eq r(1) deviation_amount_exact(1) [OF assms(1)] by (simp add: zdiv_int)
  show "0 \<le> sint (deviation_amount ref b)" unfolding eq by (rule of_nat_0_le_iff)
  show "sint (deviation_amount ref b) \<le> sint ref"
    unfolding eq r(1) of_nat_le_iff by (rule deviation_amount_exact(2) [OF assms(1)])
qed

lemma reference_band:
  fixes ref d p :: raw_price
  assumes "0 \<le> sint d" and "sint d \<le> sint ref" and "0 < sint ref"
  shows "ref - d \<le>s p \<and> p \<le>s (if i64_max - ref <s d then i64_max else ref + d) \<longleftrightarrow>
    \<bar>sint p - sint ref\<bar> \<le> sint d"
proof -
  have range: "sint ref < 2 ^ 63" "sint p < 2 ^ 63"
    using sint_range64(2) [of ref] sint_range64(2) [of p] by simp_all
  have max: "sint (i64_max :: i64) = 2 ^ 63 - 1" by simp
  have low: "sint (ref - d) = sint ref - sint d"
    by (rule sint_sub_small) (use assms range in linarith)+
  have room: "sint (i64_max - ref) = 2 ^ 63 - 1 - sint ref"
    unfolding max [symmetric] by (rule sint_sub_small) (use assms range in \<open>simp_all\<close>)
  have high: "sint (ref + d) = sint ref + sint d" if "\<not> sint (i64_max - ref) < sint d"
    by (rule sint_add_small) (use that room assms range in linarith)+
  show ?thesis
    using low high room max range by (cases "sint (i64_max - ref) < sint d")
      (auto simp: word_sle_eq word_sless_alt)
qed

lemmas price_band = reference_band [OF deviation_amount_int(2,3)]

text \<open>
  C38: the fat-finger band is exact. With a deviation of at most 10000 basis points, as a valid
  configuration has, a priced order passes exactly when its price differs from the positive
  reference price by no more than the integer part of reference times basis points over 10000,
  in true integer arithmetic: neither the split product nor the two bounds overflow, and the
  saturation of the upper bound at the largest price loses nothing. Market orders always pass;
  a missing or non-positive reference refuses.
\<close>

theorem fat_finger_band_exact:
  assumes "unat (maximum_reference_deviation_basis_points c) \<le> 10000"
  shows "fat_finger_evaluate c req ref =
    (if pl_order_type req = Market then FF_Accepted
     else if sint ref \<le> 0 then Reference_Price_Unavailable
     else if \<bar>sint (pl_price req) - sint ref\<bar> \<le>
         sint ref * int (unat (maximum_reference_deviation_basis_points c)) div 10000
     then FF_Accepted else Outside_Reference_Band)"
proof (cases "sint ref \<le> 0")
  case True
  then show ?thesis by (simp add: fat_finger_evaluate_def word_sle_eq)
next
  case False
  then have pos: "0 < sint ref" by simp
  show ?thesis
    using False price_band [OF assms pos assms pos pos, of "pl_price req"]
      deviation_amount_int(1) [OF assms pos]
    by (simp add: fat_finger_evaluate_def Let_def word_sle_eq [of ref])
qed

theorem fat_finger_band_exact_witness:
  "fat_finger_evaluate default_config (demo_request 1305 Buy 120 1 Limit 77) 100 = Outside_Reference_Band \<and>
   fat_finger_evaluate default_config (demo_request 1305 Buy 110 1 Limit 77) 100 = FF_Accepted"
  using fat_finger_band_exact [of default_config "demo_request 1305 Buy 120 1 Limit 77" 100]
    fat_finger_band_exact [of default_config "demo_request 1305 Buy 110 1 Limit 77" 100]
  by (simp add: default_config_def demo_request_def)

end
