(* ===== verification/Account_Risk.thy ===== *)
theory Account_Risk
  imports Risk_Checks "HOL-Library.AList"
begin

text \<open>
  The account risk manager (\<open>risk/account_risk_manager.hpp\<close>, \<open>.cpp\<close>): per account and
  instrument a signed position and the reserved quantities and margin, and one reservation per
  open order. Signed overflow, which the source leaves undefined, is modelled as wrap-around in
  two's complement; which configurations keep it from happening is proved in the engine.
\<close>

section \<open>State\<close>

record account_state =
  as_position :: i64
  as_open_order_quantity :: raw_quantity
  as_buy_reserved_quantity :: raw_quantity
  as_sell_reserved_quantity :: raw_quantity
  as_reserved_margin :: raw_quantity

definition zero_state :: account_state where
  "zero_state = \<lparr>as_position = 0, as_open_order_quantity = 0, as_buy_reserved_quantity = 0,
     as_sell_reserved_quantity = 0, as_reserved_margin = 0\<rparr>"

record reservation =
  rv_account_id :: account_id
  rv_side :: side
  rv_remaining_quantity :: raw_quantity
  rv_reserved_margin :: raw_quantity

type_synonym order_key = "instrument_id \<times> order_id"

record account_risk =
  ar_configuration :: engine_config
  ar_account_states :: "account_id \<rightharpoonup> (instrument_id \<times> account_state) list"
  ar_reservations :: "order_key \<rightharpoonup> reservation"

definition new_account_risk :: "engine_config \<Rightarrow> account_risk" where
  "new_account_risk c =
     \<lparr>ar_configuration = c, ar_account_states = Map.empty, ar_reservations = Map.empty\<rparr>"

datatype account_reject = Account_None | Position_Limit | Open_Order_Limit | Credit_Limit

section \<open>Arithmetic helpers\<close>

definition saturated_multiply :: "u64 \<Rightarrow> u64 \<Rightarrow> u64" where
  "saturated_multiply left right =
     (if left = 0 \<or> right = 0 then 0
      else if left > u64_max div right then u64_max else left * right)"

definition proportional_release :: "u64 \<Rightarrow> u64 \<Rightarrow> u64 \<Rightarrow> u64" where
  "proportional_release reserved released remaining =
     (let whole_units = reserved div remaining;
          remainder = reserved mod remaining
      in saturated_multiply whole_units released + saturated_multiply remainder released div remaining)"

section \<open>Operations\<close>

definition state_for :: "account_risk \<Rightarrow> account_id \<Rightarrow> instrument_id \<Rightarrow> account_state" where
  "state_for ar a i =
     (case ar_account_states ar a of
        None \<Rightarrow> zero_state
      | Some m \<Rightarrow> (case map_of m i of None \<Rightarrow> zero_state | Some st \<Rightarrow> st))"

text \<open>\<open>account_states_[a][i]\<close> as a reference that is then written through.\<close>

definition modify_state ::
  "(account_state \<Rightarrow> account_state) \<Rightarrow> account_id \<Rightarrow> instrument_id \<Rightarrow> account_risk \<Rightarrow> account_risk" where
  "modify_state f a i ar =
     ar\<lparr>ar_account_states := (ar_account_states ar)(a \<mapsto>
          AList.update i (f (state_for ar a i))
            (case ar_account_states ar a of None \<Rightarrow> [] | Some m \<Rightarrow> m))\<rparr>"

definition margin_for :: "engine_config \<Rightarrow> place_order \<Rightarrow> u64" where
  "margin_for c req =
     (let notional = (if pl_order_type req = Market then maximum_order_notional c
                      else saturated_multiply (pl_price req) (pl_quantity req))
      in saturated_multiply notional (initial_margin_basis_points c) div 10000)"

definition position_limit :: "engine_config \<Rightarrow> i64" where
  "position_limit c =
     (if maximum_position_quantity c > i64_max then i64_max else maximum_position_quantity c)"

definition projected_buy_position :: "account_state \<Rightarrow> place_order \<Rightarrow> i64" where
  "projected_buy_position st req =
     as_position st + as_buy_reserved_quantity st + (if pl_side req = Buy then pl_quantity req else 0)"

definition projected_sell_position :: "account_state \<Rightarrow> place_order \<Rightarrow> i64" where
  "projected_sell_position st req =
     as_position st - as_sell_reserved_quantity st - (if pl_side req = Sell then pl_quantity req else 0)"

definition account_evaluate :: "account_risk \<Rightarrow> place_order \<Rightarrow> account_reject" where
  "account_evaluate ar req =
     (let c = ar_configuration ar; st = state_for ar (pl_account_id req) (pl_instrument_id req) in
      if pl_quantity req > maximum_open_order_quantity c \<or>
         as_open_order_quantity st > maximum_open_order_quantity c - pl_quantity req
      then Open_Order_Limit
      else if pl_quantity req > i64_max then Position_Limit
      else if position_limit c <s projected_buy_position st req \<or>
              projected_sell_position st req <s - position_limit c
      then Position_Limit
      else if margin_for c req > maximum_account_credit c \<or>
              as_reserved_margin st > maximum_account_credit c - margin_for c req
      then Credit_Limit
      else Account_None)"

text \<open>What \<open>reserve\<close> and \<open>release\<close> write through the reference to the account state.\<close>

definition reserved_state :: "place_order \<Rightarrow> u64 \<Rightarrow> account_state \<Rightarrow> account_state" where
  "reserved_state req margin st =
     (let st1 = st\<lparr>as_open_order_quantity := as_open_order_quantity st + pl_quantity req,
                    as_reserved_margin := as_reserved_margin st + margin\<rparr>
      in if pl_side req = Buy
         then st1\<lparr>as_buy_reserved_quantity := as_buy_reserved_quantity st1 + pl_quantity req\<rparr>
         else st1\<lparr>as_sell_reserved_quantity := as_sell_reserved_quantity st1 + pl_quantity req\<rparr>)"

definition released_state :: "reservation \<Rightarrow> u64 \<Rightarrow> u64 \<Rightarrow> account_state \<Rightarrow> account_state" where
  "released_state rv released margin st =
     (let st1 = st\<lparr>as_open_order_quantity := as_open_order_quantity st - released\<rparr>;
          st2 = (if rv_side rv = Buy
                 then st1\<lparr>as_buy_reserved_quantity := as_buy_reserved_quantity st1 - released\<rparr>
                 else st1\<lparr>as_sell_reserved_quantity := as_sell_reserved_quantity st1 - released\<rparr>)
      in st2\<lparr>as_reserved_margin := as_reserved_margin st2 - margin\<rparr>)"

definition reserve :: "account_risk \<Rightarrow> place_order \<Rightarrow> account_risk" where
  "reserve ar req =
     (let margin = margin_for (ar_configuration ar) req;
          ar1 = ar\<lparr>ar_reservations := (ar_reservations ar)
            ((pl_instrument_id req, pl_order_id req) \<mapsto>
              \<lparr>rv_account_id = pl_account_id req, rv_side = pl_side req,
               rv_remaining_quantity = pl_quantity req, rv_reserved_margin = margin\<rparr>)\<rparr>
      in modify_state (reserved_state req margin) (pl_account_id req) (pl_instrument_id req) ar1)"

definition released_margin :: "reservation \<Rightarrow> u64 \<Rightarrow> u64" where
  "released_margin rv released =
     (if released = rv_remaining_quantity rv then rv_reserved_margin rv
      else proportional_release (rv_reserved_margin rv) released (rv_remaining_quantity rv))"

definition release :: "account_risk \<Rightarrow> order_key \<Rightarrow> u64 \<Rightarrow> account_risk" where
  "release ar key quantity =
     (case ar_reservations ar key of
        None \<Rightarrow> ar
      | Some rv \<Rightarrow>
          let released = min quantity (rv_remaining_quantity rv);
              margin = released_margin rv released;
              ar1 = modify_state (released_state rv released margin) (rv_account_id rv) (fst key) ar;
              rv' = rv\<lparr>rv_reserved_margin := rv_reserved_margin rv - margin,
                       rv_remaining_quantity := rv_remaining_quantity rv - released\<rparr>
          in if rv_remaining_quantity rv' = 0
             then ar1\<lparr>ar_reservations := (ar_reservations ar)(key := None)\<rparr>
             else ar1\<lparr>ar_reservations := (ar_reservations ar)(key \<mapsto> rv')\<rparr>)"

definition update_position ::
  "account_risk \<Rightarrow> account_id \<Rightarrow> instrument_id \<Rightarrow> side \<Rightarrow> u64 \<Rightarrow> account_risk" where
  "update_position ar a i s quantity =
     modify_state (\<lambda>st. st\<lparr>as_position :=
         (if s = Buy then as_position st + quantity else as_position st - quantity)\<rparr>) a i ar"

fun apply_event :: "place_order \<Rightarrow> bool \<Rightarrow> account_risk \<Rightarrow> engine_event \<Rightarrow> account_risk" where
  "apply_event req created ar (Trade_Executed t) =
     (let ar1 = (if created
                 then release ar (pl_instrument_id req, pl_order_id req) (te_execution_quantity t)
                 else ar);
          ar2 = update_position ar1 (pl_account_id req) (pl_instrument_id req) (pl_side req)
                  (te_execution_quantity t);
          resting_key = (te_instrument_id t, te_resting_order_id t)
      in case ar_reservations ar2 resting_key of
           None \<Rightarrow> ar2
         | Some rv \<Rightarrow>
             update_position (release ar2 resting_key (te_execution_quantity t))
               (rv_account_id rv) (te_instrument_id t) (rv_side rv) (te_execution_quantity t))"
| "apply_event req created ar (Order_Canceled c) =
     release ar (cn_instrument_id c, cn_order_id c) u64_max"
| "apply_event req created ar (Order_Rejected r) =
     (if created then release ar (pl_instrument_id req, pl_order_id req) (pl_quantity req) else ar)"
| "apply_event req created ar (Order_Accepted a) = ar"

definition risk_apply :: "account_risk \<Rightarrow> place_order \<Rightarrow> event_batch \<Rightarrow> bool \<Rightarrow> account_risk" where
  "risk_apply ar req events created =
     (let ar1 = foldl (apply_event req created) ar events
      in if created \<and> (pl_order_type req = IOC \<or> pl_order_type req = Market \<or> pl_order_type req = FOK)
         then release ar1 (pl_instrument_id req, pl_order_id req) (pl_quantity req)
         else ar1)"

definition account_position :: "account_risk \<Rightarrow> account_id \<Rightarrow> instrument_id \<Rightarrow> i64" where
  "account_position ar a i = as_position (state_for ar a i)"

definition account_open_order_quantity :: "account_risk \<Rightarrow> account_id \<Rightarrow> u64" where
  "account_open_order_quantity ar a =
     (case ar_account_states ar a of
        None \<Rightarrow> 0
      | Some m \<Rightarrow> foldl (\<lambda>total e. total + as_open_order_quantity (snd e)) 0 m)"

definition account_reserved_margin :: "account_risk \<Rightarrow> account_id \<Rightarrow> u64" where
  "account_reserved_margin ar a =
     (case ar_account_states ar a of
        None \<Rightarrow> 0
      | Some m \<Rightarrow> foldl (\<lambda>total e. total + as_reserved_margin (snd e)) 0 m)"

section \<open>Frame facts\<close>

named_theorems risk_frame \<open>which part of the state an operation leaves alone\<close>

lemma state_for_modify_state [risk_frame]:
  "state_for (modify_state f a i ar) a' i' =
     (if a' = a \<and> i' = i then f (state_for ar a i) else state_for ar a' i')"
  by (auto simp: state_for_def modify_state_def update_conv' split: option.split)

lemma modify_state_frame [risk_frame]:
  "ar_reservations (modify_state f a i ar) = ar_reservations ar"
  "ar_configuration (modify_state f a i ar) = ar_configuration ar"
  by (simp_all add: modify_state_def)

lemma state_for_reservations [risk_frame]:
  "state_for (ar\<lparr>ar_reservations := R\<rparr>) a i = state_for ar a i"
  by (simp add: state_for_def)

lemma update_position_frame [risk_frame]:
  "ar_reservations (update_position ar a i s q) = ar_reservations ar"
  "ar_configuration (update_position ar a i s q) = ar_configuration ar"
  by (simp_all add: update_position_def risk_frame)

lemma release_configuration [risk_frame]: "ar_configuration (release ar k q) = ar_configuration ar"
  by (auto simp: release_def Let_def risk_frame split: option.split)

lemma reserve_configuration [risk_frame]: "ar_configuration (reserve ar req) = ar_configuration ar"
  by (simp add: reserve_def Let_def risk_frame)

lemma apply_event_configuration [risk_frame]:
  "ar_configuration (apply_event req created ar e) = ar_configuration ar"
  by (cases e) (auto simp: risk_frame Let_def split: option.split)

lemma foldl_apply_event_configuration [risk_frame]:
  "ar_configuration (foldl (apply_event req created) ar events) = ar_configuration ar"
  by (induction events arbitrary: ar) (simp_all add: risk_frame)

lemma risk_apply_configuration [risk_frame]:
  "ar_configuration (risk_apply ar req events created) = ar_configuration ar"
  by (simp add: risk_apply_def Let_def risk_frame)

end
