(* ===== verification/Matching_Engine.thy ===== *)
theory Matching_Engine
  imports Order_Book Instrument_Registry Account_Risk
begin

text \<open>
  The matching engine (\<open>engine/matching_engine.hpp\<close>, \<open>.cpp\<close>): it validates a request, asks
  both risk managers, forwards to the book of the instrument, applies the events to the account
  risk, and publishes them. A failure of the C++ run time (\<open>Division_By_Zero\<close> in the risk
  check, \<open>Out_Of_Range\<close> from \<open>order_books.at\<close>) is the left branch of the result. The event sink
  is code of the client: the model records the calls it receives.
\<close>

section \<open>State\<close>

text \<open>\<open>event_sink\<close> is null, an \<open>IEventSink\<close>, or one that is also an \<open>IEventBatchSink\<close>.\<close>

datatype event_sink = No_Sink | Event_Sink | Batch_Sink

datatype sink_call = On_Event engine_event | On_Events event_batch

record engine =
  en_configuration :: engine_config
  en_event_sink :: event_sink
  en_instruments :: instrument_registry
  en_order_books :: "instrument_id \<rightharpoonup> order_book"
  en_account_risk :: account_risk

definition new_engine :: "engine_config \<Rightarrow> event_sink \<Rightarrow> engine" where
  "new_engine c sink =
     \<lparr>en_configuration = c, en_event_sink = sink, en_instruments = [],
      en_order_books = Map.empty, en_account_risk = new_account_risk c\<rparr>"

text \<open>A call returns the new state, the batch, and what the sink was called with.\<close>

type_synonym 's call_result = "fault + ('s \<times> event_batch \<times> sink_call list)"

section \<open>Operations\<close>

definition publish :: "event_sink \<Rightarrow> event_batch \<Rightarrow> sink_call list" where
  "publish sink events =
     (case sink of
        No_Sink \<Rightarrow> []
      | Batch_Sink \<Rightarrow> [On_Events events]
      | Event_Sink \<Rightarrow> map On_Event events)"

definition engine_contains_order :: "engine \<Rightarrow> instrument_id \<Rightarrow> order_id \<Rightarrow> bool" where
  "engine_contains_order e i oid \<longleftrightarrow>
     (case en_order_books e i of None \<Rightarrow> False | Some bk \<Rightarrow> contains_order bk oid)"

definition find_instrument :: "engine \<Rightarrow> instrument_id \<Rightarrow> instrument option" where
  "find_instrument e i = registry_find (en_instruments e) i"

definition register_instrument :: "engine \<Rightarrow> instrument \<Rightarrow> engine \<times> bool" where
  "register_instrument e inst =
     (case registry_add (en_instruments e) inst of
        (reg, False) \<Rightarrow> (e\<lparr>en_instruments := reg\<rparr>, False)
      | (reg, True) \<Rightarrow>
          (e\<lparr>en_instruments := reg,
             en_order_books := emplace (en_order_books e) (inst_id inst) empty_book\<rparr>, True))"

text \<open>The orders inside reject events: without price and quantity, or with both.\<close>

definition blank_rejected_order :: "place_order \<Rightarrow> order_t" where
  "blank_rejected_order req =
     \<lparr>o_instrument_id = pl_instrument_id req, o_order_id = pl_order_id req, o_side = pl_side req,
      o_price = Price 0, o_quantity = Quantity 0, o_remaining_quantity = Quantity 0,
      o_status = Rejected, o_order_type = pl_order_type req, o_account_id = pl_account_id req\<rparr>"

definition request_order :: "place_order \<Rightarrow> order_status \<Rightarrow> account_id \<Rightarrow> order_t" where
  "request_order req status account =
     \<lparr>o_instrument_id = pl_instrument_id req, o_order_id = pl_order_id req, o_side = pl_side req,
      o_price = Price (pl_price req), o_quantity = Quantity (pl_quantity req),
      o_remaining_quantity = Quantity (pl_quantity req),
      o_status = status, o_order_type = pl_order_type req, o_account_id = account\<rparr>"

definition engine_reject :: "engine \<Rightarrow> order_t \<Rightarrow> reject_reason \<Rightarrow> engine call_result" where
  "engine_reject e order reason =
     (let events = [Order_Rejected \<lparr>rj_order = order, rj_instrument_id = o_instrument_id order,
                      rj_order_id = o_order_id order, rj_reason = reason\<rparr>]
      in Inr (e, events, publish (en_event_sink e) events))"

definition risk_reason :: "risk_reject \<Rightarrow> reject_reason" where
  "risk_reason r =
     (if r = Notional_Limit then Risk_Notional_Limit
      else if r = Fat_Finger_Limit then Risk_Fat_Finger_Limit
      else Risk_Quantity_Limit)"

definition account_reason :: "account_reject \<Rightarrow> reject_reason" where
  "account_reason r =
     (if r = Position_Limit then Risk_Position_Limit
      else if r = Credit_Limit then Risk_Credit_Limit
      else Risk_Open_Order_Limit)"

definition place_accepted :: "engine \<Rightarrow> place_order \<Rightarrow> bool \<Rightarrow> engine call_result" where
  "place_accepted e req duplicate =
     (let ar = (if duplicate then en_account_risk e else reserve (en_account_risk e) req)
      in case en_order_books e (pl_instrument_id req) of
           None \<Rightarrow> Inl Out_Of_Range
         | Some bk \<Rightarrow>
             (case book_place_order bk (request_order req New_Order (pl_account_id req)) of
                (bk', events) \<Rightarrow>
                  Inr (e\<lparr>en_order_books := (en_order_books e)(pl_instrument_id req \<mapsto> bk'),
                         en_account_risk := risk_apply ar req events (\<not> duplicate)\<rparr>,
                       events, publish (en_event_sink e) events)))"

definition engine_place_order :: "engine \<Rightarrow> place_order \<Rightarrow> engine call_result" where
  "engine_place_order e req =
     (if registry_find (en_instruments e) (pl_instrument_id req) = None
      then engine_reject e (blank_rejected_order req) Unknown_Instrument
      else
        let valid_market_price = (pl_order_type req = Market \<and> pl_price req = 0);
            valid_limit_price = (pl_order_type req \<noteq> Market \<and> 0 <s pl_price req)
        in if (\<not> valid_market_price \<and> \<not> valid_limit_price) \<or> pl_quantity req = 0
           then engine_reject e (blank_rejected_order req) Invalid_Order
           else case risk_evaluate (en_configuration e) req of
             Inl f \<Rightarrow> Inl f
           | Inr risk_rejection \<Rightarrow>
               if risk_rejection \<noteq> Risk_None
               then engine_reject e (request_order req Rejected 0) (risk_reason risk_rejection)
               else
                 let duplicate = engine_contains_order e (pl_instrument_id req) (pl_order_id req);
                     account_rejection =
                       (if duplicate then Account_None else account_evaluate (en_account_risk e) req)
                 in if account_rejection \<noteq> Account_None
                    then engine_reject e (request_order req Rejected (pl_account_id req))
                           (account_reason account_rejection)
                    else place_accepted e req duplicate)"

definition cancel_unknown_order :: "cancel_order \<Rightarrow> order_t" where
  "cancel_unknown_order req =
     \<lparr>o_instrument_id = ca_instrument_id req, o_order_id = ca_order_id req, o_side = Buy,
      o_price = Price 0, o_quantity = Quantity 0, o_remaining_quantity = Quantity 0,
      o_status = Rejected, o_order_type = Limit, o_account_id = 0\<rparr>"

definition cancel_context :: "cancel_order \<Rightarrow> place_order" where
  "cancel_context req =
     \<lparr>pl_instrument_id = ca_instrument_id req, pl_order_id = ca_order_id req, pl_side = Buy,
      pl_price = 0, pl_quantity = 0, pl_order_type = Limit, pl_account_id = ca_account_id req\<rparr>"

definition engine_cancel_order :: "order_location \<Rightarrow> engine \<Rightarrow> cancel_order \<Rightarrow> engine call_result" where
  "engine_cancel_order stale e req =
     (if registry_find (en_instruments e) (ca_instrument_id req) = None
      then engine_reject e (cancel_unknown_order req) Unknown_Instrument
      else case en_order_books e (ca_instrument_id req) of
             None \<Rightarrow> Inl Out_Of_Range
           | Some bk \<Rightarrow>
               (case book_cancel_order stale bk req of
                  (bk', events) \<Rightarrow>
                    Inr (e\<lparr>en_order_books := (en_order_books e)(ca_instrument_id req \<mapsto> bk'),
                           en_account_risk := risk_apply (en_account_risk e) (cancel_context req) events False\<rparr>,
                         events, publish (en_event_sink e) events)))"

definition engine_account_position :: "engine \<Rightarrow> account_id \<Rightarrow> instrument_id \<Rightarrow> i64" where
  "engine_account_position e a i = account_position (en_account_risk e) a i"

definition engine_account_open_order_quantity :: "engine \<Rightarrow> account_id \<Rightarrow> u64" where
  "engine_account_open_order_quantity e a = account_open_order_quantity (en_account_risk e) a"

definition engine_account_reserved_margin :: "engine \<Rightarrow> account_id \<Rightarrow> u64" where
  "engine_account_reserved_margin e a = account_reserved_margin (en_account_risk e) a"

end
