(* ===== verification/Account_Risk_Settlement.thy ===== *)
theory Account_Risk_Settlement
  imports Account_Risk_Ledger
begin

text \<open>
  How a batch of events settles in the account risk manager. A trade is two legs, one for each
  order; a leg releases the reserved quantity and moves the position by the same amount. The
  relation \<open>settles\<close> collects what every operation after the reservation keeps: the ledger, the
  limits, the sum of all positions of an instrument, and the exposure bound.
\<close>

section \<open>Reservations as open interest\<close>

definition interest_of :: "account_risk \<Rightarrow> instrument_id \<Rightarrow> open_interest" where
  "interest_of ar i oid =
     (case ar_reservations ar (i, oid) of
        None \<Rightarrow> None | Some rv \<Rightarrow> Some (rv_side rv, rv_account_id rv, open_of rv))"

lemma interest_of_release:
  "interest_of (release ar (i, oid) q) i' =
     (if i' = i then take_from (interest_of ar i) oid (unat q) else interest_of ar i')"
proof (cases "ar_reservations ar (i, oid)")
  case None
  then show ?thesis by (simp add: release_None take_from_def interest_of_def)
next
  case (Some rv)
  have all: "min q (rv_remaining_quantity rv) = rv_remaining_quantity rv \<longleftrightarrow> open_of rv \<le> unat q"
    by (auto simp: open_of_def min_def word_le_nat_alt word_unat_eq_iff)
  have part: "unat (rv_remaining_quantity rv - min q (rv_remaining_quantity rv)) = open_of rv - unat q"
    by (simp add: unat_diff_le unat_min open_of_def)
  show ?thesis
    using all part
    by (auto simp: fun_eq_iff interest_of_def release_reservations [OF Some] take_from_def Some
        rest_of_def open_of_def)
qed

lemma interest_of_reserve:
  "interest_of (reserve ar req) i =
     (if i = pl_instrument_id req
      then (interest_of ar i)(pl_order_id req \<mapsto>
        (pl_side req, pl_account_id req, unat (pl_quantity req)))
      else interest_of ar i)"
  by (auto simp: fun_eq_iff interest_of_def reserve_reservations open_of_def)

lemma interest_of_update_position: "interest_of (update_position ar a i s q) = interest_of ar"
  by (simp add: fun_eq_iff interest_of_def risk_frame)

lemma interest_of_Some:
  "interest_of ar i oid = Some (s, a, n) \<longleftrightarrow>
     (\<exists>rv. ar_reservations ar (i, oid) = Some rv \<and> rv_side rv = s \<and> rv_account_id rv = a \<and> open_of rv = n)"
  by (auto simp: interest_of_def split: option.split)

lemma interest_of_None: "interest_of ar i oid = None \<longleftrightarrow> ar_reservations ar (i, oid) = None"
  by (auto simp: interest_of_def split: option.split)

section \<open>Limits, exposure and totals\<close>

definition within_limits :: "account_risk \<Rightarrow> bool" where
  "within_limits ar \<longleftrightarrow>
     (\<forall>a i. as_open_order_quantity (state_for ar a i) \<le> maximum_open_order_quantity (ar_configuration ar) \<and>
            as_reserved_margin (state_for ar a i) \<le> maximum_account_credit (ar_configuration ar))"

definition exposure_ok :: "account_risk \<Rightarrow> bool" where
  "exposure_ok ar \<longleftrightarrow>
     (\<forall>a i. sint (as_position (state_for ar a i)) + uint (as_buy_reserved_quantity (state_for ar a i))
              \<le> sint (position_limit (ar_configuration ar)) \<and>
            - sint (position_limit (ar_configuration ar))
              \<le> sint (as_position (state_for ar a i)) - uint (as_sell_reserved_quantity (state_for ar a i)))"

definition position_total :: "account_risk \<Rightarrow> instrument_id \<Rightarrow> i64" where
  "position_total ar i = (\<Sum>a\<in>UNIV. as_position (state_for ar a i))"

definition net_position :: "account_risk \<Rightarrow> instrument_id \<Rightarrow> int" where
  "net_position ar i = (\<Sum>a\<in>UNIV. sint (as_position (state_for ar a i)))"

text \<open>
  With a safe configuration no projected position can overflow: the position limit and the open
  order limit together stay below \<open>2 ^ 63\<close>.
\<close>

definition config_safe :: "engine_config \<Rightarrow> bool" where
  "config_safe c \<longleftrightarrow> unat (position_limit c) + unat (maximum_open_order_quantity c) < 2 ^ 63"

definition settles :: "account_risk \<Rightarrow> account_risk \<Rightarrow> bool" where
  "settles ar ar' \<longleftrightarrow>
     ledger_ok ar' \<and> within_limits ar' \<and> ar_configuration ar' = ar_configuration ar \<and>
     position_total ar' = position_total ar \<and>
     (config_safe (ar_configuration ar) \<and> exposure_ok ar \<longrightarrow> exposure_ok ar' \<and> net_position ar' = net_position ar)"

lemma settles_refl: "ledger_ok ar \<Longrightarrow> within_limits ar \<Longrightarrow> settles ar ar"
  by (simp add: settles_def)

lemma settles_trans: "settles ar ar' \<Longrightarrow> settles ar' ar'' \<Longrightarrow> settles ar ar''"
  by (simp add: settles_def)

lemma position_limit_range:
  "0 \<le> sint (position_limit c)" "sint (position_limit c) = int (unat (position_limit c))"
proof -
  have "unat (position_limit c) < 2 ^ 63"
    by (simp add: position_limit_def word_less_nat_alt)
  then show "sint (position_limit c) = int (unat (position_limit c))" by (rule sint_nonneg_unat)
  then show "0 \<le> sint (position_limit c)" by simp
qed

lemma exposureD:
  assumes "exposure_ok ar"
  defines "L \<equiv> sint (position_limit (ar_configuration ar))"
  shows "sint (as_position (state_for ar a i)) + uint (as_buy_reserved_quantity (state_for ar a i)) \<le> L"
    and "- L \<le> sint (as_position (state_for ar a i)) - uint (as_sell_reserved_quantity (state_for ar a i))"
    and "- (2 ^ 63) < - L" and "L < 2 ^ 63"
  using assms(1) sint_range64(2) [of "position_limit (ar_configuration ar)"]
  by (simp_all add: exposure_ok_def L_def)

subsection \<open>Releases\<close>

text \<open>The amounts a release takes off are covered by the totals it takes them off.\<close>

lemma release_covered:
  assumes ok: "ledger_ok ar" and R: "ar_reservations ar k = Some rv" and d: "unat d \<le> open_of rv"
  defines "st \<equiv> state_for ar (rv_account_id rv) (fst k)"
  shows "unat (as_open_order_quantity st - d) = unat (as_open_order_quantity st) - unat d"
    and "unat (as_buy_reserved_quantity st - (if rv_side rv = Buy then d else 0)) =
      unat (as_buy_reserved_quantity st) - (if rv_side rv = Buy then unat d else 0)"
    and "unat (as_sell_reserved_quantity st - (if rv_side rv = Sell then d else 0)) =
      unat (as_sell_reserved_quantity st) - (if rv_side rv = Sell then unat d else 0)"
    and "unat (as_reserved_margin st - released_margin rv d) =
      unat (as_reserved_margin st) - unat (released_margin rv d)"
    and "rv_side rv = Buy \<Longrightarrow> unat d \<le> unat (as_buy_reserved_quantity st)"
    and "rv_side rv = Sell \<Longrightarrow> unat d \<le> unat (as_sell_reserved_quantity st)"
proof -
  note mem = ledger_tracked [OF ok, THEN tracked_member, OF R, folded st_def]
  show "unat (as_open_order_quantity st - d) = unat (as_open_order_quantity st) - unat d"
    using mem(1) d by (simp add: unat_diff_le)
  show buy: "rv_side rv = Buy \<Longrightarrow> unat d \<le> unat (as_buy_reserved_quantity st)"
    using mem(2) d by (simp add: open_on_def)
  show sell: "rv_side rv = Sell \<Longrightarrow> unat d \<le> unat (as_sell_reserved_quantity st)"
    using mem(3) d by (simp add: open_on_def)
  show "unat (as_buy_reserved_quantity st - (if rv_side rv = Buy then d else 0)) =
      unat (as_buy_reserved_quantity st) - (if rv_side rv = Buy then unat d else 0)"
    using buy by (simp add: unat_diff_le)
  show "unat (as_sell_reserved_quantity st - (if rv_side rv = Sell then d else 0)) =
      unat (as_sell_reserved_quantity st) - (if rv_side rv = Sell then unat d else 0)"
    using sell by (simp add: unat_diff_le)
  have "unat (released_margin rv d) \<le> margin_of rv"
    unfolding margin_of_def
    by (rule released_margin_le)
      (use d ledger_positive [OF ok R] in \<open>simp_all add: open_of_def word_le_nat_alt\<close>)
  then show "unat (as_reserved_margin st - released_margin rv d) =
      unat (as_reserved_margin st) - unat (released_margin rv d)"
    using mem(4) by (simp add: unat_diff_le)
qed

lemma release_amount: "unat (min q (rv_remaining_quantity rv)) \<le> open_of rv"
  by (simp add: unat_min open_of_def)

lemma release_position: "as_position (state_for (release ar k q) a i) = as_position (state_for ar a i)"
  by (cases "ar_reservations ar k")
    (simp_all add: release_None release_state_for released_state_fields)

lemma settles_release:
  assumes ok: "ledger_ok ar" and lim: "within_limits ar"
  shows "settles ar (release ar k q)"
proof (cases "ar_reservations ar k")
  case None
  then show ?thesis using assms by (simp add: release_None settles_refl)
next
  case (Some rv)
  note st = release_state_for [OF Some] and cov = release_covered [OF ok Some release_amount]
  have less: "as_buy_reserved_quantity (state_for (release ar k q) a i) \<le>
        as_buy_reserved_quantity (state_for ar a i)"
      "as_sell_reserved_quantity (state_for (release ar k q) a i) \<le>
        as_sell_reserved_quantity (state_for ar a i)" for a i
    using cov(2,3) by (auto simp: st released_state_fields word_le_nat_alt)
  note pos = release_position [of ar k q]
  have "within_limits (release ar k q)"
    unfolding within_limits_def
  proof (intro allI)
    fix a i
    show "as_open_order_quantity (state_for (release ar k q) a i) \<le>
          maximum_open_order_quantity (ar_configuration (release ar k q)) \<and>
        as_reserved_margin (state_for (release ar k q) a i) \<le>
          maximum_account_credit (ar_configuration (release ar k q))"
      using lim [unfolded within_limits_def, rule_format, of a i] cov(1,4)
      by (auto simp: st released_state_fields risk_frame word_le_nat_alt)
  qed
  moreover have "exposure_ok (release ar k q)" if ex: "exposure_ok ar"
    unfolding exposure_ok_def
  proof (intro allI)
    fix a i
    show "sint (as_position (state_for (release ar k q) a i)) +
          uint (as_buy_reserved_quantity (state_for (release ar k q) a i))
          \<le> sint (position_limit (ar_configuration (release ar k q))) \<and>
        - sint (position_limit (ar_configuration (release ar k q)))
          \<le> sint (as_position (state_for (release ar k q) a i)) -
            uint (as_sell_reserved_quantity (state_for (release ar k q) a i))"
      using exposureD(1,2) [OF ex, of a i] less [of a i, unfolded word_le_def]
      by (simp add: pos risk_frame)
  qed
  ultimately show ?thesis
    using release_ledger [OF ok]
    by (simp add: settles_def fun_eq_iff position_total_def net_position_def pos risk_frame)
qed

lemma release_net: "net_position (release ar k q) = net_position ar"
  by (simp add: fun_eq_iff net_position_def release_position)

subsection \<open>Trade legs\<close>

definition settle_leg :: "account_risk \<Rightarrow> order_key \<Rightarrow> u64 \<Rightarrow> account_risk" where
  "settle_leg ar k x =
     (case ar_reservations ar k of
        None \<Rightarrow> ar
      | Some rv \<Rightarrow> update_position (release ar k x) (rv_account_id rv) (fst k) (rv_side rv) x)"

definition signed_by :: "side \<Rightarrow> 'n \<Rightarrow> 'n::ab_group_add" where
  "signed_by s x = (if s = Buy then x else - x)"

lemma signed_by_opposite: "signed_by (opposite s) x = - signed_by s x"
  by (cases s) (simp_all add: signed_by_def)

lemma update_position_state_for:
  "state_for (update_position ar a i s q) a' i' =
     (if a' = a \<and> i' = i
      then (state_for ar a i)\<lparr>as_position := as_position (state_for ar a i) + signed_by s q\<rparr>
      else state_for ar a' i')"
  by (auto simp: update_position_def risk_frame signed_by_def)

lemma update_position_untouched:
  "as_open_order_quantity (state_for (update_position ar a i s q) a' i') =
     as_open_order_quantity (state_for ar a' i')"
  "as_buy_reserved_quantity (state_for (update_position ar a i s q) a' i') =
     as_buy_reserved_quantity (state_for ar a' i')"
  "as_sell_reserved_quantity (state_for (update_position ar a i s q) a' i') =
     as_sell_reserved_quantity (state_for ar a' i')"
  "as_reserved_margin (state_for (update_position ar a i s q) a' i') =
     as_reserved_margin (state_for ar a' i')"
  by (simp_all add: update_position_state_for)

lemma ledger_update_position: "ledger_ok (update_position ar a i s q) = ledger_ok ar"
  by (simp add: ledger_ok_def tracked_def update_position_untouched risk_frame)

lemma within_limits_update_position: "within_limits (update_position ar a i s q) = within_limits ar"
  by (simp add: within_limits_def update_position_untouched risk_frame)

lemma position_total_update:
  "position_total (update_position ar a i s q) =
     (position_total ar)(i := position_total ar i + signed_by s q)"
proof
  fix i'
  have "(\<Sum>a'\<in>UNIV. as_position (state_for (update_position ar a i s q) a' i')) +
        as_position (state_for ar a i') =
      (\<Sum>a'\<in>UNIV. as_position (state_for ar a' i')) +
        as_position (state_for (update_position ar a i s q) a i')"
    by (rule sum_point_update) (simp add: update_position_state_for)
  then show "position_total (update_position ar a i s q) i' =
      ((position_total ar)(i := position_total ar i + signed_by s q)) i'"
    by (simp add: position_total_def update_position_state_for split: if_splits)
qed

lemma net_position_update:
  assumes "sint (as_position (state_for ar a i) + signed_by s q) =
    sint (as_position (state_for ar a i)) + signed_by s (uint q)"
  shows "net_position (update_position ar a i s q) =
    (net_position ar)(i := net_position ar i + signed_by s (uint q))"
proof
  fix i'
  have "(\<Sum>a'\<in>UNIV. sint (as_position (state_for (update_position ar a i s q) a' i'))) +
        sint (as_position (state_for ar a i')) =
      (\<Sum>a'\<in>UNIV. sint (as_position (state_for ar a' i'))) +
        sint (as_position (state_for (update_position ar a i s q) a i'))"
    by (rule sum_point_update) (simp add: update_position_state_for)
  then show "net_position (update_position ar a i s q) i' =
      ((net_position ar)(i := net_position ar i + signed_by s (uint q))) i'"
    using assms by (simp add: net_position_def update_position_state_for split: if_splits)
qed

lemma settle_leg_configuration [risk_frame]:
  "ar_configuration (settle_leg ar k x) = ar_configuration ar"
  by (simp add: settle_leg_def risk_frame split: option.split)

lemma settle_leg_ledger: "ledger_ok ar \<Longrightarrow> ledger_ok (settle_leg ar k x)"
  by (simp add: settle_leg_def ledger_update_position release_ledger split: option.split)

lemma settle_leg_limits: "ledger_ok ar \<Longrightarrow> within_limits ar \<Longrightarrow> within_limits (settle_leg ar k x)"
  using settles_release [of ar k x]
  by (simp add: settle_leg_def within_limits_update_position settles_def split: option.split)

lemma settle_leg_total:
  assumes "ledger_ok ar" and "within_limits ar" and "ar_reservations ar k = Some rv"
  shows "position_total (settle_leg ar k x) =
    (position_total ar)(fst k := position_total ar (fst k) + signed_by (rv_side rv) x)"
  using settles_release [OF assms(1,2), of k x] assms(3)
  by (simp add: settle_leg_def position_total_update settles_def)

lemma interest_of_settle_leg:
  "interest_of (settle_leg ar (i, oid) x) i' =
     (if i' = i then take_from (interest_of ar i) oid (unat x) else interest_of ar i')"
proof (cases "ar_reservations ar (i, oid)")
  case None
  then have "interest_of ar i oid = None" by (simp add: interest_of_None)
  then show ?thesis using None by (simp add: settle_leg_def take_from_def)
next
  case (Some rv)
  then show ?thesis by (simp add: settle_leg_def interest_of_update_position interest_of_release)
qed

text \<open>
  A leg moves a position by what it takes from the reserved quantity of that side, so the
  exposure stays within the position limit and the position does not overflow.
\<close>

lemma leg_position:
  assumes ok: "ledger_ok ar" and ex: "exposure_ok ar"
    and R: "ar_reservations ar k = Some rv" and x: "unat x \<le> open_of rv"
  shows "sint (as_position (state_for ar (rv_account_id rv) (fst k)) + signed_by (rv_side rv) x) =
    sint (as_position (state_for ar (rv_account_id rv) (fst k))) + signed_by (rv_side rv) (uint x)"
proof -
  let ?st = "state_for ar (rv_account_id rv) (fst k)"
  note cov = release_covered(5,6) [OF ok R x] and e = exposureD [OF ex]
  show ?thesis
  proof (cases "rv_side rv")
    case Buy
    then have "uint x \<le> uint (as_buy_reserved_quantity ?st)"
      using cov(1) by (simp add: word_le_nat_alt [symmetric] word_le_def [symmetric])
    then have "sint (as_position ?st + x) = sint (as_position ?st) + uint x"
      using e(1) [of "rv_account_id rv" "fst k"] e(4) sint_range64(1) [of "as_position ?st"]
        uint_ge_0 [of x]
      by (intro sint_add_uint) linarith+
    then show ?thesis using Buy by (simp add: signed_by_def)
  next
    case Sell
    then have "uint x \<le> uint (as_sell_reserved_quantity ?st)"
      using cov(2) by (simp add: word_le_nat_alt [symmetric] word_le_def [symmetric])
    then have "sint (as_position ?st - x) = sint (as_position ?st) - uint x"
      using e(2) [of "rv_account_id rv" "fst k"] e(3) sint_range64(2) [of "as_position ?st"]
        uint_ge_0 [of x]
      by (intro sint_sub_uint) linarith+
    then show ?thesis using Sell by (simp add: signed_by_def)
  qed
qed

lemma settle_leg_state_for:
  assumes "ar_reservations ar k = Some rv"
  shows "state_for (settle_leg ar k x) a i =
    (if a = rv_account_id rv \<and> i = fst k
     then (state_for (release ar k x) a i)
       \<lparr>as_position := as_position (state_for ar a i) + signed_by (rv_side rv) x\<rparr>
     else state_for ar a i)"
  using assms
  by (auto simp: settle_leg_def update_position_state_for release_state_for released_state_fields)

lemma settle_leg_reserved:
  assumes ok: "ledger_ok ar" and R: "ar_reservations ar k = Some rv" and x: "unat x \<le> open_of rv"
  defines "old \<equiv> state_for ar (rv_account_id rv) (fst k)"
    and "new \<equiv> state_for (settle_leg ar k x) (rv_account_id rv) (fst k)"
  shows "uint (as_buy_reserved_quantity new) =
      uint (as_buy_reserved_quantity old) - (if rv_side rv = Buy then uint x else 0)"
    and "uint (as_sell_reserved_quantity new) =
      uint (as_sell_reserved_quantity old) - (if rv_side rv = Sell then uint x else 0)"
proof -
  have d: "min x (rv_remaining_quantity rv) = x"
    using x by (simp add: open_of_def min_def word_le_nat_alt)
  note cov = release_covered(5,6) [OF ok R x]
  show "uint (as_buy_reserved_quantity new) =
      uint (as_buy_reserved_quantity old) - (if rv_side rv = Buy then uint x else 0)"
    and "uint (as_sell_reserved_quantity new) =
      uint (as_sell_reserved_quantity old) - (if rv_side rv = Sell then uint x else 0)"
    unfolding old_def new_def using cov
    by (auto simp: settle_leg_state_for [OF R] release_state_for [OF R] released_state_fields d
        uint_sub_lem [THEN iffD1] word_le_nat_alt [symmetric] word_le_def [symmetric])
qed

lemma settle_leg_exposure:
  assumes ok: "ledger_ok ar" and ex: "exposure_ok ar"
    and R: "ar_reservations ar k = Some rv" and x: "unat x \<le> open_of rv"
  shows "exposure_ok (settle_leg ar k x)"
  unfolding exposure_ok_def
proof (intro allI)
  fix a i
  let ?new = "state_for (settle_leg ar k x) a i" and ?old = "state_for ar a i"
  let ?L = "sint (position_limit (ar_configuration ar))"
  have "sint (as_position ?new) + uint (as_buy_reserved_quantity ?new) \<le> ?L \<and>
      - ?L \<le> sint (as_position ?new) - uint (as_sell_reserved_quantity ?new)"
  proof (cases "a = rv_account_id rv \<and> i = fst k")
    case False
    then have "?new = ?old" by (auto simp: settle_leg_state_for [OF R])
    then show ?thesis using exposureD(1,2) [OF ex, of a i] by simp
  next
    case True
    then have new: "sint (as_position ?new) = sint (as_position ?old) + signed_by (rv_side rv) (uint x)"
      using leg_position [OF ok ex R x] by (simp add: settle_leg_state_for [OF R])
    have "signed_by (rv_side rv) (uint x) = (if rv_side rv = Buy then uint x else - uint x)"
      by (cases "rv_side rv") (simp_all add: signed_by_def)
    moreover obtain u where "uint x = u" and "0 \<le> u" using uint_ge_0 by blast
    ultimately show ?thesis
      using True new settle_leg_reserved [OF ok R x] exposureD(1,2) [OF ex, of a i]
      by (cases "rv_side rv") simp_all
  qed
  then show "sint (as_position ?new) + uint (as_buy_reserved_quantity ?new)
        \<le> sint (position_limit (ar_configuration (settle_leg ar k x))) \<and>
      - sint (position_limit (ar_configuration (settle_leg ar k x)))
        \<le> sint (as_position ?new) - uint (as_sell_reserved_quantity ?new)"
    by (simp only: settle_leg_configuration)
qed

lemma settle_leg_net:
  assumes "ledger_ok ar" and "within_limits ar" and "exposure_ok ar"
    and R: "ar_reservations ar k = Some rv" and x: "unat x \<le> open_of rv"
  shows "net_position (settle_leg ar k x) =
    (net_position ar)(fst k := net_position ar (fst k) + signed_by (rv_side rv) (uint x))"
proof -
  let ?r = "release ar k x" and ?a = "rv_account_id rv"
  have "as_position (state_for ?r ?a (fst k)) = as_position (state_for ar ?a (fst k))"
    by (simp add: release_state_for [OF R] released_state_fields)
  then have "net_position (update_position ?r ?a (fst k) (rv_side rv) x) =
      (net_position ?r)(fst k := net_position ?r (fst k) + signed_by (rv_side rv) (uint x))"
    using leg_position [OF assms(1,3) R x] by (intro net_position_update) simp
  then show ?thesis
    using release_net [of ar k x] R by (simp add: settle_leg_def)
qed

lemma settle_leg_position:
  assumes "ar_reservations ar k = Some rv"
  shows "as_position (state_for (settle_leg ar k x) a i) = as_position (state_for ar a i) +
    (if a = rv_account_id rv \<and> i = fst k then signed_by (rv_side rv) x else 0)"
  by (simp add: settle_leg_state_for [OF assms])

subsection \<open>Trades and batches\<close>

text \<open>How a list of trades of an order on side \<open>s\<close> moves the position of an account.\<close>

definition trade_move :: "side \<Rightarrow> account_id \<Rightarrow> trade_executed \<Rightarrow> i64" where
  "trade_move s a t =
     (if t_incoming_account_id (te_trade t) = a then signed_by s (te_execution_quantity t) else 0) +
     (if t_resting_account_id (te_trade t) = a then signed_by (opposite s) (te_execution_quantity t) else 0)"

definition moved_by :: "side \<Rightarrow> account_id \<Rightarrow> trade_executed list \<Rightarrow> i64" where
  "moved_by s a ts = (\<Sum>t\<leftarrow>ts. trade_move s a t)"

lemma settles_trade:
  assumes ok: "ledger_ok ar" and lim: "within_limits ar"
    and own: "interest_of ar i oid = Some (s, a, n)" and other: "interest_of ar i rid = Some (opposite s, b, m)"
    and x: "unat x \<le> n" "unat x \<le> m"
  shows "settles ar (settle_leg (settle_leg ar (i, oid) x) (i, rid) x)"
    and "as_position (state_for (settle_leg (settle_leg ar (i, oid) x) (i, rid) x) c j) =
      as_position (state_for ar c j) +
      (if j = i then (if a = c then signed_by s x else 0) + (if b = c then signed_by (opposite s) x else 0)
       else 0)"
proof -
  let ?ar1 = "settle_leg ar (i, oid) x"
  obtain rv where rv: "ar_reservations ar (i, oid) = Some rv" "rv_side rv = s" "open_of rv = n"
      "rv_account_id rv = a"
    using own by (auto simp: interest_of_Some)
  have "rid \<noteq> oid" using own other by (cases s) auto
  then have "interest_of ?ar1 i rid = Some (opposite s, b, m)"
    using other by (simp add: interest_of_settle_leg)
  then obtain rw where rw: "ar_reservations ?ar1 (i, rid) = Some rw" "rv_side rw = opposite s"
      "open_of rw = m" "rv_account_id rw = b"
    by (auto simp: interest_of_Some)
  note ok1 = settle_leg_ledger [OF ok, of "(i, oid)" x]
    and lim1 = settle_leg_limits [OF ok lim, of "(i, oid)" x]
  have total: "position_total (settle_leg ?ar1 (i, rid) x) = position_total ar"
    by (simp add: settle_leg_total [OF ok1 lim1 rw(1)] settle_leg_total [OF ok lim rv(1)]
        rv(2) rw(2) signed_by_opposite fun_eq_iff)
  have "exposure_ok (settle_leg ?ar1 (i, rid) x) \<and>
      net_position (settle_leg ?ar1 (i, rid) x) = net_position ar" if ex: "exposure_ok ar"
  proof -
    have ex1: "exposure_ok ?ar1" by (rule settle_leg_exposure [OF ok ex rv(1)]) (simp add: rv(3) x)
    have m: "unat x \<le> open_of rw" "unat x \<le> open_of rv" using x rw(3) rv(3) by simp_all
    show ?thesis
      using settle_leg_exposure [OF ok1 ex1 rw(1) m(1)]
      by (simp add: settle_leg_net [OF ok1 lim1 ex1 rw(1) m(1)] settle_leg_net [OF ok lim ex rv(1) m(2)]
          rv(2) rw(2) signed_by_opposite fun_eq_iff)
  qed
  then show "settles ar (settle_leg ?ar1 (i, rid) x)"
    using total settle_leg_ledger [OF ok1] settle_leg_limits [OF ok1 lim1]
    by (simp add: settles_def risk_frame)
  show "as_position (state_for (settle_leg ?ar1 (i, rid) x) c j) = as_position (state_for ar c j) +
      (if j = i then (if a = c then signed_by s x else 0) + (if b = c then signed_by (opposite s) x else 0)
       else 0)"
    by (auto simp: settle_leg_position [OF rw(1)] settle_leg_position [OF rv(1)] rv rw)
qed

lemma apply_event_trade:
  assumes "ledger_ok ar"
    and "interest_of ar i oid = Some (s, a, n)" and "interest_of ar i rid = Some (opposite s, b, m)"
    and "pl_instrument_id req = i" "pl_order_id req = oid" "pl_account_id req = a" "pl_side req = s"
    and "te_instrument_id t = i" "te_resting_order_id t = rid"
  shows "apply_event req True ar (Trade_Executed t) =
    settle_leg (settle_leg ar (i, oid) (te_execution_quantity t)) (i, rid) (te_execution_quantity t)"
proof -
  let ?x = "te_execution_quantity t"
  let ?ar1 = "settle_leg ar (i, oid) ?x"
  have leg: "?ar1 = update_position (release ar (i, oid) ?x) a i s ?x"
    using assms(2) by (auto simp: interest_of_Some settle_leg_def)
  have "apply_event req True ar (Trade_Executed t) =
      (case ar_reservations ?ar1 (i, rid) of
         None \<Rightarrow> ?ar1
       | Some rv \<Rightarrow> update_position (release ?ar1 (i, rid) ?x) (rv_account_id rv) i (rv_side rv) ?x)"
    using assms(4-) by (simp add: leg [symmetric] Let_def cong: option.case_cong)
  then show ?thesis unfolding settle_leg_def [of ?ar1] fst_conv .
qed

text \<open>
  Induction over the backed trades of an order whose quantity is reserved: at every trade both
  orders have the quantity open, and the event settles one leg after the other.
\<close>

lemma trades_induct:
  assumes "ledger_ok ar" and "within_limits ar"
    and "backed (interest_of ar i) s oid ts"
    and "\<And>s' a' n. interest_of ar i oid = Some (s', a', n) \<Longrightarrow> a' = pl_account_id req"
    and req: "pl_instrument_id req = i" "pl_order_id req = oid" "pl_side req = s"
    and "\<forall>t \<in> set ts. te_instrument_id t = i \<and> t_incoming_account_id (te_trade t) = pl_account_id req"
    and Nil: "\<And>ar. ledger_ok ar \<Longrightarrow> within_limits ar \<Longrightarrow> P ar []"
    and Cons: "\<And>ar t ts n m. ledger_ok ar \<Longrightarrow> within_limits ar \<Longrightarrow>
      interest_of ar i oid = Some (s, pl_account_id req, n) \<Longrightarrow>
      interest_of ar i (te_resting_order_id t) = Some (opposite s, t_resting_account_id (te_trade t), m) \<Longrightarrow>
      unat (te_execution_quantity t) \<le> n \<Longrightarrow> unat (te_execution_quantity t) \<le> m \<Longrightarrow>
      t_incoming_account_id (te_trade t) = pl_account_id req \<Longrightarrow>
      apply_event req True ar (Trade_Executed t) =
        settle_leg (settle_leg ar (i, oid) (te_execution_quantity t))
          (i, te_resting_order_id t) (te_execution_quantity t) \<Longrightarrow>
      P (settle_leg (settle_leg ar (i, oid) (te_execution_quantity t))
          (i, te_resting_order_id t) (te_execution_quantity t)) ts \<Longrightarrow>
      P ar (t # ts)"
  shows "P ar ts"
  using assms(1-4,8)
proof (induction ts arbitrary: ar)
  case Nil
  then show ?case by (intro assms(9))
next
  case (Cons t ts)
  let ?x = "te_execution_quantity t" and ?rid = "te_resting_order_id t"
  let ?ar' = "settle_leg (settle_leg ar (i, oid) ?x) (i, ?rid) ?x"
  obtain n where own: "interest_of ar i oid = Some (s, pl_account_id req, n)" "unat ?x \<le> n"
    using Cons.prems(3,4) by (auto simp: Let_def split: option.splits)
  obtain m where other: "interest_of ar i ?rid = Some (opposite s, t_resting_account_id (te_trade t), m)"
      "unat ?x \<le> m"
    using Cons.prems(3) by (auto simp: Let_def split: option.splits)
  have ids: "te_instrument_id t = i" "t_incoming_account_id (te_trade t) = pl_account_id req"
    using Cons.prems(5) by simp_all
  have ev: "apply_event req True ar (Trade_Executed t) = ?ar'"
    by (rule apply_event_trade [OF Cons.prems(1) own(1) other(1) req(1,2) refl req(3) ids(1) refl])
  have int1: "interest_of ?ar' i = take_from (take_from (interest_of ar i) oid (unat ?x)) ?rid (unat ?x)"
    by (simp add: interest_of_settle_leg)
  have "P ?ar' ts"
  proof (rule Cons.IH)
    show "ledger_ok ?ar'" "within_limits ?ar'"
      using settles_trade(1) [OF Cons.prems(1,2) own(1) other(1) own(2) other(2)]
      by (simp_all add: settles_def)
    show "backed (interest_of ?ar' i) s oid ts" using Cons.prems(3) by (simp add: int1 Let_def)
    show "a' = pl_account_id req" if "interest_of ?ar' i oid = Some (s', a', n)" for s' a' n
      using that own other by (auto simp: int1 take_from_def split: if_splits)
    show "\<forall>t \<in> set ts. te_instrument_id t = i \<and> t_incoming_account_id (te_trade t) = pl_account_id req"
      using Cons.prems(5) by simp
  qed
  then show ?case
    by (rule assms(10) [OF Cons.prems(1,2) own(1) other(1) own(2) other(2) ids(2) ev])
qed

text \<open>The state of the risk manager after backed trades of an order whose quantity is reserved.\<close>

lemma apply_trades:
  assumes "ledger_ok ar" and "within_limits ar"
    and "backed (interest_of ar i) s oid ts"
    and "\<And>s' a' n. interest_of ar i oid = Some (s', a', n) \<Longrightarrow> a' = pl_account_id req"
    and req: "pl_instrument_id req = i" "pl_order_id req = oid" "pl_side req = s"
    and "\<forall>t \<in> set ts. te_instrument_id t = i \<and> t_incoming_account_id (te_trade t) = pl_account_id req"
  shows "settles ar (foldl (apply_event req True) ar (map Trade_Executed ts)) \<and>
    interest_of (foldl (apply_event req True) ar (map Trade_Executed ts)) =
      (interest_of ar)(i := consume (interest_of ar i) oid ts) \<and>
    (\<forall>c j. as_position (state_for (foldl (apply_event req True) ar (map Trade_Executed ts)) c j) =
      as_position (state_for ar c j) + (if j = i then moved_by s c ts else 0))"
  using assms
proof (rule trades_induct)
  fix ar
  assume "ledger_ok ar" "within_limits ar"
  then show "settles ar (foldl (apply_event req True) ar (map Trade_Executed [])) \<and>
    interest_of (foldl (apply_event req True) ar (map Trade_Executed [])) =
      (interest_of ar)(i := consume (interest_of ar i) oid []) \<and>
    (\<forall>c j. as_position (state_for (foldl (apply_event req True) ar (map Trade_Executed [])) c j) =
      as_position (state_for ar c j) + (if j = i then moved_by s c [] else 0))"
    by (simp add: settles_refl moved_by_def)
next
  fix ar and t :: trade_executed and ts n m
  let ?x = "te_execution_quantity t" and ?rid = "te_resting_order_id t"
  let ?ar' = "settle_leg (settle_leg ar (i, oid) ?x) (i, ?rid) ?x"
  assume ok: "ledger_ok ar" "within_limits ar"
    and own: "interest_of ar i oid = Some (s, pl_account_id req, n)"
    and other: "interest_of ar i ?rid = Some (opposite s, t_resting_account_id (te_trade t), m)"
    and x: "unat ?x \<le> n" "unat ?x \<le> m" and id: "t_incoming_account_id (te_trade t) = pl_account_id req"
    and ev: "apply_event req True ar (Trade_Executed t) = ?ar'"
    and IH: "settles ?ar' (foldl (apply_event req True) ?ar' (map Trade_Executed ts)) \<and>
      interest_of (foldl (apply_event req True) ?ar' (map Trade_Executed ts)) =
        (interest_of ?ar')(i := consume (interest_of ?ar' i) oid ts) \<and>
      (\<forall>c j. as_position (state_for (foldl (apply_event req True) ?ar' (map Trade_Executed ts)) c j) =
        as_position (state_for ?ar' c j) + (if j = i then moved_by s c ts else 0))"
  note trade = settles_trade [OF ok own other x]
  have pos1: "as_position (state_for ?ar' c j) =
      as_position (state_for ar c j) + (if j = i then trade_move s c t else 0)" for c j
    by (simp add: trade(2) trade_move_def id)
  have int1: "interest_of ?ar' =
      (interest_of ar)(i := take_from (take_from (interest_of ar i) oid (unat ?x)) ?rid (unat ?x))"
    by (auto simp: fun_eq_iff interest_of_settle_leg)
  show "settles ar (foldl (apply_event req True) ar (map Trade_Executed (t # ts))) \<and>
    interest_of (foldl (apply_event req True) ar (map Trade_Executed (t # ts))) =
      (interest_of ar)(i := consume (interest_of ar i) oid (t # ts)) \<and>
    (\<forall>c j. as_position (state_for (foldl (apply_event req True) ar (map Trade_Executed (t # ts))) c j) =
      as_position (state_for ar c j) + (if j = i then moved_by s c (t # ts) else 0))"
    using IH trade(1)
    by (auto simp: ev int1 pos1 moved_by_def simp del: apply_event.simps(1) intro: settles_trans)
qed

lemma settles_final:
  assumes "settles ar ar'"
  shows "settles ar (release ar' k q)"
  using assms settles_release [of ar' k q] by (auto simp: settles_def)

text \<open>A whole accepted order: its reservation is in place, then its batch is applied.\<close>

lemma risk_apply_accepted:
  fixes ac :: order_accepted
  assumes ok: "ledger_ok ar" and lim: "within_limits ar"
    and V: "interest_of ar (pl_instrument_id req) (pl_order_id req) =
      Some (pl_side req, pl_account_id req, unat (pl_quantity req))"
    and backed: "backed (interest_of ar (pl_instrument_id req)) (pl_side req) (pl_order_id req) ts"
    and ts: "\<forall>t \<in> set ts. te_instrument_id t = pl_instrument_id req \<and>
      t_incoming_account_id (te_trade t) = pl_account_id req"
  defines "ar' \<equiv> risk_apply ar req (Order_Accepted ac # map Trade_Executed ts) True"
    and "V' \<equiv> consume (interest_of ar (pl_instrument_id req)) (pl_order_id req) ts"
  shows "settles ar ar'"
    and "interest_of ar' = (interest_of ar)(pl_instrument_id req :=
      (if is_immediate (pl_order_type req) then V'(pl_order_id req := None) else V'))"
    and "as_position (state_for ar' c j) = as_position (state_for ar c j) +
      (if j = pl_instrument_id req then moved_by (pl_side req) c ts else 0)"
proof -
  let ?ar1 = "foldl (apply_event req True) ar (map Trade_Executed ts)"
  have tr: "settles ar ?ar1 \<and> interest_of ?ar1 = (interest_of ar)(pl_instrument_id req := V') \<and>
      (\<forall>c j. as_position (state_for ?ar1 c j) = as_position (state_for ar c j) +
        (if j = pl_instrument_id req then moved_by (pl_side req) c ts else 0))"
    unfolding V'_def using V backed ts by (intro apply_trades [OF ok lim]) auto
  have ar': "ar' = (if is_immediate (pl_order_type req)
      then release ?ar1 (pl_instrument_id req, pl_order_id req) (pl_quantity req) else ?ar1)"
    by (auto simp: ar'_def risk_apply_def is_immediate_def)
  show "settles ar ar'" using tr by (auto simp: ar' intro: settles_final)
  show "as_position (state_for ar' c j) = as_position (state_for ar c j) +
      (if j = pl_instrument_id req then moved_by (pl_side req) c ts else 0)"
    using tr by (simp add: ar' release_position)
  have drop: "take_from V' (pl_order_id req) (unat (pl_quantity req)) = V'(pl_order_id req := None)"
    using consume_bounded [of "interest_of ar (pl_instrument_id req)" "pl_order_id req"
        "pl_side req" "pl_account_id req" "unat (pl_quantity req)" "pl_order_id req" ts] V
    by (auto simp: V'_def take_from_def fun_eq_iff split: option.split)
  show "interest_of ar' = (interest_of ar)(pl_instrument_id req :=
      (if is_immediate (pl_order_type req) then V'(pl_order_id req := None) else V'))"
    using drop tr [THEN conjunct2, THEN conjunct1] by (simp add: ar' interest_of_release [abs_def] fun_eq_iff [of "interest_of _"])
qed

end
