(* ===== verification/Account_Risk_Properties.thy ===== *)
theory Account_Risk_Properties
  imports Account_Risk_Settlement
begin

text \<open>
  The admission side of the account risk manager: reserving an admitted order keeps the ledger,
  the limits and the exposure; giving a whole reservation back restores every observable; and
  the checks of \<open>evaluate\<close> are exact in integer arithmetic under a safe configuration.
\<close>

section \<open>Reserving an admitted order\<close>

lemma reserve_limits:
  assumes "ledger_ok ar" and "within_limits ar" and ev: "account_evaluate ar req = Account_None"
  shows "within_limits (reserve ar req)"
  unfolding within_limits_def
proof (intro allI)
  fix a i
  note adm = account_evaluate_admits [OF ev]
  have cap: "x + y \<le> m" if "y \<le> m" "x \<le> m - y" for x y m :: u64
  proof -
    have "unat x \<le> unat m - unat y" "unat y \<le> unat m"
      using that by (simp_all add: word_le_nat_alt unat_sub)
    then show ?thesis using unat_add_capped [OF that] by (simp add: word_le_nat_alt)
  qed
  show "as_open_order_quantity (state_for (reserve ar req) a i) \<le>
        maximum_open_order_quantity (ar_configuration (reserve ar req)) \<and>
      as_reserved_margin (state_for (reserve ar req) a i) \<le>
        maximum_account_credit (ar_configuration (reserve ar req))"
    using assms(2) [unfolded within_limits_def, rule_format, of a i]
      cap [OF adm(1,2)] cap [OF adm(5,6)]
    by (auto simp: reserve_state_for reserved_state_fields risk_frame)
qed

lemma reserve_position: "as_position (state_for (reserve ar req) a i) = as_position (state_for ar a i)"
  by (simp add: reserve_state_for reserved_state_fields)

text \<open>Under a safe configuration both projected positions are the true sums.\<close>

lemma projected_exact:
  assumes ok: "ledger_ok ar" and lim: "within_limits ar" and ex: "exposure_ok ar"
    and safe: "config_safe (ar_configuration ar)"
    and q: "pl_quantity req \<le> maximum_open_order_quantity (ar_configuration ar)"
  defines "st \<equiv> state_for ar (pl_account_id req) (pl_instrument_id req)"
  shows "sint (projected_buy_position st req) =
      sint (as_position st) + uint (as_buy_reserved_quantity st) +
      (if pl_side req = Buy then uint (pl_quantity req) else 0)"
    and "sint (projected_sell_position st req) =
      sint (as_position st) - uint (as_sell_reserved_quantity st) -
      (if pl_side req = Sell then uint (pl_quantity req) else 0)"
    and "sint (- position_limit (ar_configuration ar)) = - sint (position_limit (ar_configuration ar))"
proof -
  let ?L = "sint (position_limit (ar_configuration ar))"
  note e = exposureD(1,2) [OF ex, of "pl_account_id req" "pl_instrument_id req", folded st_def]
    exposureD(3,4) [OF ex]
  have uq: "uint (pl_quantity req) \<le> uint (maximum_open_order_quantity (ar_configuration ar))"
    using q by (simp add: word_le_def)
  have "int (unat (position_limit (ar_configuration ar)) +
      unat (maximum_open_order_quantity (ar_configuration ar))) < int (2 ^ 63)"
    using safe unfolding config_safe_def by (simp only: of_nat_less_iff)
  then have top: "?L + uint (maximum_open_order_quantity (ar_configuration ar)) < 2 ^ 63"
    by (simp add: position_limit_range(2))
  note z = uint_ge_0 [of "pl_quantity req"] uint_ge_0 [of "as_buy_reserved_quantity st"]
    uint_ge_0 [of "as_sell_reserved_quantity st"]
    sint_range64 [of "as_position st"] position_limit_range(1) [of "ar_configuration ar"]
  have b: "sint (as_position st + as_buy_reserved_quantity st) =
      sint (as_position st) + uint (as_buy_reserved_quantity st)"
    by (rule sint_add_uint) (use e z in linarith)+
  have s: "sint (as_position st - as_sell_reserved_quantity st) =
      sint (as_position st) - uint (as_sell_reserved_quantity st)"
    by (rule sint_sub_uint) (use e z in linarith)+
  have bq: "sint (as_position st + as_buy_reserved_quantity st + pl_quantity req) =
      sint (as_position st + as_buy_reserved_quantity st) + uint (pl_quantity req)"
    by (rule sint_add_uint) (use b e z uq top in linarith)+
  have sq: "sint (as_position st - as_sell_reserved_quantity st - pl_quantity req) =
      sint (as_position st - as_sell_reserved_quantity st) - uint (pl_quantity req)"
    by (rule sint_sub_uint) (use s e z uq top in linarith)+
  show "sint (projected_buy_position st req) =
      sint (as_position st) + uint (as_buy_reserved_quantity st) +
      (if pl_side req = Buy then uint (pl_quantity req) else 0)"
    by (simp add: projected_buy_position_def b bq)
  show "sint (projected_sell_position st req) =
      sint (as_position st) - uint (as_sell_reserved_quantity st) -
      (if pl_side req = Sell then uint (pl_quantity req) else 0)"
    by (simp add: projected_sell_position_def s sq)
  have "sint (0 - position_limit (ar_configuration ar)) =
      sint (0 :: i64) - sint (position_limit (ar_configuration ar))"
    by (rule sint_sub_small) (use e z in simp_all)
  then show "sint (- position_limit (ar_configuration ar)) = - ?L" by simp
qed

lemma reserve_exposure:
  assumes ok: "ledger_ok ar" and lim: "within_limits ar" and ex: "exposure_ok ar"
    and safe: "config_safe (ar_configuration ar)" and ev: "account_evaluate ar req = Account_None"
  shows "exposure_ok (reserve ar req)"
  unfolding exposure_ok_def
proof (intro allI)
  fix a i
  let ?st = "state_for ar (pl_account_id req) (pl_instrument_id req)"
  note adm = account_evaluate_admits [OF ev] and nw = reserve_no_overflow [OF ok ev]
  note pr = projected_exact [OF ok lim ex safe adm(1)]
  have u: "uint x = int (unat x)" for x :: u64 by simp
  have buy: "uint (as_buy_reserved_quantity ?st + pl_quantity req) =
      uint (as_buy_reserved_quantity ?st) + uint (pl_quantity req)"
    unfolding u nw(2) by simp
  have sell: "uint (as_sell_reserved_quantity ?st + pl_quantity req) =
      uint (as_sell_reserved_quantity ?st) + uint (pl_quantity req)"
    unfolding u nw(3) by simp
  show "sint (as_position (state_for (reserve ar req) a i)) +
        uint (as_buy_reserved_quantity (state_for (reserve ar req) a i))
        \<le> sint (position_limit (ar_configuration (reserve ar req))) \<and>
      - sint (position_limit (ar_configuration (reserve ar req)))
        \<le> sint (as_position (state_for (reserve ar req) a i)) -
          uint (as_sell_reserved_quantity (state_for (reserve ar req) a i))"
    using exposureD(1,2) [OF ex, of a i] adm(3,4) pr buy sell
    by (cases "pl_side req") (auto simp: reserve_state_for reserved_state_fields risk_frame)
qed

lemma settles_reserve:
  assumes "ledger_ok ar" and "within_limits ar" and "account_evaluate ar req = Account_None"
    and "ar_reservations ar (pl_instrument_id req, pl_order_id req) = None" and "0 < pl_quantity req"
  shows "settles ar (reserve ar req)"
  using reserve_ledger [OF assms(1,3-5)] reserve_limits [OF assms(1-3)]
    reserve_exposure [OF assms(1,2) _ _ assms(3)]
  by (simp add: settles_def risk_frame position_total_def net_position_def reserve_position fun_eq_iff)

section \<open>The account checks\<close>

lemma account_evaluate_exact:
  assumes "ledger_ok ar" and "within_limits ar" and "exposure_ok ar"
    and "config_safe (ar_configuration ar)"
  shows "account_evaluate ar req =
    (let c = ar_configuration ar; st = state_for ar (pl_account_id req) (pl_instrument_id req);
         q = uint (pl_quantity req)
     in if uint (as_open_order_quantity st) + q > uint (maximum_open_order_quantity c)
        then Open_Order_Limit
        else if sint (as_position st) + uint (as_buy_reserved_quantity st) +
               (if pl_side req = Buy then q else 0) > sint (position_limit c) \<or>
             sint (as_position st) - uint (as_sell_reserved_quantity st) -
               (if pl_side req = Sell then q else 0) < - sint (position_limit c)
        then Position_Limit
        else if uint (as_reserved_margin st) + uint (margin_for c req) > uint (maximum_account_credit c)
        then Credit_Limit
        else Account_None)"
proof -
  let ?c = "ar_configuration ar" and ?q = "pl_quantity req"
  let ?st = "state_for ar (pl_account_id req) (pl_instrument_id req)"
  have cap: "(y > m \<or> x > m - y) \<longleftrightarrow> uint x + uint y > uint m" for x y m :: u64
  proof (cases "y \<le> m")
    case True
    then have "uint (m - y) = uint m - uint y" by (simp add: uint_sub_lem [THEN iffD1] word_le_def)
    then show ?thesis using True by (auto simp: word_less_def word_le_def)
  next
    case False
    then have "m < y" and "uint m < uint y" by (simp_all add: not_le word_less_def)
    moreover from this have "uint m < uint x + uint y" using uint_ge_0 [of x] by linarith
    ultimately show ?thesis by blast
  qed
  show ?thesis
  proof (cases "uint (as_open_order_quantity ?st) + uint ?q > uint (maximum_open_order_quantity ?c)")
    case True
    then show ?thesis by (simp add: account_evaluate_def Let_def cap)
  next
    case False
    then have q: "?q \<le> maximum_open_order_quantity ?c"
      using cap [of "maximum_open_order_quantity ?c" ?q "as_open_order_quantity ?st"]
      by (simp add: not_less)
    have "unat ?q < 2 ^ 63"
      using q assms(4) by (simp add: config_safe_def word_le_nat_alt)
    then have small: "\<not> i64_max < ?q" by (simp add: word_less_nat_alt)
    note pr = projected_exact [OF assms q]
    show ?thesis
      using False small pr by (simp add: account_evaluate_def Let_def cap word_sless_alt)
  qed
qed

text \<open>
  The account checks are exact. On a state that satisfies the ledger invariant and the
  exposure bound, with a configuration whose position limit and open order limit together stay
  below \<open>2 ^ 63\<close>, \<open>evaluate\<close> computes in wrapping 64-bit arithmetic exactly the four limits in
  true integer arithmetic, in this order: open quantity, projected long and short position
  with all resting orders of the side filled, and reserved margin.
\<close>

theorem account_limits_exact:
  assumes "ledger_ok ar" and "within_limits ar" and "exposure_ok ar"
    and "config_safe (ar_configuration ar)"
  shows "account_evaluate ar req =
    (let c = ar_configuration ar; st = state_for ar (pl_account_id req) (pl_instrument_id req);
         q = uint (pl_quantity req)
     in if uint (as_open_order_quantity st) + q > uint (maximum_open_order_quantity c)
        then Open_Order_Limit
        else if sint (as_position st) + uint (as_buy_reserved_quantity st) +
               (if pl_side req = Buy then q else 0) > sint (position_limit c) \<or>
             sint (as_position st) - uint (as_sell_reserved_quantity st) -
               (if pl_side req = Sell then q else 0) < - sint (position_limit c)
        then Position_Limit
        else if uint (as_reserved_margin st) + uint (margin_for c req) > uint (maximum_account_credit c)
        then Credit_Limit
        else Account_None)"
  using assms by (rule account_evaluate_exact)

definition demo_risk :: account_risk where
  "demo_risk = new_account_risk
     (default_config\<lparr>maximum_position_quantity := 10, maximum_open_order_quantity := 20,
        maximum_account_credit := 1000\<rparr>)"

lemma new_account_risk_ok:
  "ledger_ok (new_account_risk c)" "within_limits (new_account_risk c)"
  "exposure_ok (new_account_risk c)" "net_position (new_account_risk c) i = 0"
  "position_total (new_account_risk c) i = 0" "interest_of (new_account_risk c) i = Map.empty"
  using position_limit_range(1) [of c]
  by (simp_all add: ledger_ok_def tracked_def within_limits_def exposure_ok_def new_account_risk_def
      state_for_def zero_state_def net_position_def position_total_def interest_of_def fun_eq_iff)

theorem account_limits_exact_witness:
  "account_evaluate demo_risk (demo_request 1 Buy 100 11 Limit 7) = Position_Limit \<and>
   account_evaluate demo_risk (demo_request 2 Sell 100 10 Limit 7) = Account_None \<and>
   account_evaluate demo_risk (demo_request 3 Sell 101 10 Limit 7) = Credit_Limit \<and>
   account_evaluate demo_risk (demo_request 4 Sell 1 21 Limit 7) = Open_Order_Limit"
proof -
  have safe: "config_safe (ar_configuration demo_risk)"
    by (simp add: config_safe_def demo_risk_def new_account_risk_def position_limit_def)
  note exact = account_limits_exact [OF new_account_risk_ok(1-3), of "ar_configuration demo_risk"]
  have new: "new_account_risk (ar_configuration demo_risk) = demo_risk"
    by (simp add: demo_risk_def new_account_risk_def)
  show ?thesis
    using exact [unfolded new, OF safe]
    by (simp add: demo_risk_def new_account_risk_def state_for_def zero_state_def demo_request_def
        position_limit_def margin_for_def saturated_multiply_def default_config_def)
qed

text \<open>
  Without a safe configuration the sums overflow. With the default limits, the largest values, an
  account that has reserved a buy of the largest signed quantity is asked for one more: the true
  projected position is no signed 64-bit number, so the addition in the source is undefined.
  Where it wraps, as here, it gives a negative number that passes the comparison.
\<close>

lemma position_check_overflows_by_default:
  "let ar = reserve (new_account_risk default_config) (demo_request 1 Buy 1 i64_max Limit 7);
       req = demo_request 2 Buy 1 1 Limit 7;
       st = state_for ar 7 1
   in account_evaluate (new_account_risk default_config) (demo_request 1 Buy 1 i64_max Limit 7) = Account_None \<and>
      account_evaluate ar req = Account_None \<and>
      sint (position_limit (ar_configuration ar)) <
        sint (as_position st) + uint (as_buy_reserved_quantity st) + uint (pl_quantity req)"
  by (simp add: account_evaluate_def Let_def reserve_state_for reserved_state_fields risk_frame
      new_account_risk_def state_for_def [of "\<lparr>ar_configuration = _, ar_account_states = _,
        ar_reservations = _\<rparr>"] zero_state_def
      demo_request_def default_config_def position_limit_def margin_for_def saturated_multiply_def
      projected_buy_position_def projected_sell_position_def word_sless_alt)

section \<open>Releasing margin\<close>

text \<open>Releasing everything, and releasing a part, of one reservation.\<close>

lemma release_reserved_margin:
  assumes "ar_reservations ar k = Some rv"
  shows "as_reserved_margin (state_for (release ar k q) (rv_account_id rv) (fst k)) =
    as_reserved_margin (state_for ar (rv_account_id rv) (fst k)) -
    released_margin rv (min q (rv_remaining_quantity rv))"
  by (simp add: release_state_for [OF assms] released_state_fields)

lemma release_whole:
  assumes ok: "ledger_ok ar" and rv: "ar_reservations ar k = Some rv"
    and q: "unat (rv_remaining_quantity rv) \<le> unat q"
  shows "ar_reservations (release ar k q) k = None"
    and "unat (as_reserved_margin (state_for (release ar k q) (rv_account_id rv) (fst k))) +
        unat (rv_reserved_margin rv) =
      unat (as_reserved_margin (state_for ar (rv_account_id rv) (fst k)))"
proof -
  have m: "min q (rv_remaining_quantity rv) = rv_remaining_quantity rv"
    using q by (simp add: min_def word_le_nat_alt word_unat_eq_iff)
  show "ar_reservations (release ar k q) k = None"
    by (simp add: release_reservations [OF rv] m rest_of_def)
  have "unat (rv_reserved_margin rv) \<le> unat (as_reserved_margin (state_for ar (rv_account_id rv) (fst k)))"
    using ledger_tracked(4) [OF ok, THEN tracked_member, OF rv] by (simp add: margin_of_def)
  then show "unat (as_reserved_margin (state_for (release ar k q) (rv_account_id rv) (fst k))) +
        unat (rv_reserved_margin rv) =
      unat (as_reserved_margin (state_for ar (rv_account_id rv) (fst k)))"
    using release_covered(4) [OF ok rv, of "rv_remaining_quantity rv"]
    by (simp add: release_reserved_margin [OF rv] m released_margin_def open_of_def)
qed

text \<open>
  The share of the margin that a part \<open>q\<close> of \<open>n\<close> frees: whole units of margin for each unit of
  quantity, and the integer part of what the remainder contributes, whose product with \<open>q\<close> is
  capped at the largest 64-bit number.
\<close>

definition freed_margin :: "nat \<Rightarrow> nat \<Rightarrow> nat \<Rightarrow> nat" where
  "freed_margin margin q n = margin div n * q + min (2 ^ 64 - 1) (margin mod n * q) div n"

lemma freed_margin_share:
  assumes "0 < n"
  shows "freed_margin margin q n \<le> margin * q div n"
    and "margin mod n * q < 2 ^ 64 \<Longrightarrow> freed_margin margin q n = margin * q div n"
proof -
  have "margin * q = (margin div n * n + margin mod n) * q" by (simp only: div_mult_mod_eq)
  also have "\<dots> = margin mod n * q + margin div n * q * n" by (simp only: algebra_simps)
  finally have share: "margin * q div n = margin div n * q + margin mod n * q div n" using assms by simp
  have "min (2 ^ 64 - 1) (margin mod n * q) div n \<le> margin mod n * q div n" by (rule div_le_mono) simp
  then show "freed_margin margin q n \<le> margin * q div n" by (simp only: freed_margin_def share)
  show "freed_margin margin q n = margin * q div n" if "margin mod n * q < 2 ^ 64"
    unfolding freed_margin_def share using that by simp
qed

lemma release_part:
  assumes ok: "ledger_ok ar" and rv: "ar_reservations ar k = Some rv" and q0: "0 < q"
  defines "margin \<equiv> unat (rv_reserved_margin rv)" and "open \<equiv> unat (rv_remaining_quantity rv)"
  assumes q: "unat q < open"
  shows "\<exists>rv'. ar_reservations (release ar k q) k = Some rv' \<and>
      unat (rv_remaining_quantity rv') = open - unat q \<and>
      unat (rv_reserved_margin rv') = margin - freed_margin margin (unat q) open"
    and "unat (as_reserved_margin (state_for (release ar k q) (rv_account_id rv) (fst k))) +
        freed_margin margin (unat q) open =
      unat (as_reserved_margin (state_for ar (rv_account_id rv) (fst k)))"
proof -
  have m: "min q (rv_remaining_quantity rv) = q" and ne: "q \<noteq> rv_remaining_quantity rv"
    using q by (auto simp: open_def min_def word_le_nat_alt)
  have le: "q \<le> rv_remaining_quantity rv" "0 < rv_remaining_quantity rv"
    using q by (simp_all add: open_def word_le_nat_alt word_less_nat_alt)
  have rm: "unat (released_margin rv q) = freed_margin margin (unat q) open"
    using proportional_release_unat [OF le] ne
    by (simp add: released_margin_def freed_margin_def margin_def open_def)
  have rl: "unat (released_margin rv q) \<le> margin"
    using released_margin_le [OF le] by (simp add: margin_def)
  have "unat (rv_remaining_quantity rv - q) = open - unat q"
    using q by (simp add: open_def unat_diff_le)
  moreover have "unat (rv_reserved_margin rv - released_margin rv q) = margin - freed_margin margin (unat q) open"
    using rl rm by (simp add: margin_def unat_diff_le)
  ultimately show "\<exists>rv'. ar_reservations (release ar k q) k = Some rv' \<and>
      unat (rv_remaining_quantity rv') = open - unat q \<and>
      unat (rv_reserved_margin rv') = margin - freed_margin margin (unat q) open"
    using ne by (simp add: release_reservations [OF rv] m rest_of_def)
  show "unat (as_reserved_margin (state_for (release ar k q) (rv_account_id rv) (fst k))) +
        freed_margin margin (unat q) open =
      unat (as_reserved_margin (state_for ar (rv_account_id rv) (fst k)))"
    using release_covered(4) [OF ok rv, of q] q rl rm ledger_tracked(4) [OF ok, THEN tracked_member, OF rv]
    by (simp add: release_reserved_margin [OF rv] m open_of_def open_def margin_def margin_of_def)
qed

text \<open>
  C28: margin is released in proportion and never leaks. Releasing the rest of an open order frees
  all margin that is left. Releasing a part frees exactly \<open>freed_margin\<close>: it is the integer part of
  the margin times the released quantity over the open quantity whenever the remainder of the
  margin times that quantity stays below \<open>2 ^ 64\<close>; beyond that the product saturates, and no more
  than the proportional share is freed. In every case the reservation keeps what was not
  freed, and the account's reserved margin falls by exactly what the reservation loses.
\<close>

theorem margin_release_proportional:
  assumes "ledger_ok ar" and "ar_reservations ar k = Some rv" and "0 < q"
  defines "margin \<equiv> unat (rv_reserved_margin rv)" and "open \<equiv> unat (rv_remaining_quantity rv)"
    and "reserved \<equiv> \<lambda>ar'. unat (as_reserved_margin (state_for ar' (rv_account_id rv) (fst k)))"
  defines "freed \<equiv> freed_margin margin (unat q) open"
  shows "(open \<le> unat q \<longrightarrow>
      ar_reservations (release ar k q) k = None \<and> reserved (release ar k q) + margin = reserved ar) \<and>
    (unat q < open \<longrightarrow>
      (\<exists>rv'. ar_reservations (release ar k q) k = Some rv' \<and>
         unat (rv_remaining_quantity rv') = open - unat q \<and>
         unat (rv_reserved_margin rv') = margin - freed \<and>
         reserved (release ar k q) + freed = reserved ar) \<and>
      freed \<le> margin * unat q div open \<and>
      (margin mod open * unat q < 2 ^ 64 \<longrightarrow> freed = margin * unat q div open))"
proof (cases "unat q < open")
  case True
  then have "0 < open" by simp
  from freed_margin_share [OF this, of margin "unat q"] True show ?thesis
    using release_part [OF assms(1-3)] unfolding margin_def open_def reserved_def freed_def by auto
next
  case False
  then show ?thesis
    using release_whole [OF assms(1,2), of q] unfolding margin_def open_def reserved_def freed_def by simp
qed

theorem margin_release_proportional_witness:
  "let ar = reserve demo_risk (demo_request 1 Buy 99 7 Limit 7); k = (1, 1)
   in unat (as_reserved_margin (state_for (release ar k 2) 7 1)) + 693 * 2 div 7 =
        unat (as_reserved_margin (state_for ar 7 1)) \<and>
      ar_reservations (release ar k 9) k = None"
proof -
  let ?req = "demo_request 1 Buy 99 7 Limit 7"
  let ?ar = "reserve demo_risk ?req"
  have ok: "ledger_ok ?ar"
    unfolding demo_risk_def
    by (rule reserve_ledger [OF new_account_risk_ok(1)])
      (simp_all add: demo_request_def account_evaluate_def Let_def new_account_risk_def state_for_def
        zero_state_def default_config_def position_limit_def margin_for_def saturated_multiply_def
        projected_buy_position_def projected_sell_position_def word_sless_alt)
  have R: "ar_reservations ?ar (1, 1) = Some
      \<lparr>rv_account_id = 7, rv_side = Buy, rv_remaining_quantity = 7, rv_reserved_margin = 693\<rparr>"
    by (simp add: reserve_reservations demo_request_def demo_risk_def new_account_risk_def
        default_config_def margin_for_def saturated_multiply_def)
  show ?thesis
    using margin_release_proportional [OF ok R, of 2] margin_release_proportional [OF ok R, of 9]
    by (auto simp: Let_def)
qed

section \<open>Giving a reservation back\<close>

lemma reserve_give_back:
  assumes "ar_reservations ar (pl_instrument_id req, pl_order_id req) = None"
  shows "state_for (risk_apply (reserve ar req) req [Order_Rejected rj] True) = state_for ar \<and>
    ar_reservations (risk_apply (reserve ar req) req [Order_Rejected rj] True) = ar_reservations ar"
proof -
  let ?k = "(pl_instrument_id req, pl_order_id req)"
  let ?rv = "\<lparr>rv_account_id = pl_account_id req, rv_side = pl_side req,
      rv_remaining_quantity = pl_quantity req,
      rv_reserved_margin = margin_for (ar_configuration ar) req\<rparr>"
  let ?undone = "release (reserve ar req) ?k (pl_quantity req)"
  have R: "ar_reservations (reserve ar req) ?k = Some ?rv" by (simp add: reserve_reservations)
  have same: "released_state ?rv (pl_quantity req) (margin_for (ar_configuration ar) req)
      (reserved_state req (margin_for (ar_configuration ar) req) st) = st" for st
    by (cases "pl_side req") (simp_all add: released_state_def reserved_state_def Let_def)
  have st: "state_for ?undone = state_for ar"
    by (auto simp: fun_eq_iff release_state_for [OF R] reserve_state_for released_margin_def same)
  have res: "ar_reservations ?undone = ar_reservations ar"
    using assms by (auto simp: release_reservations [OF R] rest_of_def reserve_reservations)
  then have "release ?undone ?k q = ?undone" for q
    using assms by (simp add: release_None)
  then show ?thesis using st res by (simp add: risk_apply_def Let_def)
qed

section \<open>Account totals\<close>

definition accounts_wf :: "account_risk \<Rightarrow> bool" where
  "accounts_wf ar \<longleftrightarrow> (\<forall>m \<in> ran (ar_account_states ar). distinct (map fst m))"

lemma accounts_wf_modify_state: "accounts_wf ar \<Longrightarrow> accounts_wf (modify_state f a i ar)"
  by (auto simp: accounts_wf_def modify_state_def ran_def distinct_update split: option.splits)

lemma accounts_wf_reservations [simp]: "accounts_wf (ar\<lparr>ar_reservations := R\<rparr>) = accounts_wf ar"
  by (simp add: accounts_wf_def)

lemma accounts_wf_reserve: "accounts_wf ar \<Longrightarrow> accounts_wf (reserve ar req)"
  by (simp add: reserve_def Let_def accounts_wf_modify_state)

lemma accounts_wf_release: "accounts_wf ar \<Longrightarrow> accounts_wf (release ar k q)"
  by (simp add: release_def Let_def accounts_wf_modify_state split: option.split)

lemma accounts_wf_apply_event: "accounts_wf ar \<Longrightarrow> accounts_wf (apply_event req created ar e)"
  by (cases e) (auto simp: Let_def update_position_def accounts_wf_modify_state accounts_wf_release
      split: option.split)

lemma accounts_wf_risk_apply: "accounts_wf ar \<Longrightarrow> accounts_wf (risk_apply ar req events created)"
proof -
  have "accounts_wf ar \<Longrightarrow> accounts_wf (foldl (apply_event req c) ar events)" for ar c
    by (induction events arbitrary: ar) (simp_all add: accounts_wf_apply_event)
  then show "accounts_wf ar \<Longrightarrow> accounts_wf (risk_apply ar req events created)"
    by (simp add: risk_apply_def Let_def accounts_wf_release)
qed

lemma foldl_account_total:
  fixes f :: "account_state \<Rightarrow> u64" and m :: "('i::finite \<times> account_state) list"
  assumes "distinct (map fst m)"
  shows "foldl (\<lambda>total e. total + f (snd e)) z m =
    z + (\<Sum>i\<in>UNIV. case map_of m i of None \<Rightarrow> 0 | Some st \<Rightarrow> f st)"
  using assms
proof (induction m arbitrary: z)
  case (Cons e m)
  obtain i st where e: "e = (i, st)" by (cases e)
  have none: "map_of m i = None" using Cons.prems by (simp add: e map_of_eq_None_iff)
  have "(\<Sum>j\<in>UNIV. case map_of (e # m) j of None \<Rightarrow> 0 | Some st \<Rightarrow> f st) +
      (case map_of m i of None \<Rightarrow> 0 | Some st \<Rightarrow> f st) =
      (\<Sum>j\<in>UNIV. case map_of m j of None \<Rightarrow> 0 | Some st \<Rightarrow> f st) +
      (case map_of (e # m) i of None \<Rightarrow> 0 | Some st \<Rightarrow> f st)"
    by (rule sum_point_update [of i "\<lambda>j. case map_of (e # m) j of None \<Rightarrow> 0 | Some st \<Rightarrow> f st"
        "\<lambda>j. case map_of m j of None \<Rightarrow> 0 | Some st \<Rightarrow> f st"]) (simp add: e)
  then show ?case using Cons none by (simp add: e ac_simps)
qed simp

lemma account_total_sum:
  fixes f :: "account_state \<Rightarrow> u64"
  assumes "accounts_wf ar" and "f zero_state = 0"
  shows "(case ar_account_states ar a of None \<Rightarrow> 0
     | Some m \<Rightarrow> foldl (\<lambda>total e. total + f (snd e)) 0 m) = (\<Sum>i\<in>UNIV. f (state_for ar a i))"
proof (cases "ar_account_states ar a")
  case None
  then show ?thesis using assms(2) by (simp add: state_for_def)
next
  case (Some m)
  then have "distinct (map fst m)" using assms(1) by (auto simp: accounts_wf_def ran_def)
  moreover have "f (state_for ar a i) = (case map_of m i of None \<Rightarrow> 0 | Some st \<Rightarrow> f st)" for i
    using Some assms(2) by (simp add: state_for_def split: option.split)
  ultimately show ?thesis by (simp add: Some foldl_account_total)
qed

lemma account_total_reservations:
  assumes "accounts_wf ar" and "f zero_state = 0" and "tracked f g ar"
  shows "(case ar_account_states ar a of None \<Rightarrow> 0
     | Some m \<Rightarrow> foldl (\<lambda>total e. total + f (snd e)) 0 m) =
    (of_nat (map_sum (\<lambda>k rv. if rv_account_id rv = a then g rv else 0) (ar_reservations ar)) :: u64)"
proof -
  have "(\<Sum>i\<in>UNIV. f (state_for ar a i)) = of_nat (\<Sum>i\<in>UNIV. unat (f (state_for ar a i)))"
    by simp
  also have "(\<Sum>i\<in>UNIV. unat (f (state_for ar a i))) =
      (\<Sum>k\<in>UNIV. \<Sum>i\<in>UNIV. case ar_reservations ar k of None \<Rightarrow> 0 | Some rv \<Rightarrow> weight g a i k rv)"
    unfolding tracked_value [OF assms(3)] map_sum_def by (rule sum.swap)
  also have "\<dots> = map_sum (\<lambda>k rv. if rv_account_id rv = a then g rv else 0) (ar_reservations ar)"
    unfolding map_sum_def
    by (rule sum.cong) (auto simp: weight_def sum.If_cases split: option.split)
  finally show ?thesis by (simp add: account_total_sum [where f = f, OF assms(1,2)])
qed

lemma account_totals_open:
  assumes "ledger_ok ar" and "accounts_wf ar"
  shows "account_open_order_quantity ar a = of_nat
      (map_sum (\<lambda>k rv. if rv_account_id rv = a then unat (rv_remaining_quantity rv) else 0)
        (ar_reservations ar)) \<and>
    account_reserved_margin ar a = of_nat
      (map_sum (\<lambda>k rv. if rv_account_id rv = a then unat (rv_reserved_margin rv) else 0)
        (ar_reservations ar)) \<and>
    ((\<forall>rv \<in> ran (ar_reservations ar). rv_account_id rv \<noteq> a) \<longrightarrow>
       account_open_order_quantity ar a = 0 \<and> account_reserved_margin ar a = 0)"
proof -
  have "account_open_order_quantity ar a = of_nat
      (map_sum (\<lambda>k rv. if rv_account_id rv = a then open_of rv else 0) (ar_reservations ar))"
    unfolding account_open_order_quantity_def
    by (rule account_total_reservations [OF assms(2) _ ledger_tracked(1) [OF assms(1)]])
      (simp add: zero_state_def)
  moreover have "account_reserved_margin ar a = of_nat
      (map_sum (\<lambda>k rv. if rv_account_id rv = a then margin_of rv else 0) (ar_reservations ar))"
    unfolding account_reserved_margin_def
    by (rule account_total_reservations [OF assms(2) _ ledger_tracked(4) [OF assms(1)]])
      (simp add: zero_state_def)
  moreover have "map_sum (\<lambda>k rv. if rv_account_id rv = a then g rv else 0) (ar_reservations ar) = 0"
    if "\<forall>rv \<in> ran (ar_reservations ar). rv_account_id rv \<noteq> a" for g :: "reservation \<Rightarrow> nat"
    unfolding map_sum_zero_iff using that by (auto simp: ran_def)
  ultimately show ?thesis unfolding open_of_def margin_of_def by simp
qed

end
