(* ===== verification/Matching_Engine_Invariant.thy ===== *)
theory Matching_Engine_Invariant
  imports Matching_Engine Order_Book_Interest Account_Risk_Properties
begin

text \<open>
  The invariant of the matching engine. The steps in which the risk manager follows a book are
  proved once for every book that keeps the contract \<open>matching_book\<close>, then used on the order
  book through its interpretation. The invariant joins the parts: every registered instrument
  and no other has a well-formed book, the ledger and the limits hold, and the reservations of
  each instrument are exactly the open interest of its book.
\<close>

section \<open>Following a book\<close>

context matching_book
begin

lemma follow_place:
  assumes b: "book_ok b" and R: "interest_of ar (pl_instrument_id req) = interest b"
    and ok: "ledger_ok ar" and lim: "within_limits ar"
    and fresh: "interest b (pl_order_id req) = None" and ev: "account_evaluate ar req = Account_None"
    and pos: "0 < pl_quantity req"
    and order: "o_instrument_id order = pl_instrument_id req" "o_order_id order = pl_order_id req"
      "o_side order = pl_side req" "o_quantity order = Quantity (pl_quantity req)"
      "o_order_type order = pl_order_type req" "o_account_id order = pl_account_id req"
  defines "ar' \<equiv> risk_apply (reserve ar req) req (snd (place b order)) True"
  shows "settles ar ar' \<and>
    interest_of ar' = (interest_of ar)(pl_instrument_id req := interest (fst (place b order))) \<and>
    (\<forall>c j. as_position (state_for ar' c j) = as_position (state_for ar c j) +
      (if j = pl_instrument_id req then moved_by (pl_side req) c (trades_of (snd (place b order))) else 0))"
proof -
  let ?i = "pl_instrument_id req" and ?oid = "pl_order_id req"
  let ?ar1 = "reserve ar req"
  let ?V = "(interest b)(?oid \<mapsto> (pl_side req, pl_account_id req, unat (pl_quantity req)))"
  have q: "o_quantity order > Quantity 0" using pos by (simp add: order less_quantity_def)
  have free: "ar_reservations ar (?i, ?oid) = None"
    using fresh by (simp add: R [symmetric] interest_of_None)
  have set1: "settles ar ?ar1" by (rule settles_reserve [OF ok lim ev free pos])
  then have ok1: "ledger_ok ?ar1" and lim1: "within_limits ?ar1" by (simp_all add: settles_def)
  have V: "interest_of ?ar1 ?i = ?V" by (simp add: interest_of_reserve R)
  from place_contract [OF b q] fresh consider
      (refused) rj where "place b order = (b, [Order_Rejected rj])"
    | (executed) b' ac ts where "place b order = (b', Order_Accepted ac # map Trade_Executed ts)"
        "trades_for order ts" "backed ?V (pl_side req) ?oid ts"
        "interest b' = (if is_immediate (pl_order_type req)
           then (consume ?V ?oid ts)(?oid := None) else consume ?V ?oid ts)"
    by (auto simp: order Let_def qnat_def)
  then show ?thesis
  proof cases
    case refused
    then have ar': "ar' = risk_apply ?ar1 req [Order_Rejected rj] True" by (simp add: ar'_def)
    have "settles ar ar'" using set1 by (auto simp: ar' risk_apply_def Let_def intro!: settles_final)
    moreover have "interest_of ar' = interest_of ar"
      using reserve_give_back [OF free, of rj] by (simp add: ar' interest_of_def fun_eq_iff)
    moreover have "as_position (state_for ar' c j) = as_position (state_for ar c j)" for c j
      using reserve_give_back [OF free, of rj] by (simp add: ar')
    ultimately show ?thesis using R by (simp add: refused moved_by_def fun_upd_idem)
  next
    case executed
    have ts: "\<forall>t \<in> set ts. te_instrument_id t = ?i \<and>
        t_incoming_account_id (te_trade t) = pl_account_id req"
      using executed(2) by (simp add: trades_for_def order)
    have own: "interest_of ?ar1 ?i ?oid = Some (pl_side req, pl_account_id req, unat (pl_quantity req))"
      by (simp add: V)
    note acc = risk_apply_accepted [OF ok1 lim1 own _ ts, unfolded V, OF executed(3), of ac]
    have ar': "ar' = risk_apply ?ar1 req (Order_Accepted ac # map Trade_Executed ts) True"
      by (simp add: ar'_def executed(1))
    have "settles ar ar'" unfolding ar' by (rule settles_trans [OF set1 acc(1)])
    moreover have "interest_of ar' = (interest_of ar)(?i := interest b')"
      unfolding ar' acc(2) executed(4) by (auto simp: fun_eq_iff interest_of_reserve)
    moreover have "as_position (state_for ar' c j) = as_position (state_for ar c j) +
        (if j = ?i then moved_by (pl_side req) c ts else 0)" for c j
      unfolding ar' acc(3) by (simp add: reserve_position)
    ultimately show ?thesis by (simp add: executed(1))
  qed
qed

lemma follow_duplicate:
  assumes "book_ok b" and "interest b (o_order_id order) \<noteq> None"
  shows "risk_apply ar req (snd (place b order)) False = ar" and "fst (place b order) = b"
  using place_duplicate [OF assms] by (auto simp: risk_apply_def)

lemma follow_cancel:
  assumes b: "book_ok b" and R: "interest_of ar (ca_instrument_id req) = interest b"
    and ok: "ledger_ok ar" and lim: "within_limits ar"
  defines "ar' \<equiv> risk_apply ar (cancel_context req) (snd (cancel b req)) False"
  shows "settles ar ar' \<and>
    interest_of ar' = (interest_of ar)(ca_instrument_id req := interest (fst (cancel b req))) \<and>
    (\<forall>c j. as_position (state_for ar' c j) = as_position (state_for ar c j))"
proof -
  let ?i = "ca_instrument_id req" and ?oid = "ca_order_id req"
  from cancel_contract [OF b, of req] consider
      (refused) rj where "cancel b req = (b, [Order_Rejected rj])"
    | (canceled) b' cn where "cancel b req = (b', [Order_Canceled cn])"
        "cn_instrument_id cn = ?i" "cn_order_id cn = ?oid" "interest b' = (interest b)(?oid := None)"
    by blast
  then show ?thesis
  proof cases
    case refused
    then have "ar' = ar" by (simp add: ar'_def risk_apply_def cancel_context_def)
    then show ?thesis using ok lim R by (simp add: refused settles_refl fun_upd_idem)
  next
    case canceled
    then have ar': "ar' = release ar (?i, ?oid) u64_max"
      by (simp add: ar'_def risk_apply_def cancel_context_def)
    have "n \<le> unat u64_max" if open_n: "interest b ?oid = Some (s, a, n)" for s a n
    proof -
      obtain rv where "open_of rv = n" using open_n by (auto simp: R [symmetric] interest_of_Some)
      then show ?thesis using unat_lt64 [of "rv_remaining_quantity rv"] by (simp add: open_of_def)
    qed
    then have "take_from (interest b) ?oid (unat u64_max) = (interest b)(?oid := None)"
      by (auto simp: take_from_def fun_eq_iff split: option.split)
    then show ?thesis
      using settles_release [OF ok lim, of "(?i, ?oid)" u64_max] canceled
      by (auto simp: ar' fun_eq_iff interest_of_release release_position R)
  qed
qed

end

section \<open>The engine invariant\<close>

definition books_agree :: "engine \<Rightarrow> bool" where
  "books_agree e \<longleftrightarrow>
     (\<forall>i. case en_order_books e i of
        None \<Rightarrow> registry_find (en_instruments e) i = None \<and> interest_of (en_account_risk e) i = Map.empty
      | Some bk \<Rightarrow> registry_find (en_instruments e) i \<noteq> None \<and> book_inv bk \<and>
          interest_of (en_account_risk e) i = book_interest bk)"

definition engine_inv :: "engine \<Rightarrow> bool" where
  "engine_inv e \<longleftrightarrow>
     registry_ok (en_instruments e) \<and> books_agree e \<and>
     settles (new_account_risk (en_configuration e)) (en_account_risk e) \<and>
     accounts_wf (en_account_risk e)"

lemma books_agree_at:
  assumes "books_agree e"
  shows "en_order_books e i = Some bk \<Longrightarrow> book_inv bk"
    and "en_order_books e i = Some bk \<Longrightarrow> interest_of (en_account_risk e) i = book_interest bk"
    and "en_order_books e i = None \<longleftrightarrow> registry_find (en_instruments e) i = None"
    and "en_order_books e i = None \<Longrightarrow> interest_of (en_account_risk e) i = Map.empty"
  using assms [unfolded books_agree_def, rule_format, of i]
  by (auto split: option.splits)

lemma engine_invD:
  assumes "engine_inv e"
  shows "registry_ok (en_instruments e)" and "books_agree e"
    and "settles (new_account_risk (en_configuration e)) (en_account_risk e)"
    and "accounts_wf (en_account_risk e)" and "ledger_ok (en_account_risk e)"
    and "within_limits (en_account_risk e)"
    and "ar_configuration (en_account_risk e) = en_configuration e"
  using assms by (auto simp: engine_inv_def settles_def new_account_risk_def)

lemma engine_inv_new: "engine_inv (new_engine c sink)"
  using new_account_risk_ok [of c]
  by (simp add: engine_inv_def new_engine_def books_agree_def settles_refl registry_find_def
      accounts_wf_def new_account_risk_def)

lemma books_agree_update:
  assumes "books_agree e" and "en_order_books e i = Some bk" and "book_inv bk'"
    and "interest_of ar' = (interest_of (en_account_risk e))(i := book_interest bk')"
  shows "books_agree (e\<lparr>en_order_books := (en_order_books e)(i \<mapsto> bk'), en_account_risk := ar'\<rparr>)"
  unfolding books_agree_def
proof (intro allI)
  fix j
  let ?e = "e\<lparr>en_order_books := (en_order_books e)(i \<mapsto> bk'), en_account_risk := ar'\<rparr>"
  show "case en_order_books ?e j of
      None \<Rightarrow> registry_find (en_instruments ?e) j = None \<and> interest_of (en_account_risk ?e) j = Map.empty
    | Some bk \<Rightarrow> registry_find (en_instruments ?e) j \<noteq> None \<and> book_inv bk \<and>
        interest_of (en_account_risk ?e) j = book_interest bk"
    using assms(1) [unfolded books_agree_def, rule_format, of j] books_agree_at(3) [OF assms(1), of i] assms(2-4)
    by (cases "j = i") (simp_all split: option.splits)
qed

lemma books_agree_register:
  assumes "books_agree e"
  shows "books_agree (fst (register_instrument e inst))"
proof (cases "registry_add (en_instruments e) inst")
  case (Pair reg added)
  then have find: "registry_find reg = (if added then (registry_find (en_instruments e))(inst_id inst \<mapsto> inst)
      else registry_find (en_instruments e))"
    using registry_add_find [of "en_instruments e" inst] by simp
  have free: "en_order_books e (inst_id inst) = None" if added
    using registry_add_result [of "en_instruments e" inst] that Pair
    by (simp add: books_agree_at(3) [OF assms])
  have empty: "book_interest empty_book = Map.empty"
    by (simp add: book_interest_def side_queue_def empty_book_def)
  show ?thesis
  proof (cases added)
    case True
    then have e': "fst (register_instrument e inst) = e\<lparr>en_instruments := reg,
        en_order_books := (en_order_books e)(inst_id inst \<mapsto> empty_book)\<rparr>"
      using free by (simp add: register_instrument_def Pair emplace_def)
    show ?thesis
      unfolding books_agree_def
    proof (intro allI)
      fix i
      show "case en_order_books (fst (register_instrument e inst)) i of
          None \<Rightarrow> registry_find (en_instruments (fst (register_instrument e inst))) i = None \<and>
            interest_of (en_account_risk (fst (register_instrument e inst))) i = Map.empty
        | Some bk \<Rightarrow> registry_find (en_instruments (fst (register_instrument e inst))) i \<noteq> None \<and>
            book_inv bk \<and> interest_of (en_account_risk (fst (register_instrument e inst))) i = book_interest bk"
        using assms [unfolded books_agree_def, rule_format, of i] find True
          books_agree_at(4) [OF assms free [OF True]]
        by (cases "i = inst_id inst") (simp_all add: e' book_inv_empty empty split: option.splits)
    qed
  next
    case False
    then show ?thesis using assms find
      by (simp add: register_instrument_def Pair books_agree_def cong: option.case_cong)
  qed
qed

lemma engine_inv_register:
  assumes "engine_inv e"
  shows "engine_inv (fst (register_instrument e inst))"
proof -
  note inv = engine_invD [OF assms]
  have "registry_ok (en_instruments (fst (register_instrument e inst)))"
    using registry_add_ok [OF inv(1), of inst]
    by (auto simp: register_instrument_def split: prod.splits bool.splits)
  then show ?thesis
    using books_agree_register [OF inv(2)] inv(3,4)
    by (simp add: engine_inv_def register_instrument_def split: prod.splits bool.splits)
qed

section \<open>Steps\<close>

text \<open>The branch in which the order reaches its book.\<close>

lemma interest_contains:
  "book_inv bk \<Longrightarrow> book_interest bk oid = None \<longleftrightarrow> \<not> contains_order bk oid"
  by (simp add: book_interest_None contains_order_def)

lemma engine_contains_iff:
  "en_order_books e i = Some bk \<Longrightarrow> engine_contains_order e i oid = contains_order bk oid"
  by (simp add: engine_contains_order_def)

lemma place_accepted_ok:
  assumes inv: "engine_inv e" and bk: "en_order_books e (pl_instrument_id req) = Some bk"
    and pos: "pl_quantity req \<noteq> 0"
    and dup: "duplicate = contains_order bk (pl_order_id req)"
    and ev: "\<not> duplicate \<longrightarrow> account_evaluate (en_account_risk e) req = Account_None"
  defines "res \<equiv> book_place_order bk (request_order req New_Order (pl_account_id req))"
  obtains e' where
    "place_accepted e req duplicate = Inr (e', snd res, publish (en_event_sink e) (snd res))"
    "engine_inv e'"
    "en_order_books e' = (en_order_books e)(pl_instrument_id req \<mapsto> fst res)"
    "en_instruments e' = en_instruments e" "en_configuration e' = en_configuration e"
    "en_event_sink e' = en_event_sink e"
    "en_account_risk e' = risk_apply
      (if duplicate then en_account_risk e else reserve (en_account_risk e) req) req (snd res) (\<not> duplicate)"
    "\<And>c j. as_position (state_for (en_account_risk e') c j) =
      as_position (state_for (en_account_risk e) c j) +
      (if j = pl_instrument_id req then moved_by (pl_side req) c (trades_of (snd res)) else 0)"
proof -
  let ?ar = "en_account_risk e" and ?i = "pl_instrument_id req"
  let ?order = "request_order req New_Order (pl_account_id req)"
  let ?ar' = "risk_apply (if duplicate then ?ar else reserve ?ar req) req (snd res) (\<not> duplicate)"
  let ?e' = "e\<lparr>en_order_books := (en_order_books e)(?i \<mapsto> fst res), en_account_risk := ?ar'\<rparr>"
  note d = engine_invD [OF inv]
  have b: "book_inv bk" and R: "interest_of ?ar ?i = book_interest bk"
    using books_agree_at [OF d(2)] bk by blast+
  have q: "o_quantity ?order > Quantity 0" and pos': "0 < pl_quantity req"
    using pos by (simp_all add: request_order_def less_quantity_def word_neq_0_conv)
  have b': "book_inv (fst res)" unfolding res_def by (rule order_book.place_ok [OF b q])
  have follow: "settles ?ar ?ar' \<and> interest_of ?ar' = (interest_of ?ar)(?i := book_interest (fst res)) \<and>
      (\<forall>c j. as_position (state_for ?ar' c j) = as_position (state_for ?ar c j) +
        (if j = ?i then moved_by (pl_side req) c (trades_of (snd res)) else 0))"
  proof (cases duplicate)
    case True
    then have "book_interest bk (o_order_id ?order) \<noteq> None"
      using dup interest_contains [OF b] by (simp add: request_order_def)
    note same = order_book.follow_duplicate(1) [OF b this, of ?ar req] order_book.follow_duplicate(2) [OF b this]
      and rej = order_book.place_duplicate [OF b this]
    show ?thesis
      using same rej True R settles_refl [OF d(5,6)]
      by (auto simp: res_def moved_by_def fun_upd_idem)
  next
    case False
    then have fresh: "book_interest bk (pl_order_id req) = None"
      using dup interest_contains [OF b] by simp
    show ?thesis
      using order_book.follow_place [OF b R d(5,6) fresh ev [rule_format, OF False] pos', of ?order] False
      by (simp add: request_order_def res_def)
  qed
  have "accounts_wf ?ar'" using d(4) by (auto intro: accounts_wf_risk_apply accounts_wf_reserve)
  then have inv': "engine_inv ?e'"
    using d(1,3) follow books_agree_update [OF d(2) bk b', of ?ar']
    by (auto simp: engine_inv_def intro: settles_trans)
  have "place_accepted e req duplicate = Inr (?e', snd res, publish (en_event_sink e) (snd res))"
    by (simp add: place_accepted_def bk res_def split: prod.split)
  then show thesis by (rule that) (use inv' follow in simp_all)
qed

lemma cancel_ok:
  fixes stale
  assumes inv: "engine_inv e" and bk: "en_order_books e (ca_instrument_id req) = Some bk"
  defines "res \<equiv> book_cancel_order stale bk req"
  obtains e' where
    "engine_cancel_order stale e req = Inr (e', snd res, publish (en_event_sink e) (snd res))"
    "engine_inv e'"
    "en_order_books e' = (en_order_books e)(ca_instrument_id req \<mapsto> fst res)"
    "en_instruments e' = en_instruments e" "en_configuration e' = en_configuration e"
    "en_event_sink e' = en_event_sink e"
    "en_account_risk e' = risk_apply (en_account_risk e) (cancel_context req) (snd res) False"
    "\<And>c j. as_position (state_for (en_account_risk e') c j) =
      as_position (state_for (en_account_risk e) c j)"
proof -
  let ?ar = "en_account_risk e" and ?i = "ca_instrument_id req"
  let ?ar' = "risk_apply ?ar (cancel_context req) (snd res) False"
  let ?e' = "e\<lparr>en_order_books := (en_order_books e)(?i \<mapsto> fst res), en_account_risk := ?ar'\<rparr>"
  note d = engine_invD [OF inv]
  have b: "book_inv bk" and R: "interest_of ?ar ?i = book_interest bk"
    using books_agree_at [OF d(2)] bk by blast+
  have b': "book_inv (fst res)" unfolding res_def by (rule order_book.cancel_ok [OF b])
  note follow = order_book.follow_cancel [OF b R d(5,6), of stale, folded res_def]
  have inv': "engine_inv ?e'"
    using d(1,3) follow books_agree_update [OF d(2) bk b', of ?ar'] accounts_wf_risk_apply [OF d(4)]
    by (auto simp: engine_inv_def intro: settles_trans)
  have found: "registry_find (en_instruments e) ?i \<noteq> None"
    using books_agree_at(3) [OF d(2), of ?i] bk by simp
  have "engine_cancel_order stale e req = Inr (?e', snd res, publish (en_event_sink e) (snd res))"
    using found by (auto simp: engine_cancel_order_def bk res_def split: prod.split)
  then show thesis by (rule that) (use inv' follow in simp_all)
qed

text \<open>What the engine decides before the book sees the order.\<close>

definition admission :: "engine \<Rightarrow> place_order \<Rightarrow> reject_reason option" where
  "admission e req =
     (if registry_find (en_instruments e) (pl_instrument_id req) = None then Some Unknown_Instrument
      else if \<not> structurally_valid req then Some Invalid_Order
      else case risk_evaluate (en_configuration e) req of
             Inl _ \<Rightarrow> None
           | Inr r \<Rightarrow>
               if r \<noteq> Risk_None then Some (risk_reason r)
               else if \<not> engine_contains_order e (pl_instrument_id req) (pl_order_id req) \<and>
                       account_evaluate (en_account_risk e) req \<noteq> Account_None
               then Some (account_reason (account_evaluate (en_account_risk e) req))
               else None)"

lemma engine_place_refused:
  assumes "admission e req = Some reason"
  obtains order where
    "engine_place_order e req = engine_reject e order reason"
    "o_instrument_id order = pl_instrument_id req" "o_order_id order = pl_order_id req"
proof -
  have fields: "o_instrument_id (blank_rejected_order req) = pl_instrument_id req"
      "o_order_id (blank_rejected_order req) = pl_order_id req"
      "o_instrument_id (request_order req s a) = pl_instrument_id req"
      "o_order_id (request_order req s a) = pl_order_id req" for s a
    by (simp_all add: blank_rejected_order_def request_order_def)
  from assms show thesis
    by (auto simp: admission_def engine_place_order_def structurally_valid_def Let_def fields
        split: if_splits sum.splits intro: that)
qed

lemma engine_place_admitted:
  assumes inv: "engine_inv e" and adm: "admission e req = None"
  obtains bk where
    "en_order_books e (pl_instrument_id req) = Some bk" "structurally_valid req"
    "engine_place_order e req = place_accepted e req (contains_order bk (pl_order_id req))"
    "\<not> contains_order bk (pl_order_id req) \<longrightarrow> account_evaluate (en_account_risk e) req = Account_None"
proof -
  let ?i = "pl_instrument_id req"
  have found: "registry_find (en_instruments e) ?i \<noteq> None" and valid: "structurally_valid req"
    using adm by (auto simp: admission_def split: if_splits)
  then obtain bk where bk: "en_order_books e ?i = Some bk"
    using books_agree_at(3) [OF engine_invD(2) [OF inv], of ?i] by auto
  obtain r where r: "risk_evaluate (en_configuration e) req = Inr r"
    using risk_evaluate_valid [OF valid, of "en_configuration e"] by blast
  have "r = Risk_None" and
    ev: "\<not> contains_order bk (pl_order_id req) \<longrightarrow> account_evaluate (en_account_risk e) req = Account_None"
    using adm found valid r
    by (auto simp: admission_def engine_contains_iff [OF bk] split: if_splits)
  then have "engine_place_order e req = place_accepted e req (contains_order bk (pl_order_id req))"
    using found valid r
    by (auto simp: engine_place_order_def structurally_valid_def Let_def engine_contains_iff [OF bk])
  then show thesis using that bk valid ev by blast
qed

section \<open>Every call returns\<close>

lemma engine_reject_returns:
  "\<exists>events. engine_reject e order reason = Inr (e, events, publish (en_event_sink e) events) \<and> events \<noteq> []"
  by (simp add: engine_reject_def Let_def)

lemma engine_place_returns:
  assumes inv: "engine_inv e"
  shows "\<exists>e' events. engine_place_order e req = Inr (e', events, publish (en_event_sink e) events) \<and>
    events \<noteq> []"
proof (cases "admission e req")
  case (Some reason)
  show ?thesis by (rule engine_place_refused [OF Some]) (use engine_reject_returns in metis)
next
  case None
  obtain bk where bk: "en_order_books e (pl_instrument_id req) = Some bk" "structurally_valid req"
      "engine_place_order e req = place_accepted e req (contains_order bk (pl_order_id req))"
      "\<not> contains_order bk (pl_order_id req) \<longrightarrow> account_evaluate (en_account_risk e) req = Account_None"
    by (rule engine_place_admitted [OF inv None])
  have q: "pl_quantity req \<noteq> 0" using bk(2) by (simp add: structurally_valid_def)
  let ?order = "request_order req New_Order (pl_account_id req)"
  have b: "book_inv bk" using books_agree_at(1) [OF engine_invD(2) [OF inv] bk(1)] .
  have "o_quantity ?order > Quantity 0"
    using q by (simp add: request_order_def less_quantity_def word_neq_0_conv)
  then have "snd (book_place_order bk ?order) \<noteq> []"
    using order_book.place_duplicate [OF b, of ?order] order_book.place_contract [OF b, of ?order]
    by (cases "book_interest bk (o_order_id ?order)") fastforce+
  then show ?thesis
    using place_accepted_ok [OF inv bk(1) q refl bk(4)] bk(3) by metis
qed

lemma engine_cancel_returns:
  assumes inv: "engine_inv e"
  shows "\<exists>e' events. engine_cancel_order stale e req = Inr (e', events, publish (en_event_sink e) events) \<and>
    events \<noteq> []"
proof (cases "registry_find (en_instruments e) (ca_instrument_id req)")
  case None
  then have "engine_cancel_order stale e req = engine_reject e (cancel_unknown_order req) Unknown_Instrument"
    by (simp add: engine_cancel_order_def)
  then show ?thesis using engine_reject_returns by metis
next
  case (Some inst)
  then obtain bk where bk: "en_order_books e (ca_instrument_id req) = Some bk"
    using books_agree_at(3) [OF engine_invD(2) [OF inv]] by fastforce
  have "snd (book_cancel_order stale bk req) \<noteq> []"
    using order_book.cancel_contract [OF books_agree_at(1) [OF engine_invD(2) [OF inv] bk], of stale req]
    by fastforce
  then show ?thesis using cancel_ok [OF inv bk, of stale] by metis
qed

end
