(* ===== verification/Matching_Engine_Reachable.thy ===== *)
theory Matching_Engine_Reachable
  imports Matching_Engine_Invariant Order_Book_Properties
begin

text \<open>
  The reachable states of the matching engine and that each satisfies the engine invariant, for any
  configuration, any registered instruments and any sequence of placed and canceled orders. The
  witnesses of the engine's properties use \<open>demo_engine\<close>, two orders that have traded.
\<close>

section \<open>Reachable engines\<close>

text \<open>A call of one of the three operations that change the state; \<open>stale\<close> is arbitrary.\<close>

inductive engine_step :: "engine \<Rightarrow> engine \<Rightarrow> bool" where
  step_register: "engine_step e (fst (register_instrument e inst))"
| step_place: "engine_place_order e req = Inr (e', events, calls) \<Longrightarrow> engine_step e e'"
| step_cancel: "engine_cancel_order stale e req = Inr (e', events, calls) \<Longrightarrow> engine_step e e'"

inductive engine_reachable :: "engine_config \<Rightarrow> engine \<Rightarrow> bool" for c where
  reach_new: "engine_reachable c (new_engine c sink)"
| reach_step: "engine_reachable c e \<Longrightarrow> engine_step e e' \<Longrightarrow> engine_reachable c e'"

inductive_cases engine_stepE: "engine_step e e'"
inductive_simps engine_step_iff: "engine_step e e'"

lemma engine_reject_state: "engine_reject e order reason = Inr (e', events, calls) \<Longrightarrow> e' = e"
  by (simp add: engine_reject_def Let_def)

lemma engine_place_inv:
  assumes "engine_inv e" and "engine_place_order e req = Inr (e', events, calls)"
  shows "engine_inv e' \<and> en_configuration e' = en_configuration e"
proof (cases "admission e req")
  case (Some reason)
  then show ?thesis
    using assms engine_place_refused [OF Some] engine_reject_state by metis
next
  case None
  from engine_place_admitted [OF assms(1) None] obtain bk where
    bk: "en_order_books e (pl_instrument_id req) = Some bk" "structurally_valid req"
      "engine_place_order e req = place_accepted e req (contains_order bk (pl_order_id req))"
    and ev: "\<not> contains_order bk (pl_order_id req) \<longrightarrow> account_evaluate (en_account_risk e) req = Account_None"
    by blast
  have "pl_quantity req \<noteq> 0" using bk(2) by (simp add: structurally_valid_def)
  from place_accepted_ok [OF assms(1) bk(1) this refl ev] show ?thesis
    using assms(2) bk(3) by fastforce
qed

lemma engine_cancel_inv:
  assumes "engine_inv e" and "engine_cancel_order stale e req = Inr (e', events, calls)"
  shows "engine_inv e' \<and> en_configuration e' = en_configuration e"
proof (cases "registry_find (en_instruments e) (ca_instrument_id req)")
  case None
  then show ?thesis using assms by (auto simp: engine_cancel_order_def dest: engine_reject_state)
next
  case (Some inst)
  then obtain bk where "en_order_books e (ca_instrument_id req) = Some bk"
    using books_agree_at(3) [OF engine_invD(2) [OF assms(1)]] by fastforce
  from cancel_ok [OF assms(1) this, of stale] show ?thesis using assms(2) by fastforce
qed

lemma register_configuration: "en_configuration (fst (register_instrument e inst)) = en_configuration e"
  by (simp add: register_instrument_def split: prod.splits bool.splits)

lemma new_engine_configuration: "en_configuration (new_engine c sink) = c"
  by (simp add: new_engine_def)

lemma engine_step_inv:
  "engine_step e e' \<Longrightarrow> engine_inv e \<Longrightarrow> engine_inv e' \<and> en_configuration e' = en_configuration e"
  by (erule engine_stepE)
    (use engine_inv_register register_configuration engine_place_inv engine_cancel_inv in blast)+

lemma engine_reachable_inv:
  "engine_reachable c e \<Longrightarrow> engine_inv e \<and> en_configuration e = c"
  by (induction rule: engine_reachable.induct)
    (auto simp: engine_inv_new new_engine_configuration dest: engine_step_inv)

section \<open>A small engine\<close>

definition run_orders :: "engine \<Rightarrow> place_order list \<Rightarrow> engine" where
  "run_orders e reqs =
     foldl (\<lambda>e req. case engine_place_order e req of Inl _ \<Rightarrow> e | Inr (e', _, _) \<Rightarrow> e') e reqs"

lemma run_orders_reachable: "engine_reachable c e \<Longrightarrow> engine_reachable c (run_orders e reqs)"
proof (induction reqs arbitrary: e)
  case (Cons req reqs)
  have "engine_reachable c
      (case engine_place_order e req of Inl _ \<Rightarrow> e | Inr (e', _, _) \<Rightarrow> e')"
    using Cons.prems by (auto intro: reach_step step_place split: sum.split)
  then show ?case using Cons.IH by (simp add: run_orders_def)
qed (simp add: run_orders_def)

definition demo_instrument :: instrument where
  "demo_instrument = \<lparr>inst_id = 1, symbol = ''PRIMARY'', tick_size = Price 1, lot_size = Quantity 1,
     inst_status = Active\<rparr>"

definition demo_limits :: engine_config where
  "demo_limits = default_config\<lparr>maximum_position_quantity := 10, maximum_open_order_quantity := 20,
     maximum_account_credit := 1000\<rparr>"

definition fresh_engine :: engine where
  "fresh_engine = fst (register_instrument (new_engine demo_limits Event_Sink) demo_instrument)"

definition demo_engine :: engine where
  "demo_engine = run_orders fresh_engine
     [demo_request 1 Sell 100 5 Limit 7, demo_request 2 Buy 100 3 Limit 9]"

lemma demo_limits_safe: "config_safe demo_limits"
  by (simp add: config_safe_def demo_limits_def position_limit_def)

lemma fresh_engine_reachable: "engine_reachable demo_limits fresh_engine"
  unfolding fresh_engine_def by (rule reach_step [OF reach_new step_register])

lemma demo_engine_reachable: "engine_reachable demo_limits demo_engine"
  unfolding demo_engine_def by (rule run_orders_reachable [OF fresh_engine_reachable])

lemmas engine_eval =
  engine_place_order_def place_accepted_def engine_reject_def request_order_def publish_def
  engine_contains_order_def registry_find_def risk_evaluate_def account_evaluate_def
  state_for_def zero_state_def position_limit_def margin_for_def saturated_multiply_def
  projected_buy_position_def projected_sell_position_def reserve_def reserved_state_def
  modify_state_def risk_apply_def release_def released_state_def released_margin_def
  update_position_def proportional_release_def demo_request_def word_sless_alt

lemma fresh_engine_eval:
  "fresh_engine = \<lparr>en_configuration = demo_limits, en_event_sink = Event_Sink,
     en_instruments = [(1, demo_instrument)], en_order_books = [1 \<mapsto> empty_book],
     en_account_risk = new_account_risk demo_limits\<rparr>"
  by (simp add: fresh_engine_def register_instrument_def registry_add_def demo_instrument_def
      new_engine_def emplace_def accepts_orders_def price_is_positive_def quantity_is_positive_def
      word_sless_alt)

lemma demo_engine_eval:
  "state_for (en_account_risk demo_engine) 9 1 = zero_state\<lparr>as_position := 3\<rparr> \<and>
   state_for (en_account_risk demo_engine) 7 1 =
     zero_state\<lparr>as_position := -3, as_open_order_quantity := 2, as_sell_reserved_quantity := 2,
       as_reserved_margin := 200\<rparr> \<and>
   ar_reservations (en_account_risk demo_engine) =
     [(1, 1) \<mapsto> \<lparr>rv_account_id = 7, rv_side = Sell, rv_remaining_quantity = 2, rv_reserved_margin = 200\<rparr>] \<and>
   en_order_books demo_engine 1 = Some
     \<lparr>buy_levels = [], sell_levels = [(Price 100, [demo_ask 1 2])],
      order_locations = [1 \<mapsto> \<lparr>ol_side = Sell, ol_price = Price 100, ol_account_id = 7\<rparr>],
      next_execution_id = 2\<rparr>"
  by (simp add: demo_engine_def run_orders_def fresh_engine_eval engine_eval book_eval
      new_account_risk_def demo_limits_def default_config_def demo_ask_def)

end
