(* ===== verification/Matching_Engine_Properties.thy ===== *)
theory Matching_Engine_Properties
  imports Matching_Engine_Reachable
begin

text \<open>
  The properties of the matching engine over its reachable states: no call faults, the risk
  reservations mirror the books, the positions balance and stay within the limits, an account
  without open orders holds no margin, and the exact decision and effect of each request.
\<close>

section \<open>Safety\<close>

text \<open>
  No request makes the engine fail. In every reachable state every \<open>place_order\<close> and every
  \<open>cancel_order\<close> returns, whatever the request: the risk check never divides by a zero price,
  \<open>order_books.at\<close> always finds the book of a registered instrument, and the call leads to a
  reachable state, returns at least one event, and hands the sink exactly the events it returns.
\<close>

theorem engine_calls_never_fault:
  assumes "engine_reachable c e"
  shows "(\<exists>e' events. engine_place_order e req =
        Inr (e', events, publish (en_event_sink e) events) \<and>
      engine_reachable c e' \<and> events \<noteq> []) \<and>
    (\<exists>e' events. engine_cancel_order stale e creq =
        Inr (e', events, publish (en_event_sink e) events) \<and>
      engine_reachable c e' \<and> events \<noteq> [])"
  using engine_place_returns [OF conjunct1 [OF engine_reachable_inv [OF assms]], of req]
    engine_cancel_returns [OF conjunct1 [OF engine_reachable_inv [OF assms]], of stale creq]
    reach_step [OF assms step_place] reach_step [OF assms step_cancel]
  by blast

theorem engine_calls_never_fault_witness:
  "\<exists>e' events. engine_place_order demo_engine (demo_request 5 Buy 0 1 Limit 9) =
     Inr (e', events, publish (en_event_sink demo_engine) events) \<and> events \<noteq> []"
  using engine_calls_never_fault [OF demo_engine_reachable, of "demo_request 5 Buy 0 1 Limit 9"] by blast

section \<open>Books and reservations\<close>

text \<open>
  C5: the reservations are exactly the resting orders. In every reachable state an order has a
  reservation under its instrument and id exactly when it rests in the book of that instrument,
  and the reservation names its side and account and holds precisely its remaining quantity;
  every registered instrument, and no other, has a book, and every book is well formed.
\<close>

theorem reservations_mirror_books:
  assumes "engine_reachable c e"
  shows "(\<forall>i oid. interest_of (en_account_risk e) i oid =
      (case en_order_books e i of None \<Rightarrow> None | Some bk \<Rightarrow> book_interest bk oid)) \<and>
    (\<forall>i. en_order_books e i \<noteq> None \<longleftrightarrow> find_instrument e i \<noteq> None) \<and>
    (\<forall>bk \<in> ran (en_order_books e). book_inv bk)"
proof -
  note agree = books_agree_at [OF engine_invD(2) [OF conjunct1 [OF engine_reachable_inv [OF assms]]]]
  show ?thesis
    using agree by (auto simp: find_instrument_def ran_def split: option.split)
qed

theorem reservations_mirror_books_witness:
  "interest_of (en_account_risk demo_engine) 1 1 = Some (Sell, 7, 2)"
  using reservations_mirror_books [OF demo_engine_reachable] demo_engine_eval
  by (simp add: book_interest_def side_queue_def demo_ask_def qnat_def)

section \<open>Positions\<close>

text \<open>
  C13: positions balance. In every reachable state the positions of all accounts in an
  instrument sum to zero in the 64-bit arithmetic of the engine; with a safe configuration no
  position has overflowed and they sum to zero as integers.
\<close>

theorem positions_balance:
  assumes "engine_reachable c e"
  shows "(\<Sum>a\<in>UNIV. engine_account_position e a i) = 0 \<and>
    (config_safe c \<longrightarrow> (\<Sum>a\<in>UNIV. sint (engine_account_position e a i)) = 0)"
  using engine_invD(3) [OF conjunct1 [OF engine_reachable_inv [OF assms]]]
    conjunct2 [OF engine_reachable_inv [OF assms]] new_account_risk_ok(3,4,5) [of c]
  by (auto simp: settles_def fun_eq_iff position_total_def [symmetric] net_position_def [symmetric]
      engine_account_position_def account_position_def new_account_risk_def)

theorem positions_balance_witness:
  "(\<Sum>a\<in>UNIV. sint (engine_account_position demo_engine a 1)) = 0 \<and>
   engine_account_position demo_engine 9 1 = 3"
  using positions_balance [OF demo_engine_reachable, of 1] demo_limits_safe demo_engine_eval
  by (simp add: engine_account_position_def account_position_def)

text \<open>
  C7: the position limit holds at all times. With a safe configuration (\<open>config_safe\<close>, which
  excludes the default one, where the check can wrap), in every reachable state and for every account and instrument, the position stays within the limit even if all
  resting buys, or all resting sells, of the account were filled: trades and cancels never
  take an account past the limit that admission enforced.
\<close>

theorem position_limit_never_exceeded:
  assumes "engine_reachable c e" and "config_safe c"
  defines "st \<equiv> \<lambda>a i. state_for (en_account_risk e) a i"
  shows "sint (engine_account_position e a i) + uint (as_buy_reserved_quantity (st a i)) \<le> sint (position_limit c) \<and>
    - sint (position_limit c) \<le> sint (engine_account_position e a i) - uint (as_sell_reserved_quantity (st a i))"
proof -
  note inv = engine_reachable_inv [OF assms(1)]
  have "exposure_ok (en_account_risk e)"
    using engine_invD(3) [OF conjunct1 [OF inv]] conjunct2 [OF inv] assms(2) new_account_risk_ok(3) [of c]
    by (simp add: settles_def new_account_risk_def)
  from exposureD(1,2) [OF this, of a i] show ?thesis
    using engine_invD(7) [OF conjunct1 [OF inv]] conjunct2 [OF inv]
    by (simp add: st_def engine_account_position_def account_position_def)
qed

theorem position_limit_never_exceeded_witness:
  "- 10 \<le> sint (engine_account_position demo_engine 7 1) - uint (as_sell_reserved_quantity
      (state_for (en_account_risk demo_engine) 7 1)) \<and>
   sint (engine_account_position demo_engine 7 1) = - 3"
  using position_limit_never_exceeded [OF demo_engine_reachable demo_limits_safe, of 7 1] demo_engine_eval
  by (simp add: demo_limits_def position_limit_def engine_account_position_def account_position_def)

text \<open>
  C37: the open order and credit limits hold at all times, for each account and instrument. The
  limits are applied per instrument: nothing bounds the totals of an account over several
  instruments, although they are configured as account limits.
\<close>

theorem open_order_and_credit_limits_hold:
  assumes "engine_reachable c e"
  shows "as_open_order_quantity (state_for (en_account_risk e) a i) \<le> maximum_open_order_quantity c \<and>
    as_reserved_margin (state_for (en_account_risk e) a i) \<le> maximum_account_credit c"
  using engine_invD(6,7) [OF conjunct1 [OF engine_reachable_inv [OF assms]]]
    conjunct2 [OF engine_reachable_inv [OF assms]]
  by (simp add: within_limits_def)

theorem open_order_and_credit_limits_hold_witness:
  "as_open_order_quantity (state_for (en_account_risk demo_engine) 7 1) \<le> 20 \<and>
   as_open_order_quantity (state_for (en_account_risk demo_engine) 7 1) = 2"
  using open_order_and_credit_limits_hold [OF demo_engine_reachable, of 7 1] demo_engine_eval
  by (simp add: demo_limits_def default_config_def)

text \<open>
  An account without open orders holds nothing. In every reachable state, when no book has
  a resting order of the account, its reported open order quantity and reserved margin are both
  zero: no rounding of partial releases leaves margin behind.
\<close>

lemma flat_account_holds_no_margin:
  assumes "engine_reachable c e"
    and "\<And>i bk oid s n. en_order_books e i = Some bk \<Longrightarrow> book_interest bk oid \<noteq> Some (s, a, n)"
  shows "engine_account_open_order_quantity e a = 0 \<and> engine_account_reserved_margin e a = 0"
proof -
  note inv = engine_invD [OF conjunct1 [OF engine_reachable_inv [OF assms(1)]]]
  have "rv_account_id rv \<noteq> a" if R: "ar_reservations (en_account_risk e) (i, oid) = Some rv" for i oid rv
  proof
    assume "rv_account_id rv = a"
    then have "interest_of (en_account_risk e) i oid = Some (rv_side rv, a, open_of rv)"
      using R by (auto simp: interest_of_Some)
    then show False
      using books_agree_at(2,4) [OF inv(2), of i] assms(2) [of i]
      by (cases "en_order_books e i") auto
  qed
  then show ?thesis
    using account_totals_open [OF inv(5,4), of a]
    by (auto simp: engine_account_open_order_quantity_def engine_account_reserved_margin_def ran_def)
qed

end
