(* ===== verification/Matching_Engine_Effects.thy ===== *)
theory Matching_Engine_Effects
  imports Matching_Engine_Reachable
begin

text \<open>
  What one request does to the resting orders and to their reservations: the two outcomes of a
  cancel, and the orders that a placed order adds or trades against. Shared by the properties of
  the engine and of the gateway.
\<close>

section \<open>Cancel\<close>

lemma cancel_of_owner:
  assumes inv: "engine_inv e"
    and rv: "ar_reservations (en_account_risk e) (ca_instrument_id req, ca_order_id req) = Some rv"
      "rv_account_id rv = ca_account_id req"
    and call: "engine_cancel_order stale e req = Inr (e', events, calls)"
  shows "(\<exists>cn. events = [Order_Canceled cn] \<and>
      (cn_instrument_id cn, cn_order_id cn) = (ca_instrument_id req, ca_order_id req)) \<and>
    ar_reservations (en_account_risk e') =
      (ar_reservations (en_account_risk e))((ca_instrument_id req, ca_order_id req) := None) \<and>
    (\<forall>a i. state_for (en_account_risk e') a i =
      (if a = ca_account_id req \<and> i = ca_instrument_id req
       then released_state rv (rv_remaining_quantity rv) (rv_reserved_margin rv) (state_for (en_account_risk e) a i)
       else state_for (en_account_risk e) a i)) \<and>
    (\<forall>a i. as_position (state_for (en_account_risk e') a i) = as_position (state_for (en_account_risk e) a i))"
proof -
  let ?oid = "ca_order_id req" and ?i = "ca_instrument_id req"
  note agree = books_agree_at [OF engine_invD(2) [OF inv]]
  have open_order: "interest_of (en_account_risk e) ?i ?oid = Some (rv_side rv, rv_account_id rv, open_of rv)"
    using rv(1) by (auto simp: interest_of_Some)
  then obtain bk where bk: "en_order_books e ?i = Some bk" using agree(4) by fastforce
  have b: "book_inv bk" and int: "interest_of (en_account_risk e) ?i = book_interest bk"
    using agree bk by blast+
  obtain loc where loc: "order_locations bk ?oid = Some loc"
    using open_order book_interest_None [OF b, of ?oid] unfolding int by auto
  have owner: "ca_account_id req = ol_account_id loc"
    using book_interest_location [OF b loc] open_order int rv(2) by auto
  obtain e1 where e1: "engine_cancel_order stale e req =
        Inr (e1, snd (book_cancel_order stale bk req), publish (en_event_sink e) (snd (book_cancel_order stale bk req)))"
      "en_account_risk e1 =
        risk_apply (en_account_risk e) (cancel_context req) (snd (book_cancel_order stale bk req)) False"
      "\<And>a i. as_position (state_for (en_account_risk e1) a i) = as_position (state_for (en_account_risk e) a i)"
    by (rule cancel_ok [OF inv bk, of stale]) blast
  obtain bk' ty where res: "book_cancel_order stale bk req = (bk', [canceled_event stale req ty])"
    using book_cancel_interest [OF b loc owner, of stale] by blast
  have e': "e' = e1" "events = [canceled_event stale req ty]" using call e1(1) res by auto
  have ar: "en_account_risk e' = release (en_account_risk e) (?i, ?oid) u64_max"
    by (simp add: e' e1(2) res risk_apply_def canceled_event_def cancel_context_def)
  have all: "min u64_max (rv_remaining_quantity rv) = rv_remaining_quantity rv"
    by (rule min_absorb2) simp
  have "ar_reservations (en_account_risk e') = (ar_reservations (en_account_risk e))((?i, ?oid) := None)"
    by (simp only: ar release_reservations [OF rv(1)] all rest_of_def if_True refl)
  moreover have "state_for (en_account_risk e') a i = (if a = ca_account_id req \<and> i = ?i
      then released_state rv (rv_remaining_quantity rv) (rv_reserved_margin rv) (state_for (en_account_risk e) a i)
      else state_for (en_account_risk e) a i)" for a i
    by (simp only: ar release_state_for [OF rv(1)] all released_margin_def if_True refl rv(2) fst_conv)
  ultimately show ?thesis using e1(3) by (simp add: e' canceled_event_def)
qed

lemma cancel_of_stranger:
  assumes inv: "engine_inv e"
    and no: "\<nexists>rv. ar_reservations (en_account_risk e) (ca_instrument_id req, ca_order_id req) = Some rv \<and>
      rv_account_id rv = ca_account_id req"
    and call: "engine_cancel_order stale e req = Inr (e', events, calls)"
  shows "(\<exists>rj. events = [Order_Rejected rj]) \<and> en_order_books e' = en_order_books e \<and>
    en_account_risk e' = en_account_risk e"
proof (cases "en_order_books e (ca_instrument_id req)")
  case None
  have "registry_find (en_instruments e) (ca_instrument_id req) = None"
    using books_agree_at(3) [OF engine_invD(2) [OF inv]] None by blast
  then show ?thesis
    using call by (auto simp: engine_cancel_order_def engine_reject_def Let_def)
next
  case (Some bk)
  let ?res = "book_cancel_order stale bk req"
  note agree = books_agree_at [OF engine_invD(2) [OF inv]]
  have "\<exists>rj. ?res = (bk, [Order_Rejected rj])"
  proof (cases "order_locations bk (ca_order_id req)")
    case None
    then show ?thesis by (simp add: book_cancel_order_def cancel_rejected_def)
  next
    case loc: (Some loc)
    obtain n where "interest_of (en_account_risk e) (ca_instrument_id req) (ca_order_id req) =
        Some (ol_side loc, ol_account_id loc, n)"
      using book_interest_location [OF agree(1) [OF Some] loc] agree(2) [OF Some] by auto
    then have "ca_account_id req \<noteq> ol_account_id loc" using no by (auto simp: interest_of_Some)
    then show ?thesis using loc by (simp add: book_cancel_order_def cancel_rejected_def)
  qed
  moreover obtain e1 where "engine_cancel_order stale e req = Inr (e1, snd ?res, publish (en_event_sink e) (snd ?res))"
      "en_order_books e1 = (en_order_books e)(ca_instrument_id req \<mapsto> fst ?res)"
      "en_account_risk e1 = risk_apply (en_account_risk e) (cancel_context req) (snd ?res) False"
    by (rule cancel_ok [OF inv Some, of stale]) blast
  ultimately show ?thesis
    using call Some by (auto simp: risk_apply_def cancel_context_def fun_upd_idem)
qed

text \<open>A cancel changes nothing but through the book of its instrument.\<close>

lemma engine_cancel_effect:
  assumes inv: "engine_inv e" and call: "engine_cancel_order stale e req = Inr (e', events, calls)"
  obtains rj where "e' = e" "events = [Order_Rejected rj]"
    | bk where "en_order_books e (ca_instrument_id req) = Some bk" "book_inv bk"
      "events = snd (book_cancel_order stale bk req)"
      "en_order_books e' = (en_order_books e)(ca_instrument_id req \<mapsto> fst (book_cancel_order stale bk req))"
proof (cases "en_order_books e (ca_instrument_id req)")
  case None
  then have "registry_find (en_instruments e) (ca_instrument_id req) = None"
    using books_agree_at(3) [OF engine_invD(2) [OF inv]] by blast
  then show thesis
    using call that(1) by (auto simp: engine_cancel_order_def engine_reject_def Let_def)
next
  case (Some bk)
  show thesis
    by (rule cancel_ok [OF inv Some, of stale], rule that(2) [OF Some])
      (use call books_agree_at(1) [OF engine_invD(2) [OF inv] Some] in auto)
qed

section \<open>Place\<close>

text \<open>What rests in the books.\<close>

definition resting :: "engine \<Rightarrow> instrument_id \<Rightarrow> open_interest" where
  "resting e i = (case en_order_books e i of None \<Rightarrow> Map.empty | Some bk \<Rightarrow> book_interest bk)"

text \<open>What a batch of events trades against one resting order.\<close>

definition traded_against :: "instrument_id \<Rightarrow> order_id \<Rightarrow> event_batch \<Rightarrow> nat" where
  "traded_against i oid events =
     (\<Sum>t\<leftarrow>trades_of events.
        if te_instrument_id t = i \<and> te_resting_order_id t = oid then unat (te_execution_quantity t) else 0)"

lemma resting_ledger: "engine_inv e \<Longrightarrow> resting e i = interest_of (en_account_risk e) i"
  using books_agree_at [OF engine_invD(2), of e i]
  by (cases "en_order_books e i") (auto simp: resting_def fun_eq_iff)

lemma traded_against_for:
  assumes "trades_of events = [] \<or> trades_for order (trades_of events)"
  shows "traded_against i oid events = (if i = o_instrument_id order
    then \<Sum>t\<leftarrow>trades_of events. if te_resting_order_id t = oid then unat (te_execution_quantity t) else 0
    else 0)"
proof -
  have "te_instrument_id t = o_instrument_id order" if "t \<in> set (trades_of events)" for t
    using assms that by (auto simp: trades_for_def)
  then have "traded_against i oid events = (\<Sum>t\<leftarrow>trades_of events. if i = o_instrument_id order
      then if te_resting_order_id t = oid then unat (te_execution_quantity t) else 0 else 0)"
    unfolding traded_against_def by (intro arg_cong [where f = sum_list] map_cong) auto
  then show ?thesis by simp
qed

text \<open>A placed order is refused and changes nothing, or goes to its book.\<close>

abbreviation book_order :: "place_order \<Rightarrow> order_t" where
  "book_order req \<equiv> request_order req New_Order (pl_account_id req)"

lemma book_order_fields:
  "o_instrument_id (book_order req) = pl_instrument_id req" "o_order_id (book_order req) = pl_order_id req"
  "o_account_id (book_order req) = pl_account_id req"
  by (simp_all add: request_order_def)

lemma engine_place_effect:
  assumes inv: "engine_inv e" and call: "engine_place_order e req = Inr (e', events, calls)"
  obtains rj where "e' = e" "events = [Order_Rejected rj]"
    | bk where "en_order_books e (pl_instrument_id req) = Some bk" "book_inv bk"
      "o_quantity (book_order req) > Quantity 0"
      "events = snd (book_place_order bk (book_order req))"
      "en_order_books e' =
        (en_order_books e)(pl_instrument_id req \<mapsto> fst (book_place_order bk (book_order req)))"
      "en_instruments e' = en_instruments e"
      "en_account_risk e' = risk_apply
        (if contains_order bk (pl_order_id req) then en_account_risk e else reserve (en_account_risk e) req)
        req events (\<not> contains_order bk (pl_order_id req))"
      "\<And>a i. as_position (state_for (en_account_risk e') a i) = as_position (state_for (en_account_risk e) a i) +
        (if i = pl_instrument_id req then moved_by (pl_side req) a (trades_of events) else 0)"
proof (cases "admission e req")
  case (Some reason)
  then obtain order where "engine_place_order e req = engine_reject e order reason"
    by (rule engine_place_refused)
  then show thesis using call that(1) by (auto simp: engine_reject_def Let_def)
next
  case None
  obtain bk where bk: "en_order_books e (pl_instrument_id req) = Some bk" "structurally_valid req"
      "engine_place_order e req = place_accepted e req (contains_order bk (pl_order_id req))"
      "\<not> contains_order bk (pl_order_id req) \<longrightarrow> account_evaluate (en_account_risk e) req = Account_None"
    by (rule engine_place_admitted [OF inv None])
  have q: "pl_quantity req \<noteq> 0" using bk(2) by (simp add: structurally_valid_def)
  have b: "book_inv bk" using books_agree_at(1) [OF engine_invD(2) [OF inv] bk(1)] .
  have pos: "o_quantity (book_order req) > Quantity 0"
    using q by (simp add: request_order_def less_quantity_def word_neq_0_conv)
  show thesis
    by (rule place_accepted_ok [OF inv bk(1) q refl bk(4)], rule that(2) [OF bk(1) b pos])
      (use call bk(3) in auto)
qed

lemma place_resting:
  assumes inv: "engine_inv e" and call: "engine_place_order e req = Inr (e', events, calls)"
  shows "resting e i oid \<noteq> None \<Longrightarrow>
      quantity_of (resting e i oid) = quantity_of (resting e' i oid) + traded_against i oid events"
    and "resting e' i oid = Some (s, a, m) \<Longrightarrow>
      (\<exists>n. resting e i oid = Some (s, a, n)) \<or>
      (resting e i oid = None \<and> i = pl_instrument_id req \<and> oid = pl_order_id req \<and> a = pl_account_id req)"
proof -
  have "(resting e i oid \<noteq> None \<longrightarrow>
      quantity_of (resting e i oid) = quantity_of (resting e' i oid) + traded_against i oid events) \<and>
    (resting e' i oid = Some (s, a, m) \<longrightarrow> (\<exists>n. resting e i oid = Some (s, a, n)) \<or>
      (resting e i oid = None \<and> i = pl_instrument_id req \<and> oid = pl_order_id req \<and> a = pl_account_id req))"
    using inv call
  proof (cases rule: engine_place_effect)
    case (1 rj)
    then show ?thesis by (simp add: traded_against_def)
  next
    case (2 bk)
    have res: "book_place_order bk (book_order req) = (fst (book_place_order bk (book_order req)), events)"
      by (simp add: 2(4))
    note takes = order_book.place_takes [OF 2(2,3) res]
    have here: "resting e (pl_instrument_id req) = book_interest bk"
        "resting e' (pl_instrument_id req) = book_interest (fst (book_place_order bk (book_order req)))"
      by (simp_all add: resting_def 2(1,5))
    show ?thesis
      using takes(2) [of oid] takes(3) [of oid s a m]
      by (cases "i = pl_instrument_id req")
        (simp_all add: traded_against_for [OF takes(1)] book_order_fields here, simp_all add: resting_def 2(5))
  qed
  then show "resting e i oid \<noteq> None \<Longrightarrow>
      quantity_of (resting e i oid) = quantity_of (resting e' i oid) + traded_against i oid events"
    and "resting e' i oid = Some (s, a, m) \<Longrightarrow>
      (\<exists>n. resting e i oid = Some (s, a, n)) \<or>
      (resting e i oid = None \<and> i = pl_instrument_id req \<and> oid = pl_order_id req \<and> a = pl_account_id req)"
    by blast+
qed

lemma cancel_resting:
  assumes inv: "engine_inv e" and call: "engine_cancel_order stale e req = Inr (e', events, calls)"
  shows "resting e' i oid = resting e i oid \<or>
      (resting e' i oid = None \<and> (\<exists>s n. resting e i oid = Some (s, ca_account_id req, n)))"
    and "trades_of events = []"
proof -
  note ledger = resting_ledger [OF inv, of i] resting_ledger [OF conjunct1 [OF engine_cancel_inv [OF inv call]], of i]
  have "(resting e' i oid = resting e i oid \<or>
      (resting e' i oid = None \<and> (\<exists>s n. resting e i oid = Some (s, ca_account_id req, n)))) \<and>
    trades_of events = []"
  proof (cases "\<exists>rv. ar_reservations (en_account_risk e) (ca_instrument_id req, ca_order_id req) = Some rv \<and>
      rv_account_id rv = ca_account_id req")
    case True
    then obtain rv where rv: "ar_reservations (en_account_risk e) (ca_instrument_id req, ca_order_id req) = Some rv"
        "rv_account_id rv = ca_account_id req" by blast
    from cancel_of_owner [OF inv rv call] show ?thesis
      using rv by (auto simp: ledger interest_of_def)
  next
    case False
    from cancel_of_stranger [OF inv False call] show ?thesis by (auto simp: resting_def)
  qed
  then show "resting e' i oid = resting e i oid \<or>
      (resting e' i oid = None \<and> (\<exists>s n. resting e i oid = Some (s, ca_account_id req, n)))"
    and "trades_of events = []"
    by blast+
qed

end
