(* ===== verification/Matching_Engine_Decisions.thy ===== *)
theory Matching_Engine_Decisions
  imports Matching_Engine_Effects
begin

text \<open>
  What one call of the matching engine decides and does in a reachable state: the exact
  admission decision in integer arithmetic, the effect of a batch on the positions, that a
  rejection changes nothing, and what a cancel gives back.
\<close>

section \<open>Admission\<close>

text \<open>The decision as a careful reader would write it down, over the integers.\<close>

definition spec_admission :: "engine \<Rightarrow> place_order \<Rightarrow> reject_reason option" where
  "spec_admission e req =
     (let c = en_configuration e; q = uint (pl_quantity req); p = sint (pl_price req);
          i = pl_instrument_id req; st = state_for (en_account_risk e) (pl_account_id req) i
      in if find_instrument e i = None then Some Unknown_Instrument
         else if q = 0 \<or> (if pl_order_type req = Market then p \<noteq> 0 else p \<le> 0) then Some Invalid_Order
         else if q > uint (maximum_order_quantity c) then Some Risk_Quantity_Limit
         else if pl_order_type req \<noteq> Market \<and> p > sint (maximum_order_price c)
         then Some Risk_Fat_Finger_Limit
         else if pl_order_type req \<noteq> Market \<and> p * q > uint (maximum_order_notional c)
         then Some Risk_Notional_Limit
         else if engine_contains_order e i (pl_order_id req) then None
         else if uint (as_open_order_quantity st) + q > uint (maximum_open_order_quantity c)
         then Some Risk_Open_Order_Limit
         else if sint (as_position st) + uint (as_buy_reserved_quantity st) +
                (if pl_side req = Buy then q else 0) > sint (position_limit c) \<or>
              sint (as_position st) - uint (as_sell_reserved_quantity st) -
                (if pl_side req = Sell then q else 0) < - sint (position_limit c)
         then Some Risk_Position_Limit
         else if uint (as_reserved_margin st) + uint (margin_for c req) > uint (maximum_account_credit c)
         then Some Risk_Credit_Limit
         else None)"

lemma sint_zero_iff: "sint (x :: i64) = 0 \<longleftrightarrow> x = 0"
  using signed_word_eqI [of x 0] by auto

lemma structurally_valid_int:
  "\<not> structurally_valid req \<longleftrightarrow>
     uint (pl_quantity req) = 0 \<or>
     (if pl_order_type req = Market then sint (pl_price req) \<noteq> 0 else sint (pl_price req) \<le> 0)"
  by (auto simp: structurally_valid_def word_sless_alt unsigned_eq_0_iff sint_zero_iff)

lemma risk_evaluate_int:
  assumes "structurally_valid req"
  shows "risk_evaluate c req = Inr
    (if uint (pl_quantity req) > uint (maximum_order_quantity c) then Quantity_Limit
     else if pl_order_type req = Market then Risk_None
     else if sint (pl_price req) > sint (maximum_order_price c) then Fat_Finger_Limit
     else if sint (pl_price req) * uint (pl_quantity req) > uint (maximum_order_notional c)
     then Notional_Limit else Risk_None)"
proof (cases "pl_order_type req = Market")
  case True
  then show ?thesis by (simp add: risk_evaluate_market word_less_nat_alt [symmetric] word_less_def [symmetric])
next
  case False
  then have p: "0 <s pl_price req" using assms by (auto simp: structurally_valid_def)
  have prod: "sint (pl_price req) * uint (pl_quantity req) =
      int (unat (pl_price req) * unat (pl_quantity req))"
    using sint_positive_unat(2) [OF p] by simp
  have notional: "sint (pl_price req) * uint (pl_quantity req) > uint (maximum_order_notional c) \<longleftrightarrow>
      unat (maximum_order_notional c) < unat (pl_price req) * unat (pl_quantity req)"
    unfolding prod by (simp only: uint_nat of_nat_less_iff)
  show ?thesis
    using risk_evaluate_limit [OF p False, of c] False notional sint_positive_unat(2) [OF p]
    by (simp add: word_less_nat_alt [symmetric] word_less_def [symmetric])
qed

text \<open>The nesting of the two risk checks inside the engine, as one list of reasons.\<close>

lemma decision_shape:
  "(case Inr (if Q then Quantity_Limit else if M then Risk_None else if P then Fat_Finger_Limit
       else if N then Notional_Limit else Risk_None) of
      Inl f \<Rightarrow> None
    | Inr r \<Rightarrow>
        if r \<noteq> Risk_None then Some (risk_reason r)
        else if \<not> D \<and> (if O' then Open_Order_Limit else if X then Position_Limit
            else if C then Credit_Limit else Account_None) \<noteq> Account_None
        then Some (account_reason (if O' then Open_Order_Limit else if X then Position_Limit
            else if C then Credit_Limit else Account_None))
        else None) =
   (if Q then Some Risk_Quantity_Limit
    else if \<not> M \<and> P then Some Risk_Fat_Finger_Limit
    else if \<not> M \<and> N then Some Risk_Notional_Limit
    else if D then None
    else if O' then Some Risk_Open_Order_Limit
    else if X then Some Risk_Position_Limit
    else if C then Some Risk_Credit_Limit
    else None)"
  by (simp add: risk_reason_def account_reason_def)

lemma engine_exposure:
  assumes "engine_inv e" and "config_safe (en_configuration e)"
  shows "exposure_ok (en_account_risk e)"
  using engine_invD(3) [OF assms(1)] engine_invD(7) [OF assms(1)] assms(2)
    new_account_risk_ok(3) [of "en_configuration e"]
  by (simp add: settles_def new_account_risk_def)

lemma admission_valid:
  assumes "find_instrument e (pl_instrument_id req) \<noteq> None" and "structurally_valid req"
  shows "admission e req =
    (case risk_evaluate (en_configuration e) req of Inl _ \<Rightarrow> None
     | Inr r \<Rightarrow>
         if r \<noteq> Risk_None then Some (risk_reason r)
         else if \<not> engine_contains_order e (pl_instrument_id req) (pl_order_id req) \<and>
                 account_evaluate (en_account_risk e) req \<noteq> Account_None
         then Some (account_reason (account_evaluate (en_account_risk e) req))
         else None)"
  unfolding admission_def using assms by (simp only: find_instrument_def simp_thms if_False)

lemma admission_exact:
  assumes "engine_reachable c e" and "config_safe c"
  shows "admission e req = spec_admission e req"
proof -
  note r = engine_reachable_inv [OF assms(1)]
  note inv = engine_invD [OF conjunct1 [OF r]]
  have safe: "config_safe (en_configuration e)" using assms(2) conjunct2 [OF r] by simp
  note account = account_evaluate_exact [OF inv(5,6) engine_exposure [OF conjunct1 [OF r] safe],
      unfolded inv(7), OF safe, of req, unfolded Let_def]
  show ?thesis
  proof (cases "find_instrument e (pl_instrument_id req) = None")
    case True
    then show ?thesis by (simp add: admission_def spec_admission_def Let_def find_instrument_def)
  next
    case known: False
    show ?thesis
    proof (cases "structurally_valid req")
      case False
      then have "uint (pl_quantity req) = 0 \<or>
          (if pl_order_type req = Market then sint (pl_price req) \<noteq> 0 else sint (pl_price req) \<le> 0)"
        using structurally_valid_int [of req] by blast
      then show ?thesis
        unfolding spec_admission_def Let_def if_not_P [OF known]
        using known False by (simp only: if_True admission_def find_instrument_def if_False not_False_eq_True)
    next
      case valid: True
      have ok: "\<not> (uint (pl_quantity req) = 0 \<or>
          (if pl_order_type req = Market then sint (pl_price req) \<noteq> 0 else sint (pl_price req) \<le> 0))"
        using valid structurally_valid_int [of req] by blast
      show ?thesis
        unfolding admission_valid [OF known valid] risk_evaluate_int [OF valid] account decision_shape
          spec_admission_def Let_def if_not_P [OF known] if_not_P [OF ok] ..
    qed
  qed
qed

text \<open>
  C8: the engine decides exactly by its limits. With a safe configuration (\<open>config_safe\<close>, which
  excludes the default one, where the position check can wrap), in every reachable state, a request is rejected with the first of these reasons that applies, in integer
  arithmetic: unknown instrument, invalid price or quantity, order quantity, price and notional
  limits, then (unless the order id is already open, which the book rejects as a duplicate) the
  open order, position and credit limits of its account; the rejection leaves the engine as it
  was. Otherwise the book of the instrument decides, and its batch is returned unchanged.
\<close>

theorem engine_decision_exact:
  assumes "engine_reachable c e" and "config_safe c"
    and "engine_place_order e req = Inr (e', events, calls)"
  shows "case spec_admission e req of
      Some reason \<Rightarrow> e' = e \<and> (\<exists>rj. events = [Order_Rejected rj] \<and> rj_reason rj = reason \<and>
        rj_instrument_id rj = pl_instrument_id req \<and> rj_order_id rj = pl_order_id req)
    | None \<Rightarrow> (\<exists>bk. en_order_books e (pl_instrument_id req) = Some bk \<and>
        (en_order_books e' (pl_instrument_id req), events) =
          (case book_place_order bk (request_order req New_Order (pl_account_id req)) of
             (bk', evs) \<Rightarrow> (Some bk', evs)))"
proof (cases "admission e req")
  case (Some reason)
  then obtain order where order:
      "engine_place_order e req = engine_reject e order reason"
      "o_instrument_id order = pl_instrument_id req" "o_order_id order = pl_order_id req"
    by (rule engine_place_refused)
  then show ?thesis
    using Some assms(3) by (auto simp: admission_exact [OF assms(1,2), symmetric] engine_reject_def Let_def)
next
  case None
  have inv: "engine_inv e" using engine_reachable_inv [OF assms(1)] by blast
  obtain bk where bk: "en_order_books e (pl_instrument_id req) = Some bk" "structurally_valid req"
      "engine_place_order e req = place_accepted e req (contains_order bk (pl_order_id req))"
    by (rule engine_place_admitted [OF inv None])
  then show ?thesis
    using None assms(3)
    by (auto simp: admission_exact [OF assms(1,2), symmetric] place_accepted_def Let_def split: prod.splits)
qed

lemma demo_engine_facts:
  "engine_inv demo_engine" "en_configuration demo_engine = demo_limits"
  "find_instrument demo_engine 1 \<noteq> None"
proof -
  show inv: "engine_inv demo_engine" and "en_configuration demo_engine = demo_limits"
    using engine_reachable_inv [OF demo_engine_reachable] by blast+
  show "find_instrument demo_engine 1 \<noteq> None"
    using books_agree_at(3) [OF engine_invD(2) [OF inv], of 1] demo_engine_eval
    by (simp add: find_instrument_def)
qed

lemma demo_admissions:
  "spec_admission demo_engine (demo_request 6 Sell 100 9 Limit 7) = Some Risk_Position_Limit"
  "spec_admission demo_engine (demo_request 6 Buy 100 2 Limit 9) = None"
  using demo_engine_facts(3) demo_engine_eval
  by (simp_all add: spec_admission_def Let_def demo_engine_facts(2) demo_request_def demo_limits_def
      default_config_def engine_contains_order_def contains_order_def position_limit_def zero_state_def
      margin_for_def saturated_multiply_def)

theorem engine_decision_exact_witness:
  "\<exists>events calls rj. engine_place_order demo_engine (demo_request 6 Sell 100 9 Limit 7) =
     Inr (demo_engine, events, calls) \<and> events = [Order_Rejected rj] \<and> rj_reason rj = Risk_Position_Limit"
proof -
  obtain e' events calls where
      res: "engine_place_order demo_engine (demo_request 6 Sell 100 9 Limit 7) = Inr (e', events, calls)"
    using engine_place_returns [OF demo_engine_facts(1)] by blast
  from engine_decision_exact [OF demo_engine_reachable demo_limits_safe res] res
  show ?thesis by (auto simp: demo_admissions)
qed

section \<open>Effects of a placed order\<close>

lemma rejection_traceless:
  assumes "engine_inv e"
    and "engine_place_order e req = Inr (e', events, calls)" and "Order_Rejected rj \<in> set events"
  shows "events = [Order_Rejected rj] \<and>
    en_order_books e' = en_order_books e \<and> en_instruments e' = en_instruments e \<and>
    state_for (en_account_risk e') = state_for (en_account_risk e) \<and>
    ar_reservations (en_account_risk e') = ar_reservations (en_account_risk e)"
  using assms(1,2)
proof (cases rule: engine_place_effect)
  case (1 rj')
  then show ?thesis using assms(3) by simp
next
  case (2 bk)
  note d = engine_invD [OF assms(1)]
  have "\<exists>rj'. book_place_order bk (book_order req) = (bk, [Order_Rejected rj'])"
    using order_book.place_duplicate [OF 2(2), of "book_order req"] order_book.place_contract [OF 2(2,3)]
      assms(3) 2(4)
    by (cases "book_interest bk (o_order_id (book_order req))") fastforce+
  then have res: "book_place_order bk (book_order req) = (bk, [Order_Rejected rj])"
    and events: "events = [Order_Rejected rj]"
    using assms(3) 2(4) by auto
  have "state_for (en_account_risk e') = state_for (en_account_risk e) \<and>
      ar_reservations (en_account_risk e') = ar_reservations (en_account_risk e)"
  proof (cases "contains_order bk (pl_order_id req)")
    case True
    then show ?thesis by (simp add: 2(7) events risk_apply_def)
  next
    case False
    then have "book_interest bk (pl_order_id req) = None" using interest_contains [OF 2(2)] by simp
    then have "ar_reservations (en_account_risk e) (pl_instrument_id req, pl_order_id req) = None"
      using books_agree_at(2) [OF d(2) 2(1)] by (simp add: interest_of_None [symmetric])
    from reserve_give_back [OF this, of rj] show ?thesis
      using False by (simp add: 2(7) events)
  qed
  then show ?thesis using 2(1,5,6) res events by (simp add: fun_upd_idem)
qed

text \<open>
  C16: a rejected order leaves no trace. When \<open>place_order\<close> returns a reject event in a reachable
  state, whether before or inside the book, and although the engine reserves quantity and
  margin before it asks the book, every book, the registry, every account state and every
  reservation are as they were.
\<close>

theorem rejected_order_changes_nothing:
  assumes "engine_reachable c e"
    and "engine_place_order e req = Inr (e', events, calls)" and "Order_Rejected rj \<in> set events"
  shows "events = [Order_Rejected rj] \<and>
    en_order_books e' = en_order_books e \<and> en_instruments e' = en_instruments e \<and>
    state_for (en_account_risk e') = state_for (en_account_risk e) \<and>
    ar_reservations (en_account_risk e') = ar_reservations (en_account_risk e)"
  by (rule rejection_traceless [OF conjunct1 [OF engine_reachable_inv [OF assms(1)]] assms(2,3)])

theorem rejected_order_changes_nothing_witness:
  "\<exists>e' rj calls. engine_place_order demo_engine (demo_request 1 Buy 100 1 Limit 9) =
       Inr (e', [Order_Rejected rj], calls) \<and>
     state_for (en_account_risk e') = state_for (en_account_risk demo_engine)"
proof -
  let ?req = "demo_request 1 Buy 100 1 Limit 9"
  have cfg: "en_configuration demo_engine = demo_limits" and inv: "engine_inv demo_engine"
    using engine_reachable_inv [OF demo_engine_reachable] by blast+
  obtain inst where known: "registry_find (en_instruments demo_engine) 1 = Some inst"
    using books_agree_at(3) [OF engine_invD(2) [OF inv], of 1] demo_engine_eval by auto
  obtain bk where bk: "en_order_books demo_engine 1 = Some bk" "contains_order bk 1"
    using demo_engine_eval by (simp add: contains_order_def)
  have risk: "risk_evaluate demo_limits ?req = Inr Risk_None"
    by (simp add: risk_evaluate_def demo_request_def demo_limits_def default_config_def word_sless_alt)
  have place: "engine_place_order demo_engine ?req = place_accepted demo_engine ?req True"
    using known risk bk
    by (simp add: engine_place_order_def Let_def cfg engine_contains_order_def)
      (simp add: demo_request_def word_sless_alt)
  have "\<exists>e' rj calls. place_accepted demo_engine ?req True = Inr (e', [Order_Rejected rj], calls)"
    using bk by (auto simp: place_accepted_def request_order_def demo_request_def book_place_order_def
        book_reject_def contains_order_def)
  then obtain e' rj calls where
      res: "engine_place_order demo_engine ?req = Inr (e', [Order_Rejected rj], calls)"
    unfolding place by blast
  have "Order_Rejected rj \<in> set [Order_Rejected rj]" by simp
  from rejected_order_changes_nothing [OF demo_engine_reachable res this] res show ?thesis by blast
qed

text \<open>
  C14: positions move by the trades and by nothing else. After \<open>place_order\<close> in a reachable
  state, the position of every account in every instrument has changed exactly by the trades of
  the returned batch: plus or minus the executed quantity for the incoming account and the
  opposite for the resting account that the trade names, both for a trade with oneself, in the
  64-bit arithmetic of the engine.
\<close>

theorem positions_follow_trades:
  assumes "engine_reachable c e" and "engine_place_order e req = Inr (e', events, calls)"
  shows "engine_account_position e' a i = engine_account_position e a i +
    (if i = pl_instrument_id req
     then \<Sum>t\<leftarrow>trades_of events.
       (if t_incoming_account_id (te_trade t) = a
        then signed_by (pl_side req) (te_execution_quantity t) else 0) +
       (if t_resting_account_id (te_trade t) = a
        then - signed_by (pl_side req) (te_execution_quantity t) else 0)
     else 0)"
  using conjunct1 [OF engine_reachable_inv [OF assms(1)]] assms(2)
proof (cases rule: engine_place_effect)
  case (1 rj)
  then show ?thesis by simp
next
  case (2 bk)
  show ?thesis
    unfolding engine_account_position_def account_position_def 2(8) moved_by_def
      trade_move_def signed_by_opposite ..
qed

theorem positions_follow_trades_witness:
  "\<exists>e' events calls. engine_place_order demo_engine (demo_request 6 Buy 100 2 Limit 9) = Inr (e', events, calls) \<and>
     engine_account_position e' 9 1 = 5 \<and> engine_account_position e' 7 1 = -5"
proof -
  let ?req = "demo_request 6 Buy 100 2 Limit 9"
  have adm: "admission demo_engine ?req = None"
    using admission_exact [OF demo_engine_reachable demo_limits_safe] by (simp add: demo_admissions)
  have bk: "en_order_books demo_engine 1 = Some
     \<lparr>buy_levels = [], sell_levels = [(Price 100, [demo_ask 1 2])],
      order_locations = [1 \<mapsto> \<lparr>ol_side = Sell, ol_price = Price 100, ol_account_id = 7\<rparr>],
      next_execution_id = 2\<rparr>" (is "_ = Some ?bk")
    using demo_engine_eval by blast
  have id: "pl_instrument_id ?req = 1" by (simp add: demo_request_def)
  have dup: "\<not> contains_order ?bk (pl_order_id ?req)" by (simp add: contains_order_def demo_request_def)
  have place: "engine_place_order demo_engine ?req = place_accepted demo_engine ?req False"
    using bk dup id by (rule_tac engine_place_admitted [OF demo_engine_facts(1) adm]) simp
  have "trades_of (snd (book_place_order ?bk (request_order ?req New_Order 9))) =
      [make_trade (request_order ?req New_Order 9) 2 (Price 100) (demo_ask 1 2) (Quantity 2)]"
    by (simp add: book_eval request_order_def demo_request_def demo_ask_def)
  moreover have "\<exists>e' calls. place_accepted demo_engine ?req False =
      Inr (e', snd (book_place_order ?bk (request_order ?req New_Order 9)), calls)"
    by (simp add: place_accepted_def id bk split: prod.split) (simp add: demo_request_def)
  ultimately obtain e' events calls where res: "engine_place_order demo_engine ?req = Inr (e', events, calls)"
      and trades: "trades_of events =
        [make_trade (request_order ?req New_Order 9) 2 (Price 100) (demo_ask 1 2) (Quantity 2)]"
    unfolding place by blast
  have "engine_account_position e' 9 1 = 5 \<and> engine_account_position e' 7 1 = -5"
    using positions_follow_trades [OF demo_engine_reachable res, of 9 1]
      positions_follow_trades [OF demo_engine_reachable res, of 7 1] demo_engine_eval
    by (simp add: trades make_trade_def demo_ask_def request_order_def demo_request_def signed_by_def
        engine_account_position_def account_position_def)
  then show ?thesis using res by blast
qed

section \<open>Effects of a cancel\<close>

text \<open>
  C17: a cancel releases exactly one order. In every reachable state \<open>cancel_order\<close> either
  rejects and changes nothing, which happens precisely when the account has no such open order,
  or cancels: the reservation of that order is gone and no other changes, the account's open
  quantity and margin in the instrument fall by exactly what the order had left, no other
  account state changes, and no position moves.
\<close>

theorem cancel_releases_the_order:
  assumes "engine_reachable c e"
    and "engine_cancel_order stale e req = Inr (e', events, calls)"
  defines "k \<equiv> (ca_instrument_id req, ca_order_id req)"
    and "R \<equiv> ar_reservations (en_account_risk e)"
    and "st \<equiv> \<lambda>e a i. state_for (en_account_risk e) a i"
  shows "if \<exists>rv. R k = Some rv \<and> rv_account_id rv = ca_account_id req
    then (\<exists>cn. events = [Order_Canceled cn] \<and> (cn_instrument_id cn, cn_order_id cn) = k) \<and>
      ar_reservations (en_account_risk e') = R(k := None) \<and>
      as_open_order_quantity (st e' (ca_account_id req) (fst k)) =
        as_open_order_quantity (st e (ca_account_id req) (fst k)) - rv_remaining_quantity (the (R k)) \<and>
      as_reserved_margin (st e' (ca_account_id req) (fst k)) =
        as_reserved_margin (st e (ca_account_id req) (fst k)) - rv_reserved_margin (the (R k)) \<and>
      (\<forall>a i. (a, i) \<noteq> (ca_account_id req, fst k) \<longrightarrow> st e' a i = st e a i) \<and>
      (\<forall>a i. engine_account_position e' a i = engine_account_position e a i)
    else (\<exists>rj. events = [Order_Rejected rj]) \<and> en_order_books e' = en_order_books e \<and>
      en_account_risk e' = en_account_risk e"
proof (cases "\<exists>rv. R k = Some rv \<and> rv_account_id rv = ca_account_id req")
  case True
  then obtain rv where rv: "R k = Some rv" "rv_account_id rv = ca_account_id req" by blast
  note inv = conjunct1 [OF engine_reachable_inv [OF assms(1)]]
  from cancel_of_owner [OF inv rv [unfolded R_def k_def] assms(2)] show ?thesis
    using rv by (auto simp: R_def k_def st_def released_state_fields engine_account_position_def
        account_position_def)
next
  case False
  have "(\<exists>rj. events = [Order_Rejected rj]) \<and> en_order_books e' = en_order_books e \<and>
      en_account_risk e' = en_account_risk e"
    by (rule cancel_of_stranger [OF conjunct1 [OF engine_reachable_inv [OF assms(1)]]
        False [unfolded R_def k_def] assms(2)])
  then show ?thesis unfolding if_not_P [OF False] .
qed

theorem cancel_releases_the_order_witness:
  "\<exists>e' events calls. engine_cancel_order \<lparr>ol_side = Buy, ol_price = Price 0, ol_account_id = 0\<rparr> demo_engine
       \<lparr>ca_instrument_id = 1, ca_order_id = 1, ca_account_id = 7\<rparr> = Inr (e', events, calls) \<and>
     ar_reservations (en_account_risk e') (1, 1) = None \<and>
     as_reserved_margin (state_for (en_account_risk e') 7 1) = 0"
proof -
  let ?stale = "\<lparr>ol_side = Buy, ol_price = Price 0, ol_account_id = 0\<rparr>"
  obtain e' events calls where
      res: "engine_cancel_order ?stale demo_engine \<lparr>ca_instrument_id = 1, ca_order_id = 1, ca_account_id = 7\<rparr> =
        Inr (e', events, calls)"
    using engine_cancel_returns [OF demo_engine_facts(1)] by blast
  from cancel_releases_the_order [OF demo_engine_reachable res]
  have "ar_reservations (en_account_risk e') (1, 1) = None \<and>
     as_reserved_margin (state_for (en_account_risk e') 7 1) = 0"
    using demo_engine_eval by simp
  then show ?thesis using res by blast
qed

end
