(* ===== verification/Matching_Engine_Batches.thy ===== *)
theory Matching_Engine_Batches
  imports Matching_Engine_Effects
begin

text \<open>
  The shape of what the engine returns and publishes: a batch is a single rejection, a single
  cancellation, or an acceptance followed by trades, and its fields fit the request and each
  other. The result is stated as progress and preservation: in every reachable engine each
  request returns, with a well-formed batch, and leads to a reachable engine again.
\<close>

section \<open>Well-formed batches\<close>

text \<open>
  The event of a trade repeats fields of the trade record it carries; a trade is for the incoming
  order, against another order, of a positive quantity and within the limit of the request.
\<close>

definition trade_typed :: "place_order \<Rightarrow> trade_executed \<Rightarrow> bool" where
  "trade_typed req t \<longleftrightarrow>
     t_instrument_id (te_trade t) = te_instrument_id t \<and>
     t_incoming_order_id (te_trade t) = te_incoming_order_id t \<and>
     t_resting_order_id (te_trade t) = te_resting_order_id t \<and>
     t_execution_price (te_trade t) = Price (te_execution_price t) \<and>
     t_execution_quantity (te_trade t) = Quantity (te_execution_quantity t) \<and>
     te_instrument_id t = pl_instrument_id req \<and> te_incoming_order_id t = pl_order_id req \<and>
     t_incoming_account_id (te_trade t) = pl_account_id req \<and>
     te_resting_order_id t \<noteq> pl_order_id req \<and> 0 < te_execution_quantity t \<and>
     (pl_order_type req = Market \<or>
      (if pl_side req = Buy then te_execution_price t \<le>s pl_price req else pl_price req \<le>s te_execution_price t))"

fun place_batch_typed :: "place_order \<Rightarrow> event_batch \<Rightarrow> bool" where
  "place_batch_typed req [Order_Rejected rj] \<longleftrightarrow>
     rj_instrument_id rj = pl_instrument_id req \<and> rj_order_id rj = pl_order_id req \<and>
     o_instrument_id (rj_order rj) = pl_instrument_id req \<and> o_order_id (rj_order rj) = pl_order_id req \<and>
     o_side (rj_order rj) = pl_side req \<and> o_order_type (rj_order rj) = pl_order_type req \<and>
     o_status (rj_order rj) = Rejected"
| "place_batch_typed req (Order_Accepted a # evs) \<longleftrightarrow>
     ac_instrument_id a = pl_instrument_id req \<and> ac_order_id a = pl_order_id req \<and>
     ac_order a = request_order req New_Order (pl_account_id req) \<and>
     evs = map Trade_Executed (trades_of evs) \<and> list_all (trade_typed req) (trades_of evs) \<and>
     (\<Sum>t\<leftarrow>trades_of evs. unat (te_execution_quantity t)) \<le> unat (pl_quantity req)"
| "place_batch_typed req _ \<longleftrightarrow> False"

fun cancel_batch_typed :: "cancel_order \<Rightarrow> event_batch \<Rightarrow> bool" where
  "cancel_batch_typed req [Order_Rejected rj] \<longleftrightarrow>
     rj_instrument_id rj = ca_instrument_id req \<and> rj_order_id rj = ca_order_id req \<and>
     o_instrument_id (rj_order rj) = ca_instrument_id req \<and> o_order_id (rj_order rj) = ca_order_id req \<and>
     o_status (rj_order rj) = Rejected \<and>
     (rj_reason rj = Unknown_Instrument \<or> rj_reason rj = Unknown_Order_Id \<or> rj_reason rj = Unauthorized_Order)"
| "cancel_batch_typed req [Order_Canceled cn] \<longleftrightarrow>
     cn_instrument_id cn = ca_instrument_id req \<and> cn_order_id cn = ca_order_id req \<and>
     o_instrument_id (cn_order cn) = ca_instrument_id req \<and> o_order_id (cn_order cn) = ca_order_id req \<and>
     o_account_id (cn_order cn) = ca_account_id req \<and> o_status (cn_order cn) = Canceled"
| "cancel_batch_typed req _ \<longleftrightarrow> False"

section \<open>The batches of a book\<close>

lemma trade_list_made:
  "t \<in> set (trade_list order xid fs) \<Longrightarrow> \<exists>xid' p r x. (p, r, x) \<in> set fs \<and> t = make_trade order xid' p r x"
  by (induction order xid fs rule: trade_list.induct) fastforce+

lemma made_trade_typed:
  assumes "x > Quantity 0" and "ro_order_id r \<noteq> pl_order_id req" and "\<not> stops_at (book_order req) p"
  shows "trade_typed req (make_trade (book_order req) xid p r x)"
  using assms
  by (cases x; cases p; cases "pl_side req")
    (auto simp: trade_typed_def make_trade_def request_order_def less_quantity_def stops_at_def
      less_price_def word_sless_alt word_sle_eq)

lemma place_batch_shape:
  assumes inv: "book_inv bk" and pos: "o_quantity (book_order req) > Quantity 0"
  shows "place_batch_typed req (snd (book_place_order bk (book_order req)))"
  using inv pos
proof (cases rule: place_cases)
  case (refused reason)
  then show ?thesis by (simp add: book_reject_def request_order_def)
next
  case (executed v fs n ys)
  let ?o = "book_order req" and ?q = "side_queue (opposite (pl_side req)) bk"
  have match: "ref_match (\<lambda>p. \<not> stops_at ?o p) (o_quantity ?o) ?q = (fs, n, ys)"
    using executed(2) by (simp add: spec_match_def request_order_def)
  have "\<forall>(p, r) \<in> set ?q. ro_remaining_quantity r > Quantity 0"
    using book_inv_levels [OF inv, of "opposite (pl_side req)"]
    by (fastforce simp: side_queue_def set_queue_of levels_ok_def)
  note fills = ref_match_fills [OF match this]
  have fresh: "pl_order_id req \<notin> view_ids (view bk)"
    using executed(1) by (elim spec_place_executed_fills) (simp add: book_order_fields)
  have "trade_typed req t" if t_in: "t \<in> set (trade_list ?o (next_execution_id bk) fs)" for t
  proof -
    obtain xid p r x where t: "(p, r, x) \<in> set fs" "t = make_trade ?o xid p r x"
      using trade_list_made [OF t_in] by blast
    then have "ro_order_id r \<noteq> pl_order_id req"
      using fills fresh view_ids_memberI [of "(p, r)" "view bk" "opposite (pl_side req)"] by force
    then show ?thesis using made_trade_typed t fills by force
  qed
  moreover have "(\<Sum>t\<leftarrow>trade_list ?o (next_execution_id bk) fs. unat (te_execution_quantity t)) \<le> unat (pl_quantity req)"
    using ref_match_conserves [OF match] trade_list_quantity [of ?o "next_execution_id bk" fs]
    by (simp add: comp_def request_order_def qnat_def)
  ultimately show ?thesis
    using executed(3) by (simp add: accepted_event_def book_order_fields list_all_iff) (simp add: request_order_def)
qed

lemma cancel_batch_shape: "cancel_batch_typed req (snd (book_cancel_order stale bk req))"
  by (auto simp: book_cancel_order_def cancel_rejected_def Let_def split: option.split)

section \<open>Progress and preservation\<close>

lemma place_refused_shape:
  assumes "admission e req = Some reason"
  obtains rj where "engine_place_order e req = Inr (e, [Order_Rejected rj], publish (en_event_sink e) [Order_Rejected rj])"
    "place_batch_typed req [Order_Rejected rj]"
proof -
  have "\<exists>order. engine_place_order e req = engine_reject e order reason \<and>
      (order = blank_rejected_order req \<or> (\<exists>a. order = request_order req Rejected a))"
    using assms
    by (auto simp: admission_def engine_place_order_def structurally_valid_def Let_def
        split: if_splits sum.splits)
  then show thesis
    by (auto simp: engine_reject_def Let_def blank_rejected_order_def request_order_def intro: that)
qed

lemma placed_batch_typed:
  assumes inv: "engine_inv e" and place: "engine_place_order e req = Inr (e', events, calls)"
  shows "place_batch_typed req events"
proof (cases "admission e req")
  case (Some reason)
  show ?thesis by (rule place_refused_shape [OF Some]) (use place in simp)
next
  case None
  obtain bk where bk: "en_order_books e (pl_instrument_id req) = Some bk" "structurally_valid req"
      "engine_place_order e req = place_accepted e req (contains_order bk (pl_order_id req))"
    by (rule engine_place_admitted [OF inv None])
  have "o_quantity (book_order req) > Quantity 0"
    using bk(2) by (simp add: structurally_valid_def request_order_def less_quantity_def word_neq_0_conv)
  from place_batch_shape [OF books_agree_at(1) [OF engine_invD(2) [OF inv] bk(1)] this] show ?thesis
    using place bk(1,3) by (auto simp: place_accepted_def Let_def split: prod.splits)
qed

text \<open>
  C6: progress and preservation. In every reachable engine \<open>place_order\<close> and \<open>cancel_order\<close>
  return, whatever the request; the batch is well formed for the request (one rejection, one
  cancellation, or an acceptance of the request's own order followed only by trades, every one
  consistent in itself, for the request, against another order, of a positive quantity, within
  the limit, and together of at most the requested quantity); the sink receives the same batch;
  and the engine afterwards is reachable, so the same holds for the next request.
\<close>

theorem requests_progress_and_preserve:
  assumes "engine_reachable c e"
  shows "(\<exists>e' events. engine_place_order e req = Inr (e', events, publish (en_event_sink e) events) \<and>
      place_batch_typed req events \<and> engine_reachable c e') \<and>
    (\<exists>e' events. engine_cancel_order stale e creq = Inr (e', events, publish (en_event_sink e) events) \<and>
      cancel_batch_typed creq events \<and> engine_reachable c e')"
proof
  have inv: "engine_inv e" using engine_reachable_inv [OF assms] by blast
  obtain e' events where place: "engine_place_order e req = Inr (e', events, publish (en_event_sink e) events)"
    using engine_place_returns [OF inv] by blast
  have "place_batch_typed req events" by (rule placed_batch_typed [OF inv place])
  then show "\<exists>e' events. engine_place_order e req = Inr (e', events, publish (en_event_sink e) events) \<and>
      place_batch_typed req events \<and> engine_reachable c e'"
    using place reach_step [OF assms step_place [OF place]] by blast
  obtain e' events where cancel: "engine_cancel_order stale e creq = Inr (e', events, publish (en_event_sink e) events)"
    using engine_cancel_returns [OF inv] by blast
  then have "cancel_batch_typed creq events"
    using cancel_batch_shape [of creq stale]
    by (auto simp: engine_cancel_order_def engine_reject_def cancel_unknown_order_def Let_def
        split: if_splits option.splits prod.splits) (metis snd_conv)
  then show "\<exists>e' events. engine_cancel_order stale e creq = Inr (e', events, publish (en_event_sink e) events) \<and>
      cancel_batch_typed creq events \<and> engine_reachable c e'"
    using cancel reach_step [OF assms step_cancel [OF cancel]] by blast
qed

theorem requests_progress_and_preserve_witness:
  "\<exists>e' rj calls. engine_place_order demo_engine (demo_request 1 Buy 0 1 Limit 9) = Inr (e', [Order_Rejected rj], calls) \<and>
     o_status (rj_order rj) = Rejected \<and> engine_reachable demo_limits e'"
proof -
  let ?req = "demo_request 1 Buy 0 1 Limit 9"
  obtain e' events where call: "engine_place_order demo_engine ?req =
        Inr (e', events, publish (en_event_sink demo_engine) events)"
      and typed: "place_batch_typed ?req events" and reach: "engine_reachable demo_limits e'"
    using requests_progress_and_preserve [OF demo_engine_reachable, of ?req] by blast
  have "registry_find (en_instruments demo_engine) 1 \<noteq> None"
    using books_agree_at(3) [OF engine_invD(2) [OF conjunct1 [OF engine_reachable_inv [OF demo_engine_reachable]]], of 1]
      demo_engine_eval by simp
  then have "\<exists>rj. events = [Order_Rejected rj]"
    using call by (auto simp: engine_place_order_def engine_reject_def demo_request_def Let_def word_sless_alt)
  then show ?thesis using call typed reach by auto
qed

end
