(* ===== verification/Exchange_Spec.thy ===== *)
theory Exchange_Spec
  imports Order_Book_Correctness Matching_Engine
begin

text \<open>
  An abstract exchange, as the rules of the venue state it: which instruments are listed, one
  priority queue per instrument and side, a counter of executions, positions as integers, and the
  margin that each open order holds. It keeps no account totals, no reservations, no index and
  no price levels: what an account has open is counted from the queues. All arithmetic is over
  the naturals and integers; the only words left are identifiers and the fields of orders. Where
  the engine saturates a product at \<open>2 ^ 64 - 1\<close>, the rule says so.
\<close>

section \<open>State\<close>

record exchange =
  x_listed :: "instrument_id \<Rightarrow> bool"
  x_queues :: "instrument_id \<Rightarrow> book_view"
  x_counter :: "instrument_id \<Rightarrow> execution_id"
  x_position :: "account_id \<Rightarrow> instrument_id \<Rightarrow> int"
  x_margin :: "instrument_id \<Rightarrow> order_id \<Rightarrow> nat"

definition new_exchange :: exchange where
  "new_exchange = \<lparr>x_listed = (\<lambda>_. False), x_queues = (\<lambda>_ _. []), x_counter = (\<lambda>_. 1),
     x_position = (\<lambda>_ _. 0), x_margin = (\<lambda>_ _. 0)\<rparr>"

definition account_sum :: "(resting_order \<Rightarrow> nat) \<Rightarrow> account_id \<Rightarrow> queue_entry list \<Rightarrow> nat" where
  "account_sum g a xs = (\<Sum>(p, r)\<leftarrow>xs. if ro_account_id r = a then g r else 0)"

definition x_open :: "exchange \<Rightarrow> side \<Rightarrow> account_id \<Rightarrow> instrument_id \<Rightarrow> nat" where
  "x_open x s a i = account_sum (\<lambda>r. qnat (ro_remaining_quantity r)) a (x_queues x i s)"

definition x_held :: "exchange \<Rightarrow> account_id \<Rightarrow> instrument_id \<Rightarrow> nat" where
  "x_held x a i =
     account_sum (\<lambda>r. x_margin x i (ro_order_id r)) a (x_queues x i Buy) +
     account_sum (\<lambda>r. x_margin x i (ro_order_id r)) a (x_queues x i Sell)"

section \<open>Margin\<close>

definition capped :: "nat \<Rightarrow> nat" where
  "capped n = min (2 ^ 64 - 1) n"

definition initial_margin :: "engine_config \<Rightarrow> place_order \<Rightarrow> nat" where
  "initial_margin c req =
     (let notional = (if pl_order_type req = Market then unat (maximum_order_notional c)
                      else capped (unat (pl_price req) * unat (pl_quantity req)))
      in capped (notional * unat (initial_margin_basis_points c)) div 10000)"

text \<open>The margin freed when \<open>y\<close> of \<open>n\<close> is filled: everything with the last part, else its share.\<close>

definition margin_part :: "nat \<Rightarrow> nat \<Rightarrow> nat \<Rightarrow> nat" where
  "margin_part m y n = (if y = n then m else m div n * y + capped (m mod n * y) div n)"

text \<open>Every fill frees margin of the incoming order, which has \<open>n\<close> left, and of the resting one.\<close>

fun margins_after :: "order_id \<Rightarrow> nat \<Rightarrow> (order_id \<Rightarrow> nat) \<Rightarrow> fill list \<Rightarrow> order_id \<Rightarrow> nat" where
  "margins_after oid n M [] = M"
| "margins_after oid n M ((p, r, y) # fs) =
     margins_after oid (n - qnat y)
       (M(oid := M oid - margin_part (M oid) (qnat y) n,
          ro_order_id r := M (ro_order_id r) -
            margin_part (M (ro_order_id r)) (qnat y) (qnat (ro_remaining_quantity r)))) fs"

section \<open>Operations\<close>

definition x_register :: "exchange \<Rightarrow> instrument \<Rightarrow> exchange \<times> bool" where
  "x_register x inst =
     (if inst_id inst \<noteq> 0 \<and> symbol inst \<noteq> [] \<and> accepts_orders inst \<and> \<not> x_listed x (inst_id inst)
      then (x\<lparr>x_listed := (x_listed x)(inst_id inst := True)\<rparr>, True)
      else (x, False))"

definition x_limit :: "engine_config \<Rightarrow> int" where
  "x_limit c = min (2 ^ 63 - 1) (uint (maximum_position_quantity c))"

definition x_admission :: "engine_config \<Rightarrow> exchange \<Rightarrow> place_order \<Rightarrow> reject_reason option" where
  "x_admission c x req =
     (let q = uint (pl_quantity req); p = sint (pl_price req);
          a = pl_account_id req; i = pl_instrument_id req
      in if \<not> x_listed x i then Some Unknown_Instrument
         else if q = 0 \<or> (if pl_order_type req = Market then p \<noteq> 0 else p \<le> 0) then Some Invalid_Order
         else if q > uint (maximum_order_quantity c) then Some Risk_Quantity_Limit
         else if pl_order_type req \<noteq> Market \<and> p > sint (maximum_order_price c)
         then Some Risk_Fat_Finger_Limit
         else if pl_order_type req \<noteq> Market \<and> p * q > uint (maximum_order_notional c)
         then Some Risk_Notional_Limit
         else if pl_order_id req \<in> view_ids (x_queues x i) then None
         else if int (x_open x Buy a i + x_open x Sell a i) + q > uint (maximum_open_order_quantity c)
         then Some Risk_Open_Order_Limit
         else if x_position x a i + int (x_open x Buy a i) + (if pl_side req = Buy then q else 0) > x_limit c \<or>
              x_position x a i - int (x_open x Sell a i) - (if pl_side req = Sell then q else 0) < - x_limit c
         then Some Risk_Position_Limit
         else if int (x_held x a i + initial_margin c req) > uint (maximum_account_credit c)
         then Some Risk_Credit_Limit
         else None)"

text \<open>A fill moves the positions of the incoming account and of the account it trades with.\<close>

definition fills_move :: "side \<Rightarrow> account_id \<Rightarrow> fill list \<Rightarrow> account_id \<Rightarrow> int" where
  "fills_move s own fs a =
     (\<Sum>(p, r, y)\<leftarrow>fs.
        (if own = a then (if s = Buy then int (qnat y) else - int (qnat y)) else 0) +
        (if ro_account_id r = a then (if s = Buy then - int (qnat y) else int (qnat y)) else 0))"

definition x_place :: "engine_config \<Rightarrow> exchange \<Rightarrow> place_order \<Rightarrow> exchange \<times> outcome" where
  "x_place c x req =
     (let i = pl_instrument_id req; oid = pl_order_id req;
          order = request_order req New_Order (pl_account_id req)
      in case x_admission c x req of
           Some reason \<Rightarrow> (x, Refused reason)
         | None \<Rightarrow>
             (case spec_place (x_queues x i) order of
                (v, Refused reason) \<Rightarrow> (x, Refused reason)
              | (v, Executed fs) \<Rightarrow>
                  let M = margins_after oid (unat (pl_quantity req))
                            ((x_margin x i)(oid := initial_margin c req)) fs
                  in (x\<lparr>x_queues := (x_queues x)(i := v),
                        x_counter := (x_counter x)(i := x_counter x i + of_nat (length fs)),
                        x_position := (\<lambda>a j. x_position x a j +
                          (if j = i then fills_move (pl_side req) (pl_account_id req) fs a else 0)),
                        x_margin := (x_margin x)(i :=
                          if is_immediate (pl_order_type req) then M(oid := 0) else M)\<rparr>,
                      Executed fs)))"

definition x_cancel :: "exchange \<Rightarrow> cancel_order \<Rightarrow> exchange \<times> reject_reason option" where
  "x_cancel x req =
     (let i = ca_instrument_id req; oid = ca_order_id req; v = x_queues x i
      in if \<not> x_listed x i then (x, Some Unknown_Instrument)
         else case find (\<lambda>(p, r). ro_order_id r = oid) (v Buy @ v Sell) of
                None \<Rightarrow> (x, Some Unknown_Order_Id)
              | Some (p, r) \<Rightarrow>
                  if ro_account_id r \<noteq> ca_account_id req then (x, Some Unauthorized_Order)
                  else (x\<lparr>x_queues := (x_queues x)(i := \<lambda>s. filter (\<lambda>(p, r). ro_order_id r \<noteq> oid) (v s)),
                          x_margin := (x_margin x)(i := (x_margin x i)(oid := 0))\<rparr>, None))"

section \<open>Histories\<close>

text \<open>A request to the exchange, what it answers, and the answers to a list of requests.\<close>

datatype request = Register_Instrument instrument | Place place_order | Cancel cancel_order

datatype answer =
  Registration bool
| Placement order_t execution_id outcome
| Cancellation cancel_order "reject_reason option"

fun x_serve :: "engine_config \<Rightarrow> exchange \<Rightarrow> request \<Rightarrow> exchange \<times> answer" where
  "x_serve c x (Register_Instrument inst) = apsnd Registration (x_register x inst)"
| "x_serve c x (Place req) =
     apsnd (Placement (request_order req New_Order (pl_account_id req)) (x_counter x (pl_instrument_id req)))
       (x_place c x req)"
| "x_serve c x (Cancel req) = apsnd (Cancellation req) (x_cancel x req)"

fun x_run :: "engine_config \<Rightarrow> exchange \<Rightarrow> request list \<Rightarrow> exchange \<times> answer list" where
  "x_run c x [] = (x, [])"
| "x_run c x (r # rs) =
     (let (x', a) = x_serve c x r; (x'', as) = x_run c x' rs in (x'', a # as))"

section \<open>Answers\<close>

text \<open>
  The same requests served by the engine, which answers a registration with a Boolean and the
  others with a batch of events; \<open>None\<close> when a call faults. A history gives with every request
  the stack contents that a cancel reads there.
\<close>

datatype reply = Flag bool | Events event_batch

fun engine_serve :: "order_location \<Rightarrow> engine \<Rightarrow> request \<Rightarrow> (engine \<times> reply) option" where
  "engine_serve stale e (Register_Instrument inst) = Some (apsnd Flag (register_instrument e inst))"
| "engine_serve stale e (Place req) =
     (case engine_place_order e req of
        Inl f \<Rightarrow> None | Inr (e', events, calls) \<Rightarrow> Some (e', Events events))"
| "engine_serve stale e (Cancel req) =
     (case engine_cancel_order stale e req of
        Inl f \<Rightarrow> None | Inr (e', events, calls) \<Rightarrow> Some (e', Events events))"

type_synonym history = "(order_location \<times> request) list"

fun engine_run :: "engine \<Rightarrow> history \<Rightarrow> (engine \<times> reply list) option" where
  "engine_run e [] = Some (e, [])"
| "engine_run e ((stale, r) # hs) =
     (case engine_serve stale e r of
        None \<Rightarrow> None
      | Some (e', reply) \<Rightarrow>
          (case engine_run e' hs of
             None \<Rightarrow> None | Some (e'', replies) \<Rightarrow> Some (e'', reply # replies)))"

text \<open>When a reply says what the exchange answered.\<close>

definition is_reject :: "instrument_id \<Rightarrow> order_id \<Rightarrow> reject_reason \<Rightarrow> event_batch \<Rightarrow> bool" where
  "is_reject i oid reason events \<longleftrightarrow>
     (case events of
        [Order_Rejected rj] \<Rightarrow> rj_reason rj = reason \<and> rj_instrument_id rj = i \<and> rj_order_id rj = oid
      | _ \<Rightarrow> False)"

definition is_canceled :: "instrument_id \<Rightarrow> order_id \<Rightarrow> event_batch \<Rightarrow> bool" where
  "is_canceled i oid events \<longleftrightarrow>
     (case events of
        [Order_Canceled cn] \<Rightarrow> cn_instrument_id cn = i \<and> cn_order_id cn = oid
      | _ \<Rightarrow> False)"

fun conveys :: "reply \<Rightarrow> answer \<Rightarrow> bool" where
  "conveys (Flag b) (Registration b') \<longleftrightarrow> b = b'"
| "conveys (Events events) (Placement order xid (Refused reason)) \<longleftrightarrow>
     is_reject (o_instrument_id order) (o_order_id order) reason events"
| "conveys (Events events) (Placement order xid (Executed fs)) \<longleftrightarrow>
     events = outcome_events order xid (Executed fs)"
| "conveys (Events events) (Cancellation req (Some reason)) \<longleftrightarrow>
     is_reject (ca_instrument_id req) (ca_order_id req) reason events"
| "conveys (Events events) (Cancellation req None) \<longleftrightarrow>
     is_canceled (ca_instrument_id req) (ca_order_id req) events"
| "conveys _ _ \<longleftrightarrow> False"

end
