(* ===== verification/Exchange_Ledger.thy ===== *)
theory Exchange_Ledger
  imports Exchange_Spec Matching_Engine_Decisions
begin

text \<open>
  The account risk manager seen from the abstract exchange: the account totals are sums over the
  queues of the books, positions move by the fills in integers, and the margins of the
  reservations are those that the rules of the exchange compute.
\<close>

section \<open>Account totals\<close>

definition margin_at :: "account_risk \<Rightarrow> instrument_id \<Rightarrow> order_id \<Rightarrow> nat" where
  "margin_at ar i k = (case ar_reservations ar (i, k) of None \<Rightarrow> 0 | Some rv \<Rightarrow> margin_of rv)"

text \<open>The reservations of one side of an instrument, summed over the queue of that side.\<close>

lemma queue_total:
  assumes inv: "book_inv bk" and R: "interest_of ar i = book_interest bk"
  shows "map_sum (weight (\<lambda>rv. if rv_side rv = s then g rv else 0) a i) (ar_reservations ar) =
    account_sum (\<lambda>r. case ar_reservations ar (i, ro_order_id r) of None \<Rightarrow> 0 | Some rv \<Rightarrow> g rv) a (side_queue s bk)"
proof -
  let ?R = "ar_reservations ar" and ?q = "side_queue s bk"
  let ?key = "\<lambda>e. (i, ro_order_id (snd e))"
  let ?w = "\<lambda>k. case ?R k of None \<Rightarrow> 0
      | Some rv \<Rightarrow> weight (\<lambda>rv. if rv_side rv = s then g rv else 0) a i k rv"
  have entry: "\<exists>rv. ?R (i, ro_order_id r) = Some rv \<and> rv_side rv = s \<and> rv_account_id rv = ro_account_id r"
    if "(p, r) \<in> set ?q" for p r
    using book_interest_entry(1) [OF inv that] by (auto simp: R [symmetric] interest_of_Some)
  have "?w k = 0" if "k \<notin> ?key ` set ?q" for k
  proof (rule ccontr)
    assume "?w k \<noteq> 0"
    then obtain rv where rv: "?R k = Some rv" "rv_side rv = s" "fst k = i"
      by (auto simp: weight_def split: option.splits if_splits)
    then have "book_interest bk (snd k) = Some (s, rv_account_id rv, open_of rv)"
      by (cases k) (auto simp: R [symmetric] interest_of_Some)
    then show False
      using that rv(3) by (elim book_interest_SomeE [OF inv]) (cases k, force)
  qed
  then have "map_sum (weight (\<lambda>rv. if rv_side rv = s then g rv else 0) a i) ?R = (\<Sum>k \<in> ?key ` set ?q. ?w k)"
    unfolding map_sum_def by (intro sum.mono_neutral_right) auto
  also have "\<dots> = (\<Sum>e \<in> set ?q. ?w (?key e))"
    using side_queue_distinct [OF inv, of s]
    by (subst sum.reindex) (auto simp: distinct_map inj_on_def)
  also have "\<dots> = (\<Sum>e\<leftarrow>?q. ?w (?key e))"
    using side_queue_distinct [OF inv, of s] by (simp add: sum_list_distinct_conv_sum_set distinct_map)
  also have "\<dots> = account_sum (\<lambda>r. case ?R (i, ro_order_id r) of None \<Rightarrow> 0 | Some rv \<Rightarrow> g rv) a ?q"
    unfolding account_sum_def
    by (intro arg_cong [where f = sum_list] map_cong refl) (auto simp: weight_def dest!: entry)
  finally show ?thesis .
qed

lemma account_sum_cong:
  "(\<And>p r. (p, r) \<in> set xs \<Longrightarrow> g r = h r) \<Longrightarrow> account_sum g a xs = account_sum h a xs"
  unfolding account_sum_def by (intro arg_cong [where f = sum_list] map_cong) auto

lemma queue_open:
  assumes inv: "book_inv bk" and R: "interest_of ar i = book_interest bk"
  shows "map_sum (weight (open_on s) a i) (ar_reservations ar) =
    account_sum (\<lambda>r. qnat (ro_remaining_quantity r)) a (side_queue s bk)"
proof -
  have "open_on s = (\<lambda>rv. if rv_side rv = s then open_of rv else 0)" by (simp add: open_on_def fun_eq_iff)
  moreover have "(case ar_reservations ar (i, ro_order_id r) of None \<Rightarrow> 0 | Some rv \<Rightarrow> open_of rv) =
      qnat (ro_remaining_quantity r)" if "(p, r) \<in> set (side_queue s bk)" for p r
    using book_interest_entry(1) [OF inv that] by (auto simp: R [symmetric] interest_of_Some)
  ultimately show ?thesis
    using queue_total [OF assms, of s open_of a] by (simp cong: account_sum_cong)
qed

lemma weight_sides:
  "weight g a i k rv = weight (\<lambda>rv. if rv_side rv = Buy then g rv else 0) a i k rv +
     weight (\<lambda>rv. if rv_side rv = Sell then g rv else 0) a i k rv"
  by (cases "rv_side rv") (simp_all add: weight_def)

lemma totals_from_queues:
  assumes ok: "ledger_ok ar" and inv: "book_inv bk" and R: "interest_of ar i = book_interest bk"
  shows "unat (as_buy_reserved_quantity (state_for ar a i)) =
      account_sum (\<lambda>r. qnat (ro_remaining_quantity r)) a (side_queue Buy bk)"
    and "unat (as_sell_reserved_quantity (state_for ar a i)) =
      account_sum (\<lambda>r. qnat (ro_remaining_quantity r)) a (side_queue Sell bk)"
    and "unat (as_open_order_quantity (state_for ar a i)) =
      unat (as_buy_reserved_quantity (state_for ar a i)) + unat (as_sell_reserved_quantity (state_for ar a i))"
    and "unat (as_reserved_margin (state_for ar a i)) =
      account_sum (\<lambda>r. margin_at ar i (ro_order_id r)) a (side_queue Buy bk) +
      account_sum (\<lambda>r. margin_at ar i (ro_order_id r)) a (side_queue Sell bk)"
proof -
  note tr = ledger_tracked [OF ok, THEN tracked_value]
  have split: "map_sum (weight g a i) (ar_reservations ar) =
      map_sum (weight (\<lambda>rv. if rv_side rv = Buy then g rv else 0) a i) (ar_reservations ar) +
      map_sum (weight (\<lambda>rv. if rv_side rv = Sell then g rv else 0) a i) (ar_reservations ar)" for g
    unfolding map_sum_add [symmetric] by (rule map_sum_cong) (rule weight_sides)
  show "unat (as_buy_reserved_quantity (state_for ar a i)) =
      account_sum (\<lambda>r. qnat (ro_remaining_quantity r)) a (side_queue Buy bk)"
    and "unat (as_sell_reserved_quantity (state_for ar a i)) =
      account_sum (\<lambda>r. qnat (ro_remaining_quantity r)) a (side_queue Sell bk)"
    using queue_open [OF inv R] by (simp_all add: tr)
  show "unat (as_open_order_quantity (state_for ar a i)) =
      unat (as_buy_reserved_quantity (state_for ar a i)) + unat (as_sell_reserved_quantity (state_for ar a i))"
    unfolding tr split [of open_of] by (simp add: open_on_def [abs_def])
  show "unat (as_reserved_margin (state_for ar a i)) =
      account_sum (\<lambda>r. margin_at ar i (ro_order_id r)) a (side_queue Buy bk) +
      account_sum (\<lambda>r. margin_at ar i (ro_order_id r)) a (side_queue Sell bk)"
    unfolding tr split [of margin_of] queue_total [OF inv R] by (simp add: margin_at_def [abs_def])
qed

section \<open>Positions in integers\<close>

text \<open>How a list of trades of an order on side \<open>s\<close> moves a position, without wrap-around.\<close>

definition int_move :: "side \<Rightarrow> account_id \<Rightarrow> trade_executed \<Rightarrow> int" where
  "int_move s a t =
     (if t_incoming_account_id (te_trade t) = a then signed_by s (uint (te_execution_quantity t)) else 0) +
     (if t_resting_account_id (te_trade t) = a then signed_by (opposite s) (uint (te_execution_quantity t)) else 0)"

lemma settle_leg_sint:
  assumes "ledger_ok ar" and "exposure_ok ar"
    and R: "ar_reservations ar k = Some rv" and x: "unat x \<le> open_of rv"
  shows "sint (as_position (state_for (settle_leg ar k x) a i)) = sint (as_position (state_for ar a i)) +
    (if a = rv_account_id rv \<and> i = fst k then signed_by (rv_side rv) (uint x) else 0)"
  using leg_position [OF assms] by (simp add: settle_leg_state_for [OF R])

lemma trade_sint:
  assumes ok: "ledger_ok ar" and lim: "within_limits ar" and ex: "exposure_ok ar"
    and own: "interest_of ar i oid = Some (s, a, n)" and other: "interest_of ar i rid = Some (opposite s, b, m)"
    and x: "unat x \<le> n" "unat x \<le> m"
  shows "sint (as_position (state_for (settle_leg (settle_leg ar (i, oid) x) (i, rid) x) c j)) =
    sint (as_position (state_for ar c j)) +
    (if j = i then (if a = c then signed_by s (uint x) else 0) + (if b = c then signed_by (opposite s) (uint x) else 0)
     else 0)"
proof -
  let ?ar1 = "settle_leg ar (i, oid) x"
  obtain rv where rv: "ar_reservations ar (i, oid) = Some rv" "rv_side rv = s" "open_of rv = n"
      "rv_account_id rv = a"
    using own by (auto simp: interest_of_Some)
  have "rid \<noteq> oid" using own other by (cases s) auto
  then have "interest_of ?ar1 i rid = Some (opposite s, b, m)"
    using other by (simp add: interest_of_settle_leg)
  then obtain rw where rw: "ar_reservations ?ar1 (i, rid) = Some rw" "rv_side rw = opposite s"
      "open_of rw = m" "rv_account_id rw = b"
    by (auto simp: interest_of_Some)
  have ex1: "exposure_ok ?ar1" by (rule settle_leg_exposure [OF ok ex rv(1)]) (simp add: rv(3) x)
  have m: "unat x \<le> open_of rw" "unat x \<le> open_of rv" using x rw(3) rv(3) by simp_all
  show ?thesis
    using settle_leg_sint [OF settle_leg_ledger [OF ok] ex1 rw(1) m(1), of c j]
      settle_leg_sint [OF ok ex rv(1) m(2), of c j]
    by (auto simp: rv rw)
qed

lemma trades_sint:
  assumes "ledger_ok ar" and "within_limits ar"
    and "backed (interest_of ar i) s oid ts"
    and "\<And>s' a' n. interest_of ar i oid = Some (s', a', n) \<Longrightarrow> a' = pl_account_id req"
    and "pl_instrument_id req = i" "pl_order_id req = oid" "pl_side req = s"
    and "\<forall>t \<in> set ts. te_instrument_id t = i \<and> t_incoming_account_id (te_trade t) = pl_account_id req"
  shows "exposure_ok ar \<longrightarrow> config_safe (ar_configuration ar) \<longrightarrow>
    (\<forall>c j. sint (as_position (state_for (foldl (apply_event req True) ar (map Trade_Executed ts)) c j)) =
      sint (as_position (state_for ar c j)) + (if j = i then \<Sum>t\<leftarrow>ts. int_move s c t else 0))"
  using assms
proof (rule trades_induct)
  fix ar and t :: trade_executed and ts n m
  let ?x = "te_execution_quantity t" and ?rid = "te_resting_order_id t"
  let ?ar' = "settle_leg (settle_leg ar (i, oid) ?x) (i, ?rid) ?x"
  let ?goal = "\<lambda>ar ts. exposure_ok ar \<longrightarrow> config_safe (ar_configuration ar) \<longrightarrow>
    (\<forall>c j. sint (as_position (state_for (foldl (apply_event req True) ar (map Trade_Executed ts)) c j)) =
      sint (as_position (state_for ar c j)) + (if j = i then \<Sum>t\<leftarrow>ts. int_move s c t else 0))"
  assume ok: "ledger_ok ar" "within_limits ar"
    and own: "interest_of ar i oid = Some (s, pl_account_id req, n)"
    and other: "interest_of ar i ?rid = Some (opposite s, t_resting_account_id (te_trade t), m)"
    and x: "unat ?x \<le> n" "unat ?x \<le> m" and id: "t_incoming_account_id (te_trade t) = pl_account_id req"
    and ev: "apply_event req True ar (Trade_Executed t) = ?ar'"
    and IH: "?goal ?ar' ts"
  show "?goal ar (t # ts)"
  proof (intro impI allI)
    fix c j
    assume ex: "exposure_ok ar" and safe: "config_safe (ar_configuration ar)"
    have "exposure_ok ?ar'" and "ar_configuration ?ar' = ar_configuration ar"
      using settles_trade(1) [OF ok own other x] ex safe by (simp_all add: settles_def)
    then show "sint (as_position (state_for (foldl (apply_event req True) ar (map Trade_Executed (t # ts))) c j)) =
        sint (as_position (state_for ar c j)) + (if j = i then \<Sum>t\<leftarrow>t # ts. int_move s c t else 0)"
      using IH safe trade_sint [OF ok ex own other x, of c j]
      by (simp add: ev int_move_def id del: apply_event.simps(1))
  qed
qed (simp_all)

section \<open>Margins\<close>

lemma released_margin_part:
  assumes "d \<le> rv_remaining_quantity rv" and "0 < rv_remaining_quantity rv"
  shows "unat (released_margin rv d) = margin_part (margin_of rv) (unat d) (open_of rv)"
  using proportional_release_unat [OF assms, of "rv_reserved_margin rv"]
  by (auto simp: released_margin_def margin_part_def margin_of_def open_of_def capped_def word_unat_eq_iff)

lemma margin_at_settle_leg:
  assumes ok: "ledger_ok ar" and R: "interest_of ar i k = Some (s, a, n)" and x: "unat x \<le> n"
  shows "margin_at (settle_leg ar (i, k) x) = (margin_at ar)
    (i := (margin_at ar i)(k := margin_at ar i k - margin_part (margin_at ar i k) (unat x) n))"
proof -
  obtain rv where rv: "ar_reservations ar (i, k) = Some rv" "open_of rv = n"
    using R by (auto simp: interest_of_Some)
  have pos: "0 < rv_remaining_quantity rv" using ok rv(1) by (rule ledger_positive)
  have d: "min x (rv_remaining_quantity rv) = x" "x \<le> rv_remaining_quantity rv"
    using x rv(2) by (simp_all add: open_of_def min_def word_le_nat_alt)
  have "ar_reservations (settle_leg ar (i, k) x) = (ar_reservations ar)((i, k) := rest_of rv x)"
    using release_reservations [OF rv(1), of x] rv(1) by (simp add: settle_leg_def risk_frame d)
  moreover have "(case rest_of rv x of None \<Rightarrow> 0 | Some rv' \<Rightarrow> margin_of rv') =
      margin_of rv - margin_part (margin_of rv) (unat x) n"
    using rest_of_parts(3) [OF d(2) pos] released_margin_part [OF d(2) pos] rv(2) by simp
  ultimately show ?thesis
    using rv(1) by (auto simp: margin_at_def fun_eq_iff)
qed

text \<open>Fills as trades: distinct resting orders, each filled from the quantity it has open.\<close>

definition fills_fit :: "open_interest \<Rightarrow> order_id \<Rightarrow> fill list \<Rightarrow> bool" where
  "fills_fit V oid fs \<longleftrightarrow>
     distinct (map (\<lambda>(p, r, y). ro_order_id r) fs) \<and> oid \<notin> (\<lambda>(p, r, y). ro_order_id r) ` set fs \<and>
     (\<forall>(p, r, y) \<in> set fs. quantity_of (V (ro_order_id r)) = qnat (ro_remaining_quantity r))"

lemma fills_fit_Cons:
  assumes "fills_fit V oid ((p, r, y) # fs)"
    and "\<And>k. k \<noteq> oid \<Longrightarrow> k \<noteq> ro_order_id r \<Longrightarrow> W k = V k"
  shows "ro_order_id r \<noteq> oid" and "quantity_of (V (ro_order_id r)) = qnat (ro_remaining_quantity r)"
    and "fills_fit W oid fs"
proof -
  show "ro_order_id r \<noteq> oid" and "quantity_of (V (ro_order_id r)) = qnat (ro_remaining_quantity r)"
    using assms(1) by (auto simp: fills_fit_def)
  have "W (ro_order_id r') = V (ro_order_id r')" if "(p', r', y') \<in> set fs" for p' r' y'
    by (rule assms(2)) (use assms(1) that in \<open>force simp: fills_fit_def\<close>)+
  then show "fills_fit W oid fs" using assms(1) by (auto simp: fills_fit_def)
qed

lemma make_trade_fields:
  "te_resting_order_id (make_trade order xid p r y) = ro_order_id r"
  "unat (te_execution_quantity (make_trade order xid p r y)) = qnat y"
  "uint (te_execution_quantity (make_trade order xid p r y)) = int (qnat y)"
  "t_incoming_account_id (te_trade (make_trade order xid p r y)) = o_account_id order"
  "t_resting_account_id (te_trade (make_trade order xid p r y)) = ro_account_id r"
  by (simp_all add: make_trade_def qnat_def)

lemma trade_margin:
  assumes ok: "ledger_ok ar"
    and own: "interest_of ar i oid = Some (s, a, n)" and other: "interest_of ar i rid = Some (opposite s, b, m)"
    and x: "unat x \<le> n" "unat x \<le> m"
  shows "margin_at (settle_leg (settle_leg ar (i, oid) x) (i, rid) x) = (margin_at ar)(i := (margin_at ar i)
      (oid := margin_at ar i oid - margin_part (margin_at ar i oid) (unat x) n,
       rid := margin_at ar i rid - margin_part (margin_at ar i rid) (unat x) m))"
proof -
  let ?ar1 = "settle_leg ar (i, oid) x"
  have ne: "rid \<noteq> oid" using own other by (cases s) auto
  have m1: "margin_at ?ar1 = (margin_at ar)
      (i := (margin_at ar i)(oid := margin_at ar i oid - margin_part (margin_at ar i oid) (unat x) n))"
    by (rule margin_at_settle_leg [OF ok own x(1)])
  have "interest_of ?ar1 i rid = Some (opposite s, b, m)"
    using other ne by (simp add: interest_of_settle_leg)
  from margin_at_settle_leg [OF settle_leg_ledger [OF ok] this x(2)] show ?thesis
    using ne by (simp add: m1)
qed

lemma fills_step:
  assumes list: "t # ts = trade_list order xid fs" and fit: "fills_fit (interest_of ar i) oid fs"
    and own: "interest_of ar i oid = Some (s, a, n)"
    and other: "interest_of ar i (te_resting_order_id t) = Some (s', b, m)"
    and x: "unat (te_execution_quantity t) \<le> n"
  defines "ar' \<equiv> settle_leg (settle_leg ar (i, oid) (te_execution_quantity t))
      (i, te_resting_order_id t) (te_execution_quantity t)"
  obtains p r y fs' where "fs = (p, r, y) # fs'" "ts = trade_list order (xid + 1) fs'"
    "te_resting_order_id t = ro_order_id r" "unat (te_execution_quantity t) = qnat y"
    "m = qnat (ro_remaining_quantity r)" "fills_fit (interest_of ar' i) oid fs'"
    "quantity_of (interest_of ar' i oid) = n - qnat y"
proof -
  obtain p r y fs' where fs: "fs = (p, r, y) # fs'"
    and t: "t = make_trade order xid p r y" "ts = trade_list order (xid + 1) fs'"
    using list by (cases fs) auto
  note trade = make_trade_fields [of order xid p r y, folded t(1)]
  have int: "interest_of ar' i = take_from (take_from (interest_of ar i) oid (qnat y)) (ro_order_id r) (qnat y)"
    by (simp add: ar'_def interest_of_settle_leg trade)
  have "interest_of ar' i k = interest_of ar i k" if "k \<noteq> oid" "k \<noteq> ro_order_id r" for k
    using that by (simp add: int)
  note fit' = fills_fit_Cons [OF fit [unfolded fs] this]
  have "m = qnat (ro_remaining_quantity r)"
    using fit'(2) other by (simp add: trade quantity_of_def)
  moreover have "quantity_of (interest_of ar' i oid) = n - qnat y"
    using own x fit'(1) by (auto simp: int trade take_from_same quantity_of_def)
  ultimately show thesis using that fs t(2) trade(1,2) fit'(3) by blast
qed

lemma trades_margin:
  assumes "ledger_ok ar" and "within_limits ar"
    and "backed (interest_of ar i) s oid ts"
    and "\<And>s' a' n. interest_of ar i oid = Some (s', a', n) \<Longrightarrow> a' = pl_account_id req"
    and "pl_instrument_id req = i" "pl_order_id req = oid" "pl_side req = s"
    and "\<forall>t \<in> set ts. te_instrument_id t = i \<and> t_incoming_account_id (te_trade t) = pl_account_id req"
  shows "\<forall>fs xid. ts = trade_list order xid fs \<longrightarrow> fills_fit (interest_of ar i) oid fs \<longrightarrow>
    margin_at (foldl (apply_event req True) ar (map Trade_Executed ts)) = (margin_at ar)
      (i := margins_after oid (quantity_of (interest_of ar i oid)) (margin_at ar i) fs)"
  using assms
proof (rule trades_induct)
  fix ar
  show "\<forall>fs xid. [] = trade_list order xid fs \<longrightarrow> fills_fit (interest_of ar i) oid fs \<longrightarrow>
    margin_at (foldl (apply_event req True) ar (map Trade_Executed [])) = (margin_at ar)
      (i := margins_after oid (quantity_of (interest_of ar i oid)) (margin_at ar i) fs)"
    by (auto elim: trade_list.elims [OF sym])
next
  fix ar and t :: trade_executed and ts n m
  let ?x = "te_execution_quantity t" and ?rid = "te_resting_order_id t"
  let ?ar' = "settle_leg (settle_leg ar (i, oid) ?x) (i, ?rid) ?x"
  let ?goal = "\<lambda>ar ts. \<forall>fs xid. ts = trade_list order xid fs \<longrightarrow> fills_fit (interest_of ar i) oid fs \<longrightarrow>
    margin_at (foldl (apply_event req True) ar (map Trade_Executed ts)) = (margin_at ar)
      (i := margins_after oid (quantity_of (interest_of ar i oid)) (margin_at ar i) fs)"
  assume ok: "ledger_ok ar" "within_limits ar"
    and own: "interest_of ar i oid = Some (s, pl_account_id req, n)"
    and other: "interest_of ar i ?rid = Some (opposite s, t_resting_account_id (te_trade t), m)"
    and x: "unat ?x \<le> n" "unat ?x \<le> m"
    and ev: "apply_event req True ar (Trade_Executed t) = ?ar'"
    and IH: "?goal ?ar' ts"
  show "?goal ar (t # ts)"
  proof (intro allI impI)
    fix fs xid
    assume "t # ts = trade_list order xid fs" "fills_fit (interest_of ar i) oid fs"
    then obtain p r y fs' where fs: "fs = (p, r, y) # fs'" "ts = trade_list order (xid + 1) fs'"
        "?rid = ro_order_id r" "unat ?x = qnat y" "m = qnat (ro_remaining_quantity r)"
        "fills_fit (interest_of ?ar' i) oid fs'" "quantity_of (interest_of ?ar' i oid) = n - qnat y"
      by (rule fills_step [OF _ _ own other x(1)])
    have "margin_at (foldl (apply_event req True) ar (map Trade_Executed (t # ts))) =
        margin_at (foldl (apply_event req True) ?ar' (map Trade_Executed ts))"
      by (simp only: list.map foldl.simps ev)
    also have "\<dots> = (margin_at ?ar')(i := margins_after oid (n - qnat y) (margin_at ?ar' i) fs')"
      using IH fs(2,6,7) by metis
    finally show "margin_at (foldl (apply_event req True) ar (map Trade_Executed (t # ts))) = (margin_at ar)
        (i := margins_after oid (quantity_of (interest_of ar i oid)) (margin_at ar i) fs)"
      unfolding trade_margin [OF ok(1) own other x] by (simp add: own fs(1,3-5) quantity_of_def)
  qed
qed

lemma fills_move_trades:
  "o_account_id order = own \<Longrightarrow> (\<Sum>t\<leftarrow>trade_list order xid fs. int_move s a t) = fills_move s own fs a"
  by (induction order xid fs rule: trade_list.induct)
    (auto simp: fills_move_def int_move_def make_trade_fields signed_by_opposite, auto simp: signed_by_def)

section \<open>An executed order\<close>

lemma margin_at_reserve:
  "margin_at (reserve ar req) = (margin_at ar)(pl_instrument_id req := (margin_at ar (pl_instrument_id req))
     (pl_order_id req := unat (margin_for (ar_configuration ar) req)))"
  by (auto simp: fun_eq_iff margin_at_def reserve_reservations margin_of_def)

lemma margin_at_release_all:
  assumes "\<And>s a n. interest_of ar i k = Some (s, a, n) \<Longrightarrow> n \<le> unat q"
  shows "margin_at (release ar (i, k) q) = (margin_at ar)(i := (margin_at ar i)(k := 0))"
proof (cases "ar_reservations ar (i, k)")
  case None
  then show ?thesis by (auto simp: release_None margin_at_def fun_eq_iff)
next
  case (Some rv)
  then have "min q (rv_remaining_quantity rv) = rv_remaining_quantity rv"
    using assms [of "rv_side rv" "rv_account_id rv" "open_of rv"]
    by (simp add: interest_of_Some open_of_def min_def word_le_nat_alt word_unat_eq_iff)
  then show ?thesis
    by (auto simp: margin_at_def release_reservations [OF Some] rest_of_def fun_eq_iff)
qed

lemma executed_fills_fit:
  assumes inv: "book_inv bk" and place: "spec_place (view bk) order = (v, Executed fs)"
    and V: "\<And>k. k \<noteq> o_order_id order \<Longrightarrow> V k = book_interest bk k"
  shows "fills_fit V (o_order_id order) fs"
proof -
  let ?q = "side_queue (opposite (o_side order)) bk"
  obtain n ys where match: "spec_match (view bk) order = (fs, n, ys)"
    and fresh: "o_order_id order \<notin> view_ids (view bk)"
    using place by (elim spec_place_executed_fills) blast
  have taken: "map (\<lambda>(p, r, y). (p, r)) fs = take (length fs) ?q"
    using ref_match_prefix match by (simp add: spec_match_def view_def)
  have ids: "map (\<lambda>(p, r, y). ro_order_id r) fs = map (ro_order_id \<circ> snd) (take (length fs) ?q)"
    unfolding taken [symmetric] by auto
  have "distinct (map (\<lambda>(p, r, y). ro_order_id r) fs)"
    unfolding ids using side_queue_distinct [OF inv] by (simp add: take_map [symmetric] distinct_take)
  moreover have entry: "(p, r) \<in> set ?q" if "(p, r, y) \<in> set fs" for p r y
  proof -
    have "(p, r) \<in> set (map (\<lambda>(p, r, y). (p, r)) fs)" using that by force
    then show ?thesis unfolding taken by (rule in_set_takeD)
  qed
  moreover have ne: "ro_order_id r \<noteq> o_order_id order" if "(p, r, y) \<in> set fs" for p r y
    using fresh entry [OF that] by (force simp: view_ids_def view_def)
  moreover have "quantity_of (V (ro_order_id r)) = qnat (ro_remaining_quantity r)" if "(p, r, y) \<in> set fs" for p r y
    using book_interest_entry(1) [OF inv entry [OF that]] V [OF ne [OF that]] by (simp add: quantity_of_def)
  ultimately show ?thesis by (force simp: fills_fit_def)
qed

lemma executed_ledger:
  assumes inv: "book_inv bk" and R: "interest_of ar (pl_instrument_id req) = book_interest bk"
    and ok: "ledger_ok ar" and lim: "within_limits ar" and ex: "exposure_ok ar"
    and safe: "config_safe (ar_configuration ar)"
    and ev: "account_evaluate ar req = Account_None" and pos: "0 < pl_quantity req"
    and place: "spec_place (view bk) (book_order req) = (v, Executed fs)"
  defines "ar' \<equiv> risk_apply (reserve ar req) req
      (outcome_events (book_order req) (next_execution_id bk) (Executed fs)) True"
    and "M \<equiv> margins_after (pl_order_id req) (unat (pl_quantity req))
      ((margin_at ar (pl_instrument_id req))(pl_order_id req := unat (margin_for (ar_configuration ar) req))) fs"
  shows "sint (as_position (state_for ar' c j)) = sint (as_position (state_for ar c j)) +
      (if j = pl_instrument_id req then fills_move (pl_side req) (pl_account_id req) fs c else 0)"
    and "margin_at ar' = (margin_at ar)(pl_instrument_id req :=
      if is_immediate (pl_order_type req) then M(pl_order_id req := 0) else M)"
proof -
  let ?i = "pl_instrument_id req" and ?oid = "pl_order_id req" and ?order = "book_order req"
  let ?ar1 = "reserve ar req" and ?ts = "trade_list (book_order req) (next_execution_id bk) fs"
  let ?ar2 = "foldl (apply_event req True) ?ar1 (map Trade_Executed ?ts)"
  let ?V = "(book_interest bk)(?oid \<mapsto> (pl_side req, pl_account_id req, unat (pl_quantity req)))"
  have fields: "o_order_id ?order = ?oid" "o_side ?order = pl_side req" "o_account_id ?order = pl_account_id req"
      "o_instrument_id ?order = ?i" "qnat (o_quantity ?order) = unat (pl_quantity req)"
    by (simp_all add: request_order_def qnat_def)
  have "o_quantity ?order > Quantity 0" using pos by (simp add: request_order_def less_quantity_def)
  note interest = book_place_interest [OF inv this place, unfolded fields]
  have "?oid \<notin> view_ids (view bk)" using place fields(1) by (elim spec_place_executed_fills) simp
  then have "book_interest bk ?oid = None"
    by (simp add: view_ids_contains [OF inv] book_interest_None [OF inv])
  then have free: "ar_reservations ar (?i, ?oid) = None" by (simp add: R [symmetric] interest_of_None)
  have set1: "settles ar ?ar1" by (rule settles_reserve [OF ok lim ev free pos])
  then have ok1: "ledger_ok ?ar1" "within_limits ?ar1" and ex1: "exposure_ok ?ar1"
    and safe1: "config_safe (ar_configuration ?ar1)"
    using ex safe by (simp_all add: settles_def)
  have V: "interest_of ?ar1 ?i = ?V" by (simp add: interest_of_reserve R)
  have covered: "backed (interest_of ?ar1 ?i) (pl_side req) ?oid ?ts" using interest(1) by (simp add: V)
  have mine: "a' = pl_account_id req" if "interest_of ?ar1 ?i ?oid = Some (s', a', n)" for s' a' n
    using that by (simp add: V)
  have ts: "\<forall>t \<in> set ?ts. te_instrument_id t = ?i \<and> t_incoming_account_id (te_trade t) = pl_account_id req"
    using trades_for_trade_list [of ?order "next_execution_id bk" fs] by (simp add: trades_for_def fields)
  note args = ok1 covered mine refl refl refl ts
  have fit: "fills_fit (interest_of ?ar1 ?i) ?oid fs"
    using executed_fills_fit [OF inv place, of ?V] by (simp add: V fields)
  have ar': "ar' = (if is_immediate (pl_order_type req) then release ?ar2 (?i, ?oid) (pl_quantity req) else ?ar2)"
    by (auto simp: ar'_def risk_apply_def is_immediate_def accepted_event_def)
  have p2: "sint (as_position (state_for ?ar2 c j)) = sint (as_position (state_for ar c j)) +
      (if j = ?i then fills_move (pl_side req) (pl_account_id req) fs c else 0)"
    using trades_sint [OF args] ex1 safe1 fills_move_trades [of ?order "pl_account_id req"]
    by (simp add: fields reserve_position)
  have m2: "margin_at ?ar2 = (margin_at ar)(?i := M)"
    using trades_margin [OF args] fit
    by (simp add: M_def V quantity_of_def margin_at_reserve)
  have "interest_of ?ar2 ?i ?oid = Some (s, a, n) \<Longrightarrow> n \<le> unat (pl_quantity req)" for s a n
    using apply_trades [OF args] V by (auto intro: consume_bounded [of ?V ?oid])
  note all_off = margin_at_release_all [OF this]
  show "sint (as_position (state_for ar' c j)) = sint (as_position (state_for ar c j)) +
      (if j = ?i then fills_move (pl_side req) (pl_account_id req) fs c else 0)"
    using p2 by (cases "j = ?i") (simp_all add: ar' release_position)
  show "margin_at ar' = (margin_at ar)(?i := if is_immediate (pl_order_type req) then M(?oid := 0) else M)"
    using m2 all_off by (simp add: ar')
qed

end
