(* ===== verification/Exchange_Refinement.thy ===== *)
theory Exchange_Refinement
  imports Exchange_Ledger
begin

text \<open>
  The matching engine refines the abstract exchange: \<open>exchange_of\<close> forgets the price levels, the
  index of orders, the account totals and the reservations of a reachable engine, and every
  operation of the engine is the operation of the exchange on what is left.
\<close>

section \<open>The exchange inside an engine\<close>

definition exchange_of :: "engine \<Rightarrow> exchange" where
  "exchange_of e =
     \<lparr>x_listed = (\<lambda>i. find_instrument e i \<noteq> None),
      x_queues = (\<lambda>i. case en_order_books e i of None \<Rightarrow> \<lambda>_. [] | Some bk \<Rightarrow> view bk),
      x_counter = (\<lambda>i. case en_order_books e i of None \<Rightarrow> 1 | Some bk \<Rightarrow> next_execution_id bk),
      x_position = (\<lambda>a i. sint (engine_account_position e a i)),
      x_margin = (\<lambda>i k. margin_at (en_account_risk e) i k)\<rparr>"

lemma side_queue_empty [simp]: "side_queue s empty_book = []"
  by (cases s) (simp_all add: side_queue_def empty_book_def)

lemma view_empty_book: "view empty_book = (\<lambda>_. [])" "next_execution_id empty_book = 1"
  by (simp_all add: view_def empty_book_def [THEN arg_cong [where f = next_execution_id]])

lemma exchange_of_new: "exchange_of (new_engine c sink) = new_exchange"
  by (simp add: exchange_of_def new_exchange_def new_engine_def find_instrument_def registry_find_def
      engine_account_position_def account_position_def new_account_risk_def state_for_def zero_state_def
      margin_at_def)

lemma exchange_of_register:
  assumes "engine_inv e"
  shows "exchange_of (fst (register_instrument e inst)) = fst (x_register (exchange_of e) inst) \<and>
    snd (register_instrument e inst) = snd (x_register (exchange_of e) inst)"
proof (cases "registry_add (en_instruments e) inst")
  case (Pair reg added)
  note result = registry_add_result [of "en_instruments e" inst] registry_add_find [of "en_instruments e" inst]
  show ?thesis
  proof (cases added)
    case True
    then have "registry_find (en_instruments e) (inst_id inst) = None" using result(1) Pair by simp
    then have "en_order_books e (inst_id inst) = None"
      using books_agree_at(3) [OF engine_invD(2) [OF assms]] by blast
    then show ?thesis
      using result Pair True
      by (auto simp: register_instrument_def x_register_def exchange_of_def find_instrument_def emplace_def
          engine_account_position_def fun_eq_iff view_empty_book)
  next
    case False
    then show ?thesis
      using result Pair
      by (auto simp: register_instrument_def x_register_def exchange_of_def find_instrument_def
          engine_account_position_def)
  qed
qed

section \<open>Admission\<close>

lemma exchange_totals:
  assumes "engine_inv e"
  defines "st \<equiv> \<lambda>a i. state_for (en_account_risk e) a i"
  shows "unat (as_buy_reserved_quantity (st a i)) = x_open (exchange_of e) Buy a i"
    and "unat (as_sell_reserved_quantity (st a i)) = x_open (exchange_of e) Sell a i"
    and "unat (as_open_order_quantity (st a i)) =
      x_open (exchange_of e) Buy a i + x_open (exchange_of e) Sell a i"
    and "unat (as_reserved_margin (st a i)) = x_held (exchange_of e) a i"
proof -
  note d = engine_invD [OF assms(1)]
  define bk where "bk = (case en_order_books e i of None \<Rightarrow> empty_book | Some bk \<Rightarrow> bk)"
  have "book_interest empty_book = Map.empty"
    by (simp add: book_interest_def)
  then have "book_inv bk" "interest_of (en_account_risk e) i = book_interest bk"
    using books_agree_at [OF d(2), of i] book_inv_empty by (auto simp: bk_def split: option.split)
  note totals = totals_from_queues [OF d(5) this, of a]
  have queue: "x_queues (exchange_of e) i s = side_queue s bk" for s
    by (auto simp: exchange_of_def bk_def view_def split: option.split)
  have margin: "x_margin (exchange_of e) i = margin_at (en_account_risk e) i"
    by (simp add: exchange_of_def)
  show "unat (as_buy_reserved_quantity (st a i)) = x_open (exchange_of e) Buy a i"
    and "unat (as_sell_reserved_quantity (st a i)) = x_open (exchange_of e) Sell a i"
    and "unat (as_open_order_quantity (st a i)) =
      x_open (exchange_of e) Buy a i + x_open (exchange_of e) Sell a i"
    and "unat (as_reserved_margin (st a i)) = x_held (exchange_of e) a i"
    using totals by (simp_all add: st_def x_open_def x_held_def queue margin)
qed

lemma initial_margin_for: "unat (margin_for c req) = initial_margin c req"
  by (simp add: margin_for_def initial_margin_def Let_def unat_div saturated_multiply_unat capped_def)

lemma x_limit_position: "x_limit c = sint (position_limit c)"
proof (cases "maximum_position_quantity c > i64_max")
  case True
  then show ?thesis by (simp add: x_limit_def position_limit_def word_less_def)
next
  case False
  then have "position_limit c = maximum_position_quantity c" by (simp add: position_limit_def)
  moreover have "uint (maximum_position_quantity c) \<le> 2 ^ 63 - 1"
    using False by (simp add: word_less_def)
  ultimately show ?thesis
    using position_limit_range(2) [of c] by (simp add: x_limit_def)
qed

lemma exchange_ids:
  assumes "engine_inv e"
  shows "k \<in> view_ids (x_queues (exchange_of e) i) \<longleftrightarrow> engine_contains_order e i k"
proof (cases "en_order_books e i")
  case None
  then show ?thesis by (simp add: exchange_of_def engine_contains_order_def view_ids_def)
next
  case (Some bk)
  then show ?thesis
    using view_ids_contains [OF books_agree_at(1) [OF engine_invD(2) [OF assms] Some], of k]
    by (simp add: exchange_of_def engine_contains_order_def contains_order_def)
qed

lemma x_admission_engine:
  assumes inv: "engine_inv e"
  shows "x_admission (en_configuration e) (exchange_of e) req = spec_admission e req"
proof -
  note totals = exchange_totals [OF inv, of "pl_account_id req" "pl_instrument_id req"]
  have listed: "x_listed (exchange_of e) = (\<lambda>i. find_instrument e i \<noteq> None)"
    "x_position (exchange_of e) a i = sint (as_position (state_for (en_account_risk e) a i))" for a i
    by (simp_all add: exchange_of_def engine_account_position_def account_position_def)
  show ?thesis
    unfolding x_admission_def spec_admission_def Let_def exchange_ids [OF inv] listed x_limit_position
      initial_margin_for [symmetric] totals(3) [symmetric]
    unfolding totals [symmetric] of_nat_add uint_nat [symmetric] not_not ..
qed

section \<open>Placing an order\<close>

lemma exchange_of_cong:
  assumes "en_instruments e' = en_instruments e" and "en_order_books e' = en_order_books e"
    and "state_for (en_account_risk e') = state_for (en_account_risk e)"
    and "ar_reservations (en_account_risk e') = ar_reservations (en_account_risk e)"
  shows "exchange_of e' = exchange_of e"
  using assms
  by (simp add: exchange_of_def find_instrument_def engine_account_position_def account_position_def margin_at_def)

lemma exchange_book:
  assumes "en_order_books e i = Some bk"
  shows "x_queues (exchange_of e) i = view bk" and "x_counter (exchange_of e) i = next_execution_id bk"
  using assms by (simp_all add: exchange_of_def)

lemma x_place_refused:
  "x_admission c x req = Some reason \<Longrightarrow> x_place c x req = (x, Refused reason)"
  "x_admission c x req = None \<Longrightarrow>
   spec_place (x_queues x (pl_instrument_id req)) (book_order req) = (v, Refused reason) \<Longrightarrow>
   x_place c x req = (x, Refused reason)"
  by (simp_all add: x_place_def Let_def)

lemma place_executed_exchange:
  assumes inv: "engine_inv e" and safe: "config_safe (en_configuration e)"
    and call: "engine_place_order e req = Inr (e', events, calls)"
    and bk: "en_order_books e (pl_instrument_id req) = Some bk" and pos: "0 < pl_quantity req"
    and admitted: "engine_place_order e req = place_accepted e req (contains_order bk (pl_order_id req))"
      "\<not> contains_order bk (pl_order_id req) \<longrightarrow> account_evaluate (en_account_risk e) req = Account_None"
    and place: "spec_place (view bk) (book_order req) = (v, Executed fs)"
    and adm: "x_admission (en_configuration e) (exchange_of e) req = None"
  shows "x_place (en_configuration e) (exchange_of e) req = (exchange_of e', Executed fs)"
    and "events = outcome_events (book_order req) (next_execution_id bk) (Executed fs)"
proof -
  note d = engine_invD [OF inv]
  have inv_bk: "book_inv bk" and R: "interest_of (en_account_risk e) (pl_instrument_id req) = book_interest bk"
    using books_agree_at [OF d(2)] bk by blast+
  have q: "o_quantity (book_order req) > Quantity 0"
    using pos by (simp add: request_order_def less_quantity_def)
  have fresh: "\<not> contains_order bk (pl_order_id req)"
    using place by (auto simp: spec_place_def view_ids_contains [OF inv_bk] contains_order_def
        book_order_fields split: if_splits)
  have events: "snd (book_place_order bk (book_order req)) =
      outcome_events (book_order req) (next_execution_id bk) (Executed fs)"
    using book_place_refines [OF inv_bk q] place by simp
  then show "events = outcome_events (book_order req) (next_execution_id bk) (Executed fs)"
    using call admitted(1) fresh bk by (auto simp: place_accepted_def Let_def split: prod.splits)
  have e': "en_order_books e' = (en_order_books e)(pl_instrument_id req \<mapsto> fst (book_place_order bk (book_order req)))"
      "en_instruments e' = en_instruments e"
      "en_account_risk e' = risk_apply (reserve (en_account_risk e) req) req
        (outcome_events (book_order req) (next_execution_id bk) (Executed fs)) True"
    using call bk admitted(1) fresh events by (auto simp: place_accepted_def Let_def split: prod.splits)
  note ledger = executed_ledger [OF inv_bk R d(5,6) engine_exposure [OF inv safe] _
      admitted(2) [rule_format, OF fresh] pos place, unfolded d(7), OF safe, folded e'(3)]
  have books: "view (fst (book_place_order bk (book_order req))) = v"
      "next_execution_id (fst (book_place_order bk (book_order req))) = next_execution_id bk + of_nat (length fs)"
    using book_place_refines [OF inv_bk q] book_place_next_id [OF inv_bk q] place by simp_all
  have same: "x_listed (exchange_of e') = x_listed (exchange_of e)"
    by (simp add: exchange_of_def find_instrument_def e'(2))
  have queues: "x_queues (exchange_of e') = (x_queues (exchange_of e))(pl_instrument_id req := v)"
      "x_counter (exchange_of e') = (x_counter (exchange_of e))
        (pl_instrument_id req := next_execution_id bk + of_nat (length fs))"
    by (simp_all add: exchange_of_def e'(1) books fun_eq_iff)
  have margin: "x_margin (exchange_of e) = margin_at (en_account_risk e)"
      "x_margin (exchange_of e') = margin_at (en_account_risk e')"
    by (simp_all add: exchange_of_def)
  have position: "x_position (exchange_of e') = (\<lambda>a j. x_position (exchange_of e) a j +
      (if j = pl_instrument_id req then fills_move (pl_side req) (pl_account_id req) fs a else 0))"
    by (simp add: exchange_of_def engine_account_position_def account_position_def ledger(1) fun_eq_iff)
  show "x_place (en_configuration e) (exchange_of e) req = (exchange_of e', Executed fs)"
    unfolding x_place_def Let_def adm option.case exchange_book [OF bk] place prod.case outcome.case
    by (rule arg_cong2 [where f = Pair], rule exchange.equality)
      (simp_all add: same queues position margin ledger(2) initial_margin_for)
qed

text \<open>The other two ways a request ends: refused by the engine, or by the book.\<close>

lemma place_rejected_exchange:
  assumes adm: "admission e req = Some reason" and call: "engine_place_order e req = Inr (e', events, calls)"
    and x: "x_admission c (exchange_of e) req = Some reason"
  shows "x_place c (exchange_of e) req = (exchange_of e', Refused reason)"
    and "is_reject (pl_instrument_id req) (pl_order_id req) reason events"
proof -
  obtain order where "engine_place_order e req = engine_reject e order reason"
      "o_instrument_id order = pl_instrument_id req" "o_order_id order = pl_order_id req"
    using adm by (rule engine_place_refused)
  then show "x_place c (exchange_of e) req = (exchange_of e', Refused reason)"
    and "is_reject (pl_instrument_id req) (pl_order_id req) reason events"
    using call x_place_refused(1) [OF x] by (auto simp: engine_reject_def Let_def is_reject_def)
qed

lemma place_refused_exchange:
  assumes inv: "engine_inv e" and call: "engine_place_order e req = Inr (e', events, calls)"
    and bk: "en_order_books e (pl_instrument_id req) = Some bk" "0 < pl_quantity req"
      "engine_place_order e req = place_accepted e req (contains_order bk (pl_order_id req))"
    and place: "spec_place (view bk) (book_order req) = (v, Refused reason)"
    and x: "x_admission c (exchange_of e) req = None"
  shows "x_place c (exchange_of e) req = (exchange_of e', Refused reason)"
    and "is_reject (pl_instrument_id req) (pl_order_id req) reason events"
proof -
  have q: "o_quantity (book_order req) > Quantity 0"
    using bk(2) by (simp add: request_order_def less_quantity_def)
  have "book_place_order bk (book_order req) = (bk, book_reject (book_order req) reason)"
    using book_place_order_refused [OF books_agree_at(1) [OF engine_invD(2) [OF inv] bk(1)] q place] by blast
  then have events: "events = book_reject (book_order req) reason"
    using call bk(1,3) by (auto simp: place_accepted_def Let_def)
  then obtain rj where rj: "Order_Rejected rj \<in> set events" by (auto simp: book_reject_def)
  have "exchange_of e' = exchange_of e"
    by (rule exchange_of_cong) (use rejection_traceless [OF inv call rj] in blast)+
  then show "x_place c (exchange_of e) req = (exchange_of e', Refused reason)"
    using x_place_refused(2) [OF x] place by (simp add: exchange_book [OF bk(1)])
  show "is_reject (pl_instrument_id req) (pl_order_id req) reason events"
    by (simp add: events book_reject_def is_reject_def book_order_fields)
qed

lemma place_exchange:
  assumes inv: "engine_inv e" and safe: "config_safe (en_configuration e)"
    and exact: "admission e req = spec_admission e req"
  obtains e' events calls where "engine_place_order e req = Inr (e', events, calls)"
    "exchange_of e' = fst (x_place (en_configuration e) (exchange_of e) req)"
    "conveys (Events events) (Placement (book_order req) (x_counter (exchange_of e) (pl_instrument_id req))
       (snd (x_place (en_configuration e) (exchange_of e) req)))"
proof -
  have x: "x_admission (en_configuration e) (exchange_of e) req = admission e req"
    by (simp add: x_admission_engine [OF inv] exact)
  obtain e' events calls where call: "engine_place_order e req = Inr (e', events, calls)"
    using engine_place_returns [OF inv] by blast
  show thesis
  proof (cases "admission e req")
    case (Some reason)
    then show thesis
      using that [OF call] place_rejected_exchange [OF Some call] x by (simp add: book_order_fields)
  next
    case None
    obtain bk where bk: "en_order_books e (pl_instrument_id req) = Some bk" "structurally_valid req"
        "engine_place_order e req = place_accepted e req (contains_order bk (pl_order_id req))"
        "\<not> contains_order bk (pl_order_id req) \<longrightarrow> account_evaluate (en_account_risk e) req = Account_None"
      by (rule engine_place_admitted [OF inv None])
    have pos: "0 < pl_quantity req" using bk(2) by (simp add: structurally_valid_def word_neq_0_conv)
    have adm: "x_admission (en_configuration e) (exchange_of e) req = None" using x None by simp
    obtain v out where place: "spec_place (view bk) (book_order req) = (v, out)" by fastforce
    show thesis
    proof (cases out)
      case (Refused reason)
      then show thesis
        using that [OF call] place_refused_exchange [OF inv call bk(1) pos bk(3) _ adm] place
        by (simp add: book_order_fields)
    next
      case (Executed fs)
      then show thesis
        using that [OF call] place_executed_exchange [OF inv safe call bk(1) pos bk(3,4) _ adm] place
        by (simp add: exchange_book [OF bk(1)])
    qed
  qed
qed

section \<open>Canceling an order\<close>

lemma book_cancel_next_id:
  "next_execution_id (fst (book_cancel_order stale bk req)) = next_execution_id bk"
  by (auto simp: book_cancel_order_def remove_order_from_level_def Let_def split: option.split)

text \<open>The search of the exchange finds what the index of the book holds.\<close>

lemma find_open_order:
  assumes inv: "book_inv bk"
  shows "map_option (\<lambda>(p, r). ro_account_id r) (find (\<lambda>(p, r). ro_order_id r = oid) (view bk Buy @ view bk Sell)) =
    map_option ol_account_id (order_locations bk oid)"
proof (cases "find (\<lambda>(p, r). ro_order_id r = oid) (view bk Buy @ view bk Sell)")
  case None
  then have "oid \<notin> view_ids (view bk)"
    by (fastforce simp: find_None_iff view_ids_def UNIV_side)
  then show ?thesis using None by (simp add: view_ids_contains [OF inv])
next
  case (Some e)
  obtain p r where e: "e = (p, r)" by (cases e)
  have "ro_order_id r = oid" "(p, r) \<in> set (view bk Buy @ view bk Sell)"
    using find_SomeD [OF Some] by (simp_all add: e)
  then obtain s where "(p, r) \<in> set (side_queue s bk)" "ro_order_id r = oid"
    by (auto simp: view_def)
  then show ?thesis using book_interest_entry(2) [OF inv, of p r s] Some by (auto simp: e)
qed

lemma x_cancel_cases:
  assumes "x_listed x (ca_instrument_id req)" and "x_queues x (ca_instrument_id req) = view bk" and inv: "book_inv bk"
  shows "order_locations bk (ca_order_id req) = None \<Longrightarrow> x_cancel x req = (x, Some Unknown_Order_Id)"
    and "order_locations bk (ca_order_id req) = Some loc \<Longrightarrow> ca_account_id req \<noteq> ol_account_id loc \<Longrightarrow>
      x_cancel x req = (x, Some Unauthorized_Order)"
    and "order_locations bk (ca_order_id req) = Some loc \<Longrightarrow> ca_account_id req = ol_account_id loc \<Longrightarrow>
      x_cancel x req =
        (x\<lparr>x_queues := (x_queues x)(ca_instrument_id req :=
             \<lambda>s. filter (\<lambda>(p, r). ro_order_id r \<noteq> ca_order_id req) (view bk s)),
           x_margin := (x_margin x)(ca_instrument_id req :=
             (x_margin x (ca_instrument_id req))(ca_order_id req := 0))\<rparr>, None)"
  using assms(1,2) find_open_order [OF inv, of "ca_order_id req"]
  by (auto simp: x_cancel_def Let_def split: option.split)

lemma canceled_exchange:
  assumes inv: "engine_inv e" and bk: "en_order_books e (ca_instrument_id req) = Some bk"
    and loc: "order_locations bk (ca_order_id req) = Some loc" and own: "ca_account_id req = ol_account_id loc"
    and listed: "x_listed (exchange_of e) (ca_instrument_id req)"
    and call: "engine_cancel_order stale e req = Inr (e', events, calls)"
    and e': "events = snd (book_cancel_order stale bk req)" "en_instruments e' = en_instruments e"
      "en_order_books e' = (en_order_books e)(ca_instrument_id req \<mapsto> fst (book_cancel_order stale bk req))"
  shows "x_cancel (exchange_of e) req = (exchange_of e', None)"
    and "is_canceled (ca_instrument_id req) (ca_order_id req) events"
proof -
  let ?i = "ca_instrument_id req" and ?oid = "ca_order_id req"
  note agree = books_agree_at(1,2) [OF engine_invD(2) [OF inv] bk]
  have "interest_of (en_account_risk e) ?i ?oid \<noteq> None"
    using book_interest_None [OF agree(1), of ?oid] loc by (simp add: agree(2))
  then obtain rv where rv: "ar_reservations (en_account_risk e) (?i, ?oid) = Some rv"
    by (auto simp: interest_of_None)
  have "rv_account_id rv = ca_account_id req"
    using book_interest_location [OF agree(1) loc] rv own by (auto simp: agree(2) [symmetric] interest_of_Some)
  note effect = cancel_of_owner [OF inv rv this call]
  obtain r bk' where "(ol_price loc, r) \<in> set (side_queue (ol_side loc) bk)" "ro_order_id r = ?oid"
    and bk': "book_cancel_order stale bk req = (bk', [canceled_event stale req (ro_order_type r)])"
      "\<And>s. side_queue s bk' = filter (\<lambda>e. ro_order_id (snd e) \<noteq> ?oid) (side_queue s bk)"
    and "order_locations bk' = (order_locations bk)(?oid := None)"
    by (rule book_cancel_queues [OF agree(1) loc own, of stale], rule that)
  have queues: "x_queues (exchange_of e') = (x_queues (exchange_of e))
        (?i := \<lambda>s. filter (\<lambda>(p, r). ro_order_id r \<noteq> ?oid) (view bk s))"
      "x_counter (exchange_of e') = x_counter (exchange_of e)"
    using book_cancel_next_id [of stale bk req] bk
    by (auto simp: exchange_of_def e'(3) bk' view_def fun_eq_iff split_def)
  have margin: "x_margin (exchange_of e') = (x_margin (exchange_of e))
      (?i := (x_margin (exchange_of e) ?i)(?oid := 0))"
    using effect by (auto simp: exchange_of_def margin_at_def fun_eq_iff)
  have rest: "x_listed (exchange_of e') = x_listed (exchange_of e)"
      "x_position (exchange_of e') = x_position (exchange_of e)"
    using effect [THEN conjunct2, THEN conjunct2, THEN conjunct2] e'(2)
    by (simp_all add: exchange_of_def find_instrument_def engine_account_position_def account_position_def)
  show "x_cancel (exchange_of e) req = (exchange_of e', None)"
    unfolding x_cancel_cases(3) [OF listed exchange_book(1) [OF bk] agree(1) loc own]
    by (rule arg_cong2 [where f = Pair], rule exchange.equality) (simp_all add: queues margin rest)
  show "is_canceled ?i ?oid events"
    by (simp add: e'(1) bk'(1) canceled_event_def is_canceled_def)
qed

lemma cancel_refused_exchange:
  assumes "en_order_books e (ca_instrument_id req) = Some bk"
    and "book_cancel_order stale bk req = (bk, cancel_rejected req s p a reason)"
    and "events = snd (book_cancel_order stale bk req)" and "en_instruments e' = en_instruments e"
    and "en_order_books e' = (en_order_books e)(ca_instrument_id req \<mapsto> fst (book_cancel_order stale bk req))"
    and "en_account_risk e' = risk_apply (en_account_risk e) (cancel_context req) events False"
  shows "exchange_of e' = exchange_of e \<and> is_reject (ca_instrument_id req) (ca_order_id req) reason events"
  using assms
  by (auto simp: cancel_rejected_def risk_apply_def cancel_context_def is_reject_def fun_upd_idem
      intro!: exchange_of_cong)

lemma cancel_unlisted_exchange:
  assumes off: "registry_find (en_instruments e) (ca_instrument_id req) = None"
    and call: "engine_cancel_order stale e req = Inr (e', events, calls)"
  shows "x_cancel (exchange_of e) req = (exchange_of e', Some Unknown_Instrument)"
    and "is_reject (ca_instrument_id req) (ca_order_id req) Unknown_Instrument events"
  using assms
  by (auto simp: engine_cancel_order_def engine_reject_def Let_def is_reject_def cancel_unknown_order_def
      x_cancel_def exchange_of_def find_instrument_def)

lemma cancel_exchange:
  assumes inv: "engine_inv e"
  obtains e' events calls where "engine_cancel_order stale e req = Inr (e', events, calls)"
    "exchange_of e' = fst (x_cancel (exchange_of e) req)"
    "conveys (Events events) (Cancellation req (snd (x_cancel (exchange_of e) req)))"
proof -
  let ?i = "ca_instrument_id req" and ?oid = "ca_order_id req"
  note d = engine_invD [OF inv]
  obtain e' events calls where call: "engine_cancel_order stale e req = Inr (e', events, calls)"
    using engine_cancel_returns [OF inv] by blast
  show thesis
  proof (cases "en_order_books e ?i")
    case None
    then have "registry_find (en_instruments e) ?i = None" using books_agree_at(3) [OF d(2)] by blast
    then show thesis using that [OF call] cancel_unlisted_exchange [OF _ call] by simp
  next
    case (Some bk)
    have listed: "x_listed (exchange_of e) ?i"
      using books_agree_at(3) [OF d(2), of ?i] Some by (simp add: exchange_of_def find_instrument_def)
    note cases = x_cancel_cases [OF listed exchange_book(1) [OF Some] books_agree_at(1) [OF d(2) Some]]
    have e': "events = snd (book_cancel_order stale bk req)" "en_instruments e' = en_instruments e"
        "en_order_books e' = (en_order_books e)(?i \<mapsto> fst (book_cancel_order stale bk req))"
        "en_account_risk e' = risk_apply (en_account_risk e) (cancel_context req) events False"
      by (rule cancel_ok [OF inv Some, of stale], use call in simp)+
    note refused = cancel_refused_exchange [OF Some _ e']
    show thesis
    proof (cases "order_locations bk ?oid")
      case None
      then have "book_cancel_order stale bk req = (bk, cancel_rejected req Buy (Price 0) 0 Unknown_Order_Id)"
        by (simp add: book_cancel_order_def)
      from refused [OF this] show thesis using that [OF call] cases(1) [OF None] by simp
    next
      case loc: (Some loc)
      show thesis
      proof (cases "ca_account_id req = ol_account_id loc")
        case False
        then have "book_cancel_order stale bk req =
            (bk, cancel_rejected req (ol_side loc) (ol_price loc) (ol_account_id loc) Unauthorized_Order)"
          using loc by (simp add: book_cancel_order_def)
        from refused [OF this] show thesis using that [OF call] cases(2) [OF loc False] by simp
      next
        case True
        show thesis
          using that [OF call] canceled_exchange [OF inv Some loc True listed call e'(1-3)] by simp
      qed
    qed
  qed
qed

section \<open>Histories\<close>

lemma serve_exchange:
  assumes "engine_reachable c e" and "config_safe c"
  obtains e' reply where "engine_serve stale e r = Some (e', reply)" "engine_reachable c e'"
    "exchange_of e' = fst (x_serve c (exchange_of e) r)" "conveys reply (snd (x_serve c (exchange_of e) r))"
proof -
  note inv = engine_reachable_inv [OF assms(1), THEN conjunct1]
    and cfg = engine_reachable_inv [OF assms(1), THEN conjunct2]
  show thesis
  proof (cases r)
    case (Register_Instrument inst)
    then show thesis
      using that [of "fst (register_instrument e inst)" "Flag (snd (register_instrument e inst))"]
        exchange_of_register [OF inv, of inst] reach_step [OF assms(1) step_register]
      by (simp add: apsnd_def map_prod_def split_beta)
  next
    case (Place req)
    obtain e' events calls where call: "engine_place_order e req = Inr (e', events, calls)"
        "exchange_of e' = fst (x_place (en_configuration e) (exchange_of e) req)"
        "conveys (Events events) (Placement (book_order req) (x_counter (exchange_of e) (pl_instrument_id req))
           (snd (x_place (en_configuration e) (exchange_of e) req)))"
      by (rule place_exchange [OF inv _ admission_exact [OF assms]]) (use assms(2) cfg in simp_all)
    then show thesis
      using that [of e' "Events events"] Place reach_step [OF assms(1) step_place [OF call(1)]] cfg by simp
  next
    case (Cancel req)
    obtain e' events calls where call: "engine_cancel_order stale e req = Inr (e', events, calls)"
        "exchange_of e' = fst (x_cancel (exchange_of e) req)"
        "conveys (Events events) (Cancellation req (snd (x_cancel (exchange_of e) req)))"
      by (rule cancel_exchange [OF inv])
    then show thesis
      using that [of e' "Events events"] Cancel reach_step [OF assms(1) step_cancel [OF call(1)]] by simp
  qed
qed

lemma run_exchange:
  assumes "config_safe c" and "engine_reachable c e"
  shows "\<exists>e' replies. engine_run e hs = Some (e', replies) \<and>
    exchange_of e' = fst (x_run c (exchange_of e) (map snd hs)) \<and>
    list_all2 conveys replies (snd (x_run c (exchange_of e) (map snd hs)))"
  using assms(2)
proof (induction hs arbitrary: e)
  case (Cons h hs)
  obtain stale r where h: "h = (stale, r)" by (cases h)
  obtain e1 reply where e1: "engine_serve stale e r = Some (e1, reply)" "engine_reachable c e1"
      "exchange_of e1 = fst (x_serve c (exchange_of e) r)" "conveys reply (snd (x_serve c (exchange_of e) r))"
    by (rule serve_exchange [OF Cons.prems assms(1)])
  obtain e' replies where "engine_run e1 hs = Some (e', replies)"
      "exchange_of e' = fst (x_run c (exchange_of e1) (map snd hs))"
      "list_all2 conveys replies (snd (x_run c (exchange_of e1) (map snd hs)))"
    using Cons.IH [OF e1(2)] by blast
  then show ?case using e1 by (simp add: h Let_def split_beta)
qed simp

text \<open>
  C1: the engine is the exchange. For a safe configuration (\<open>config_safe\<close>: the position limit plus
  the open order limit is below \<open>2 ^ 63\<close>, which the default configuration is not), every history of
  requests that register instruments, place orders and cancel them is served by a new engine without a fault;
  each reply conveys the answer that the abstract exchange gives, down to the execution ids and
  the trades in their order; and the books, positions and margins left in the engine are those
  of the exchange.
\<close>

theorem engine_refines_exchange:
  assumes "config_safe c"
  shows "\<exists>e replies. engine_run (new_engine c sink) hs = Some (e, replies) \<and>
    exchange_of e = fst (x_run c new_exchange (map snd hs)) \<and>
    list_all2 conveys replies (snd (x_run c new_exchange (map snd hs)))"
  using run_exchange [OF assms reach_new, of sink hs] unfolding exchange_of_new .

text \<open>A sale for 5 at 100, a purchase of 3 of it, and an attempt to cancel the rest by a stranger.\<close>

definition demo_requests :: "request list" where
  "demo_requests =
     [Register_Instrument demo_instrument, Place (demo_request 1 Sell 100 5 Limit 7),
      Place (demo_request 2 Buy 100 3 Limit 9),
      Cancel \<lparr>ca_instrument_id = 1, ca_order_id = 1, ca_account_id = 9\<rparr>]"

lemma demo_run:
  "\<exists>x order1 order2 fs.
     x_run demo_limits new_exchange demo_requests = (x,
       [Registration True, Placement order1 1 (Executed []), Placement order2 1 (Executed fs),
        Cancellation \<lparr>ca_instrument_id = 1, ca_order_id = 1, ca_account_id = 9\<rparr> (Some Unauthorized_Order)]) \<and>
     fs \<noteq> [] \<and> x_counter x 1 = 2 \<and> x_position x 9 1 = 3 \<and> x_position x 7 1 = - 3 \<and> x_margin x 1 1 = 200"
  by (simp add: demo_requests_def demo_instrument_def x_register_def new_exchange_def accepts_orders_def
      price_is_positive_def quantity_is_positive_def word_sless_alt
      x_place_def x_admission_def Let_def demo_request_def demo_limits_def default_config_def
      request_order_def view_ids_def x_open_def x_held_def account_sum_def x_limit_def
      spec_place_def spec_match_def initial_margin_def capped_def fills_move_def is_immediate_def
      insert_by_priority_def resting_entry_def stops_at_def outside_limit.simps less_price_def margin_part_def
      x_cancel_def qnat_def less_quantity_def less_eq_quantity_def minus_quantity_def)

theorem engine_refines_exchange_witness:
  "\<exists>e events1 events2 events3.
     engine_run (new_engine demo_limits Event_Sink)
       (map (Pair \<lparr>ol_side = Buy, ol_price = Price 0, ol_account_id = 0\<rparr>) demo_requests) =
       Some (e, [Flag True, Events events1, Events events2, Events events3]) \<and>
     length events1 = 1 \<and> length events2 > 1 \<and> is_reject 1 1 Unauthorized_Order events3 \<and>
     x_position (exchange_of e) 7 1 = - 3 \<and> margin_at (en_account_risk e) 1 1 = 200"
proof -
  let ?hs = "map (Pair \<lparr>ol_side = Buy, ol_price = Price 0, ol_account_id = 0\<rparr>) demo_requests"
  have requests: "map snd ?hs = demo_requests" by (simp add: comp_def)
  obtain x order1 order2 fs where run: "x_run demo_limits new_exchange demo_requests = (x,
        [Registration True, Placement order1 1 (Executed []), Placement order2 1 (Executed fs),
         Cancellation \<lparr>ca_instrument_id = 1, ca_order_id = 1, ca_account_id = 9\<rparr> (Some Unauthorized_Order)])"
    and x: "fs \<noteq> []" "x_position x 7 1 = - 3" "x_margin x 1 1 = 200"
    using demo_run by blast
  obtain e replies where e: "engine_run (new_engine demo_limits Event_Sink) ?hs = Some (e, replies)"
      "exchange_of e = x" and "list_all2 conveys replies (snd (x_run demo_limits new_exchange demo_requests))"
    using engine_refines_exchange [OF demo_limits_safe, of Event_Sink ?hs] run unfolding requests by auto
  then obtain r1 r2 r3 r4 where replies: "replies = [r1, r2, r3, r4]"
    and "conveys r1 (Registration True)" "conveys r2 (Placement order1 1 (Executed []))"
      "conveys r3 (Placement order2 1 (Executed fs))"
      "conveys r4 (Cancellation \<lparr>ca_instrument_id = 1, ca_order_id = 1, ca_account_id = 9\<rparr>
         (Some Unauthorized_Order))"
    by (auto simp: run list_all2_Cons2)
  moreover have "length (trade_list order2 1 fs) > 0" using x(1) by (cases fs) auto
  ultimately show ?thesis
    using e x(2,3) by (cases r1; cases r2; cases r3; cases r4) (auto simp: exchange_of_def)
qed

section \<open>Account queries\<close>

lemma exchange_flat:
  assumes "\<And>i s p r. (p, r) \<in> set (x_queues x i s) \<Longrightarrow> ro_account_id r \<noteq> a"
  shows "x_open x s a i = 0" and "x_held x a i = 0"
proof -
  have none: "\<forall>(p, r) \<in> set xs. ro_account_id r \<noteq> a \<Longrightarrow> account_sum g a xs = 0" for g xs
    unfolding account_sum_def by (induction xs) auto
  have "account_sum g a (x_queues x i s) = 0" for g s by (rule none) (use assms in auto)
  then show "x_open x s a i = 0" and "x_held x a i = 0" by (simp_all add: x_open_def x_held_def)
qed

text \<open>
  C36: the account queries add up what is open. In every reachable engine the reported open order
  quantity and reserved margin of an account are the sums, over all instruments and both queues
  of each book, of the remaining quantity and of the margin of its resting orders (modulo
  \<open>2 ^ 64\<close>, since the limits hold for each instrument and not for the sum). Without resting orders
  both are zero: no rounding of partial releases leaves margin behind.
\<close>

theorem account_queries_exact:
  assumes "engine_reachable c e"
  shows "engine_account_open_order_quantity e a = of_nat (\<Sum>i\<in>UNIV.
      x_open (exchange_of e) Buy a i + x_open (exchange_of e) Sell a i) \<and>
    engine_account_reserved_margin e a = of_nat (\<Sum>i\<in>UNIV. x_held (exchange_of e) a i) \<and>
    ((\<forall>i s. \<forall>(p, r) \<in> set (x_queues (exchange_of e) i s). ro_account_id r \<noteq> a) \<longrightarrow>
      engine_account_open_order_quantity e a = 0 \<and> engine_account_reserved_margin e a = 0)"
proof -
  note inv = engine_reachable_inv [OF assms, THEN conjunct1]
  note d = engine_invD [OF inv]
  have total: "(\<Sum>i\<in>UNIV. f (state_for ar a i)) = of_nat (\<Sum>i\<in>UNIV. unat (f (state_for ar a i)))"
    for f :: "account_state \<Rightarrow> u64" and ar a
    by simp
  have open_: "engine_account_open_order_quantity e a = of_nat (\<Sum>i\<in>UNIV.
      x_open (exchange_of e) Buy a i + x_open (exchange_of e) Sell a i)"
    unfolding exchange_totals(3) [OF inv, symmetric] total [symmetric]
      engine_account_open_order_quantity_def account_open_order_quantity_def
    by (rule account_total_sum [OF d(4)]) (simp add: zero_state_def)
  have held: "engine_account_reserved_margin e a = of_nat (\<Sum>i\<in>UNIV. x_held (exchange_of e) a i)"
    unfolding exchange_totals(4) [OF inv, symmetric] total [symmetric]
      engine_account_reserved_margin_def account_reserved_margin_def
    by (rule account_total_sum [OF d(4)]) (simp add: zero_state_def)
  moreover have "(\<forall>i s. \<forall>(p, r) \<in> set (x_queues (exchange_of e) i s). ro_account_id r \<noteq> a) \<longrightarrow>
      engine_account_open_order_quantity e a = 0 \<and> engine_account_reserved_margin e a = 0"
  proof
    assume "\<forall>i s. \<forall>(p, r) \<in> set (x_queues (exchange_of e) i s). ro_account_id r \<noteq> a"
    then have "x_open (exchange_of e) s a i = 0" "x_held (exchange_of e) a i = 0" for s i
      by (intro exchange_flat; fastforce)+
    then show "engine_account_open_order_quantity e a = 0 \<and> engine_account_reserved_margin e a = 0"
      unfolding open_ held by simp
  qed
  ultimately show ?thesis using open_ by blast
qed

theorem account_queries_exact_witness: "engine_account_reserved_margin fresh_engine 7 = 0"
proof -
  have "x_queues (exchange_of fresh_engine) i s = []" for i s
    by (auto simp: exchange_of_def fresh_engine_eval view_def)
  then have "\<forall>i s. \<forall>(p, r) \<in> set (x_queues (exchange_of fresh_engine) i s). ro_account_id r \<noteq> 7" by simp
  then show ?thesis using account_queries_exact [OF fresh_engine_reachable, of 7] by blast
qed

end
