(* ===== verification/Order_Gateway.thy ===== *)
theory Order_Gateway
  imports Matching_Engine
begin

text \<open>
  The order gateway (\<open>gateway/order_gateway.hpp\<close>, \<open>.cpp\<close>): client sessions with a request
  sequence, the reference prices, and the checks a command passes before it reaches the engine.
  The gateway refers to an engine it does not own; an operation takes and returns both states.
  A gateway rejection is returned to the caller and not published to the engine's sink.
\<close>

section \<open>State\<close>

type_synonym client_id = u64
type_synonym request_sequence = u64

record place_order_command =
  pc_client_id :: client_id
  pc_sequence :: request_sequence
  pc_order :: place_order

record cancel_order_command =
  cc_client_id :: client_id
  cc_sequence :: request_sequence
  cc_cancel :: cancel_order

record client_session =
  cs_account_id :: account_id
  cs_next_sequence :: request_sequence

record gateway =
  gw_fat_finger :: engine_config
  gw_clients :: "client_id \<rightharpoonup> client_session"
  gw_reference_prices :: "instrument_id \<rightharpoonup> raw_price"

definition new_gateway :: "engine_config \<Rightarrow> gateway" where
  "new_gateway c =
     \<lparr>gw_fat_finger = c, gw_clients = Map.empty, gw_reference_prices = Map.empty\<rparr>"

section \<open>Sessions and reference prices\<close>

definition register_client :: "gateway \<Rightarrow> client_id \<Rightarrow> account_id \<Rightarrow> gateway \<times> bool" where
  "register_client g cl a =
     (if cl = 0 \<or> a = 0 \<or> gw_clients g cl \<noteq> None then (g, False)
      else (g\<lparr>gw_clients := emplace (gw_clients g) cl
              \<lparr>cs_account_id = a, cs_next_sequence = 1\<rparr>\<rparr>, True))"

definition unregister_client :: "gateway \<Rightarrow> client_id \<Rightarrow> gateway \<times> bool" where
  "unregister_client g cl =
     (g\<lparr>gw_clients := (gw_clients g)(cl := None)\<rparr>, gw_clients g cl \<noteq> None)"

definition set_reference_price :: "gateway \<Rightarrow> instrument_id \<Rightarrow> raw_price \<Rightarrow> gateway \<times> bool" where
  "set_reference_price g i p =
     (if i = 0 \<or> p \<le>s 0 then (g, False)
      else (g\<lparr>gw_reference_prices := (gw_reference_prices g)(i \<mapsto> p)\<rparr>, True))"

definition next_sequence :: "gateway \<Rightarrow> client_id \<Rightarrow> request_sequence" where
  "next_sequence g cl =
     (case gw_clients g cl of None \<Rightarrow> 0 | Some cs \<Rightarrow> cs_next_sequence cs)"

text \<open>\<open>++client->second.next_sequence\<close>\<close>

definition advance :: "gateway \<Rightarrow> client_id \<Rightarrow> client_session \<Rightarrow> gateway" where
  "advance g cl cs =
     g\<lparr>gw_clients := (gw_clients g)(cl \<mapsto> cs\<lparr>cs_next_sequence := cs_next_sequence cs + 1\<rparr>)\<rparr>"

text \<open>\<open>authorize\<close> is declared and defined in the source but never called.\<close>

definition authorize :: "gateway \<Rightarrow> client_id \<Rightarrow> request_sequence \<Rightarrow> account_id \<Rightarrow> gateway \<times> bool" where
  "authorize g cl sq a =
     (case gw_clients g cl of
        None \<Rightarrow> (g, False)
      | Some cs \<Rightarrow>
          if cs_account_id cs \<noteq> a \<or> sq \<noteq> cs_next_sequence cs then (g, False)
          else (advance g cl cs, True))"

section \<open>Commands\<close>

definition reject_place :: "place_order \<Rightarrow> reject_reason \<Rightarrow> event_batch" where
  "reject_place req reason =
     [Order_Rejected \<lparr>rj_order = request_order req Rejected (pl_account_id req),
        rj_instrument_id = pl_instrument_id req, rj_order_id = pl_order_id req, rj_reason = reason\<rparr>]"

definition reject_cancel :: "cancel_order \<Rightarrow> reject_reason \<Rightarrow> event_batch" where
  "reject_cancel req reason =
     [Order_Rejected \<lparr>rj_order =
          \<lparr>o_instrument_id = ca_instrument_id req, o_order_id = ca_order_id req, o_side = Buy,
           o_price = Price 0, o_quantity = Quantity 0, o_remaining_quantity = Quantity 0,
           o_status = Rejected, o_order_type = Limit, o_account_id = ca_account_id req\<rparr>,
        rj_instrument_id = ca_instrument_id req, rj_order_id = ca_order_id req, rj_reason = reason\<rparr>]"

text \<open>
  Calling the engine: its state, events and sink calls, with the gateway's own state. The gateway
  knows its engine only by a reference through which it calls one operation; \<open>gateway_place_via\<close> and
  \<open>gateway_cancel_via\<close> take that operation, on an engine of any type, as an argument, so that the
  calls it makes can be observed. The gateway itself calls the operations of the engine.
\<close>

definition forward :: "gateway \<Rightarrow> 'e call_result \<Rightarrow> (gateway \<times> 'e) call_result" where
  "forward g r = (case r of Inl f \<Rightarrow> Inl f | Inr (e', events, calls) \<Rightarrow> Inr ((g, e'), events, calls))"

definition gateway_fat_finger :: "gateway \<Rightarrow> place_order \<Rightarrow> fat_finger_result" where
  "gateway_fat_finger g req =
     (let structurally_valid_price = (pl_order_type req = Market \<or> 0 <s pl_price req)
      in if structurally_valid_price
         then fat_finger_evaluate (gw_fat_finger g) req
                (case gw_reference_prices g (pl_instrument_id req) of None \<Rightarrow> 0 | Some p \<Rightarrow> p)
         else FF_Accepted)"

definition gateway_place_via ::
  "('e \<Rightarrow> place_order \<Rightarrow> 'e call_result) \<Rightarrow> gateway \<Rightarrow> 'e \<Rightarrow> place_order_command \<Rightarrow>
     (gateway \<times> 'e) call_result" where
  "gateway_place_via place g e cmd =
     (let req = pc_order cmd in
      case gw_clients g (pc_client_id cmd) of
        None \<Rightarrow> Inr ((g, e), reject_place req Unknown_Client, [])
      | Some cs \<Rightarrow>
          if cs_account_id cs \<noteq> pl_account_id req
          then Inr ((g, e), reject_place req Unauthorized_Order, [])
          else if pc_sequence cmd \<noteq> cs_next_sequence cs
          then Inr ((g, e), reject_place req Invalid_Request_Sequence, [])
          else
            let result = gateway_fat_finger g req
            in if result \<noteq> FF_Accepted
               then Inr ((g, e), reject_place req
                      (if result = Reference_Price_Unavailable then Risk_Reference_Price_Unavailable
                       else Risk_Fat_Finger_Limit), [])
               else forward (advance g (pc_client_id cmd) cs) (place e req))"

definition gateway_cancel_via ::
  "('e \<Rightarrow> cancel_order \<Rightarrow> 'e call_result) \<Rightarrow> gateway \<Rightarrow> 'e \<Rightarrow> cancel_order_command \<Rightarrow>
     (gateway \<times> 'e) call_result" where
  "gateway_cancel_via cancel g e cmd =
     (let req = cc_cancel cmd in
      case gw_clients g (cc_client_id cmd) of
        None \<Rightarrow> Inr ((g, e), reject_cancel req Unknown_Client, [])
      | Some cs \<Rightarrow>
          if cs_account_id cs \<noteq> ca_account_id req
          then Inr ((g, e), reject_cancel req Unauthorized_Order, [])
          else if cc_sequence cmd \<noteq> cs_next_sequence cs
          then Inr ((g, e), reject_cancel req Invalid_Request_Sequence, [])
          else forward (advance g (cc_client_id cmd) cs) (cancel e req))"

definition gateway_place_order ::
  "gateway \<Rightarrow> engine \<Rightarrow> place_order_command \<Rightarrow> (gateway \<times> engine) call_result" where
  "gateway_place_order = gateway_place_via engine_place_order"

definition gateway_cancel_order ::
  "order_location \<Rightarrow> gateway \<Rightarrow> engine \<Rightarrow> cancel_order_command \<Rightarrow> (gateway \<times> engine) call_result" where
  "gateway_cancel_order stale = gateway_cancel_via (engine_cancel_order stale)"

lemmas gateway_handlers =
  gateway_place_order_def gateway_place_via_def gateway_cancel_order_def gateway_cancel_via_def

end
