(* ===== verification/Order_Gateway_Properties.thy ===== *)
theory Order_Gateway_Properties
  imports Order_Gateway Matching_Engine_Effects
begin

text \<open>
  The properties of the order gateway in front of a reachable engine: which commands it passes on,
  that the passed request sequences of a session have no gap and no repetition, and that a
  session reaches the orders of other accounts only by trading against them.
\<close>

section \<open>The gateway and its engine as one system\<close>

text \<open>What a caller can do with a gateway; \<open>Cancel_Command\<close> carries the stale location.\<close>

datatype gateway_command =
    Place_Command place_order_command
  | Cancel_Command order_location cancel_order_command
  | Register_Client client_id account_id
  | Unregister_Client client_id
  | Set_Reference_Price instrument_id raw_price

fun gateway_execute :: "gateway \<Rightarrow> engine \<Rightarrow> gateway_command \<Rightarrow> (gateway \<times> engine) call_result" where
  "gateway_execute g e (Place_Command cmd) = gateway_place_order g e cmd"
| "gateway_execute g e (Cancel_Command stale cmd) = gateway_cancel_order stale g e cmd"
| "gateway_execute g e (Register_Client cl a) = Inr ((fst (register_client g cl a), e), [], [])"
| "gateway_execute g e (Unregister_Client cl) = Inr ((fst (unregister_client g cl), e), [], [])"
| "gateway_execute g e (Set_Reference_Price i p) = Inr ((fst (set_reference_price g i p), e), [], [])"

text \<open>The engine is also used by others, who register instruments or place orders directly.\<close>

inductive system_reachable :: "engine_config \<Rightarrow> engine_config \<Rightarrow> gateway \<Rightarrow> engine \<Rightarrow> bool" for gc ec where
  system_new: "engine_reachable ec e \<Longrightarrow> system_reachable gc ec (new_gateway gc) e"
| system_engine: "system_reachable gc ec g e \<Longrightarrow> engine_step e e' \<Longrightarrow> system_reachable gc ec g e'"
| system_command: "system_reachable gc ec g e \<Longrightarrow>
    gateway_execute g e cmd = Inr ((g', e'), events, calls) \<Longrightarrow> system_reachable gc ec g' e'"

definition gateway_ok :: "engine_config \<Rightarrow> gateway \<Rightarrow> bool" where
  "gateway_ok gc g \<longleftrightarrow> gw_fat_finger g = gc \<and> (\<forall>p \<in> ran (gw_reference_prices g). 0 < sint p) \<and>
     (\<forall>cl cs. gw_clients g cl = Some cs \<longrightarrow> cl \<noteq> 0 \<and> cs_account_id cs \<noteq> 0)"

section \<open>Admission\<close>

text \<open>Who sends it, and with which sequence: common to both commands.\<close>

definition session_refusal ::
  "gateway \<Rightarrow> client_id \<Rightarrow> request_sequence \<Rightarrow> account_id \<Rightarrow> reject_reason option" where
  "session_refusal g cl sq a =
     (case gw_clients g cl of
        None \<Rightarrow> Some Unknown_Client
      | Some cs \<Rightarrow>
          if cs_account_id cs \<noteq> a then Some Unauthorized_Order
          else if cs_next_sequence cs \<noteq> sq then Some Invalid_Request_Sequence
          else None)"

text \<open>The price band, over the integers; orders the engine will call invalid are left to it.\<close>

definition band_refusal :: "gateway \<Rightarrow> place_order \<Rightarrow> reject_reason option" where
  "band_refusal g req =
     (let p = sint (pl_price req);
          points = int (unat (maximum_reference_deviation_basis_points (gw_fat_finger g)))
      in if pl_order_type req = Market \<or> p \<le> 0 then None
         else case gw_reference_prices g (pl_instrument_id req) of
                None \<Rightarrow> Some Risk_Reference_Price_Unavailable
              | Some ref \<Rightarrow>
                  if \<bar>p - sint ref\<bar> \<le> sint ref * points div 10000 then None
                  else Some Risk_Fat_Finger_Limit)"

fun command_refusal :: "gateway \<Rightarrow> gateway_command \<Rightarrow> reject_reason option" where
  "command_refusal g (Place_Command cmd) =
     (case session_refusal g (pc_client_id cmd) (pc_sequence cmd) (pl_account_id (pc_order cmd)) of
        Some reason \<Rightarrow> Some reason | None \<Rightarrow> band_refusal g (pc_order cmd))"
| "command_refusal g (Cancel_Command stale cmd) =
     session_refusal g (cc_client_id cmd) (cc_sequence cmd) (ca_account_id (cc_cancel cmd))"
| "command_refusal g _ = None"

lemma fat_finger_int:
  assumes "unat (maximum_reference_deviation_basis_points c) \<le> 10000" and "0 < sint ref"
  shows "fat_finger_evaluate c req ref =
    (if pl_order_type req = Market then FF_Accepted
     else if \<bar>sint (pl_price req) - sint ref\<bar> \<le>
         sint ref * int (unat (maximum_reference_deviation_basis_points c)) div 10000
     then FF_Accepted else Outside_Reference_Band)"
  using price_band [OF assms assms(1,2,2), of "pl_price req"] deviation_amount_int(1) [OF assms] assms(2)
  by (simp add: fat_finger_evaluate_def Let_def word_sle_eq [of ref])

lemma gateway_fat_finger_refusal:
  assumes "gateway_ok gc g" and "unat (maximum_reference_deviation_basis_points gc) \<le> 10000"
  shows "band_refusal g req =
    (case gateway_fat_finger g req of
       FF_Accepted \<Rightarrow> None
     | Reference_Price_Unavailable \<Rightarrow> Some Risk_Reference_Price_Unavailable
     | Outside_Reference_Band \<Rightarrow> Some Risk_Fat_Finger_Limit)"
proof (cases "gw_reference_prices g (pl_instrument_id req)")
  case None
  then show ?thesis
    by (auto simp: band_refusal_def gateway_fat_finger_def fat_finger_evaluate_def Let_def word_sless_alt)
next
  case (Some ref)
  then have "0 < sint ref" "gw_fat_finger g = gc" using assms(1) by (auto simp: gateway_ok_def ran_def)
  with fat_finger_int [OF assms(2), of ref req] Some show ?thesis
    by (auto simp: band_refusal_def gateway_fat_finger_def Let_def word_sless_alt)
qed

lemma gateway_ok_advance:
  "gateway_ok gc g \<Longrightarrow> gw_clients g cl = Some cs \<Longrightarrow> gateway_ok gc (advance g cl cs)"
  by (fastforce simp: gateway_ok_def advance_def)

lemma gateway_ok_administration:
  assumes "gateway_ok gc g"
  shows "gateway_ok gc (fst (register_client g cl a))" and "gateway_ok gc (fst (unregister_client g cl))"
    and "gateway_ok gc (fst (set_reference_price g i p))"
  using assms
  by (auto simp: gateway_ok_def register_client_def unregister_client_def set_reference_price_def
      emplace_def ran_def word_sle_eq split: if_splits)

lemma gateway_ok_step:
  assumes "gateway_ok gc g" and "gateway_execute g e cmd = Inr ((g', e'), events, calls)"
  shows "gateway_ok gc g'"
proof (cases cmd)
  case (Place_Command c)
  then show ?thesis using assms
    by (auto simp: gateway_handlers forward_def Let_def intro: gateway_ok_advance
        split: option.splits if_splits sum.splits)
next
  case (Cancel_Command stale c)
  then show ?thesis using assms
    by (auto simp: gateway_handlers forward_def Let_def intro: gateway_ok_advance
        split: option.splits if_splits sum.splits)
qed (use assms gateway_ok_administration [OF assms(1)] in auto)

lemma system_reachable_ok:
  "system_reachable gc ec g e \<Longrightarrow> gateway_ok gc g \<and> engine_reachable ec e"
proof (induction rule: system_reachable.induct)
  case (system_new e)
  then show ?case by (simp add: gateway_ok_def new_gateway_def)
next
  case (system_engine g e e')
  then show ?case using reach_step by blast
next
  case (system_command g e cmd g' e' events calls)
  have "e' = e \<or> engine_step e e'"
    using system_command.hyps(2)
    by (cases cmd)
      (auto simp: gateway_handlers forward_def Let_def
        split: option.splits if_splits sum.splits intro: step_place step_cancel)
  then show ?case using system_command.IH gateway_ok_step [OF _ system_command.hyps(2)] reach_step by blast
qed

section \<open>The decision\<close>

text \<open>The sender of a command and its sequence, and the engine call that it asks for.\<close>

fun request_of :: "gateway_command \<Rightarrow> (client_id \<times> request_sequence) option" where
  "request_of (Place_Command cmd) = Some (pc_client_id cmd, pc_sequence cmd)"
| "request_of (Cancel_Command stale cmd) = Some (cc_client_id cmd, cc_sequence cmd)"
| "request_of _ = None"

fun engine_call :: "engine \<Rightarrow> gateway_command \<Rightarrow> engine call_result" where
  "engine_call e (Place_Command cmd) = engine_place_order e (pc_order cmd)"
| "engine_call e (Cancel_Command stale cmd) = engine_cancel_order stale e (cc_cancel cmd)"
| "engine_call e _ = Inr (e, [], [])"

fun_cases request_of_Some: "request_of cmd = Some r"

lemma command_refused:
  assumes "gateway_ok gc g" and "unat (maximum_reference_deviation_basis_points gc) \<le> 10000"
    and "request_of cmd = Some (cl, sq)" and "command_refusal g cmd = Some reason"
  shows "\<exists>rj. gateway_execute g e cmd = Inr ((g, e), [Order_Rejected rj], []) \<and> rj_reason rj = reason"
  using assms(3,4)
  by (auto elim!: request_of_Some simp: gateway_fat_finger_refusal [OF assms(1,2)] session_refusal_def
      gateway_handlers reject_place_def reject_cancel_def Let_def
      split: option.splits if_splits fat_finger_result.splits)

lemma command_passed:
  assumes "gateway_ok gc g" and "unat (maximum_reference_deviation_basis_points gc) \<le> 10000"
    and "request_of cmd = Some (cl, sq)" and "command_refusal g cmd = None"
  obtains cs where "gw_clients g cl = Some cs" "cs_next_sequence cs = sq"
    "gateway_execute g e cmd = forward (advance g cl cs) (engine_call e cmd)"
  using assms(3,4)
  by (auto elim!: request_of_Some simp: gateway_fat_finger_refusal [OF assms(1,2)] session_refusal_def
      gateway_handlers Let_def
      split: option.splits if_splits fat_finger_result.splits)

lemma engine_call_returns:
  "engine_reachable ec e \<Longrightarrow> \<exists>e' events calls. engine_call e cmd = Inr (e', events, calls)"
  using engine_place_returns engine_cancel_returns engine_reachable_inv
  by (cases cmd) (simp_all, blast+)

text \<open>
  C18: the gateway passes on exactly the commands it should. In every reachable system, with a
  deviation of at most 10000 basis points, a command is refused with the first of these reasons
  that applies: unknown client, an account that is not the session's, a sequence other than the
  next one, and for priced orders a missing reference price or a price outside the band in
  integer arithmetic. A refusal changes neither the gateway nor the engine and publishes
  nothing. Otherwise the caller gets the engine's own answer, the session's sequence advances
  by one, and no other session or reference price changes.
\<close>

theorem gateway_decision_exact:
  assumes "system_reachable gc ec g e"
    and "unat (maximum_reference_deviation_basis_points gc) \<le> 10000"
    and "request_of cmd = Some (cl, sq)"
  shows "case command_refusal g cmd of
      Some reason \<Rightarrow>
        \<exists>rj. gateway_execute g e cmd = Inr ((g, e), [Order_Rejected rj], []) \<and> rj_reason rj = reason
    | None \<Rightarrow> \<exists>g' e' events calls.
        engine_call e cmd = Inr (e', events, calls) \<and>
        gateway_execute g e cmd = Inr ((g', e'), events, calls) \<and>
        next_sequence g cl = sq \<and> next_sequence g' cl = sq + 1 \<and>
        (\<forall>other. other \<noteq> cl \<longrightarrow> gw_clients g' other = gw_clients g other) \<and>
        gw_reference_prices g' = gw_reference_prices g"
proof (cases "command_refusal g cmd")
  case (Some reason)
  then show ?thesis
    using command_refused [OF conjunct1 [OF system_reachable_ok [OF assms(1)]] assms(2,3)] by simp
next
  case None
  note ok = system_reachable_ok [OF assms(1)]
  obtain cs where "gw_clients g cl = Some cs" "cs_next_sequence cs = sq"
      "gateway_execute g e cmd = forward (advance g cl cs) (engine_call e cmd)"
    by (rule command_passed [OF conjunct1 [OF ok] assms(2,3) None])
  then show ?thesis
    using engine_call_returns [OF conjunct2 [OF ok], of cmd] None
    by (auto simp: forward_def next_sequence_def advance_def)
qed

definition demo_gateway :: gateway where
  "demo_gateway = \<lparr>gw_fat_finger = default_config,
     gw_clients = [70 \<mapsto> \<lparr>cs_account_id = 7, cs_next_sequence = 1\<rparr>, 90 \<mapsto> \<lparr>cs_account_id = 9, cs_next_sequence = 1\<rparr>],
     gw_reference_prices = [1 \<mapsto> 100]\<rparr>"

lemma demo_system_reachable: "system_reachable default_config demo_limits demo_gateway demo_engine"
proof -
  let ?s = "system_reachable default_config demo_limits"
  let ?g1 = "fst (register_client (new_gateway default_config) 70 7)"
  let ?g2 = "fst (register_client ?g1 90 9)"
  have "?s (new_gateway default_config) demo_engine" by (rule system_new [OF demo_engine_reachable])
  then have "?s ?g1 demo_engine" by (rule system_command [where cmd = "Register_Client 70 7"]) simp
  then have "?s ?g2 demo_engine" by (rule system_command [where cmd = "Register_Client 90 9"]) simp
  then have "?s (fst (set_reference_price ?g2 1 100)) demo_engine"
    by (rule system_command [where cmd = "Set_Reference_Price 1 100"]) simp
  then show ?thesis
    by (simp add: register_client_def set_reference_price_def new_gateway_def emplace_def
        demo_gateway_def word_sle_eq)
qed

definition demo_command :: "request_sequence \<Rightarrow> raw_price \<Rightarrow> gateway_command" where
  "demo_command sq p = Place_Command \<lparr>pc_client_id = 90, pc_sequence = sq,
     pc_order = demo_request 6 Buy p 2 Limit 9\<rparr>"

lemma demo_command_refusals:
  "command_refusal demo_gateway (demo_command 2 100) = Some Invalid_Request_Sequence"
  "command_refusal demo_gateway (demo_command 1 120) = Some Risk_Fat_Finger_Limit"
  "command_refusal demo_gateway (demo_command 1 100) = None"
  by (simp_all add: demo_command_def demo_gateway_def session_refusal_def band_refusal_def
      demo_request_def default_config_def)

theorem gateway_decision_exact_witness:
  "(\<exists>rj. gateway_execute demo_gateway demo_engine (demo_command 1 120) =
      Inr ((demo_gateway, demo_engine), [Order_Rejected rj], []) \<and> rj_reason rj = Risk_Fat_Finger_Limit) \<and>
   (\<exists>g' e' events calls. gateway_execute demo_gateway demo_engine (demo_command 1 100) =
      Inr ((g', e'), events, calls) \<and> next_sequence g' 90 = 2)"
proof -
  have "request_of (demo_command 1 p) = Some (90, 1)" for p by (simp add: demo_command_def)
  note decide = gateway_decision_exact [OF demo_system_reachable _ this]
  show ?thesis
    using decide [of 120] decide [of 100] by (auto simp: demo_command_refusals default_config_def)
qed

section \<open>Request sequences\<close>

text \<open>
  The gateway in front of an engine that records what it is asked: the operations of the engine,
  each of which first notes its request. What a command makes the gateway ask is read off these
  notes, not off the checks.
\<close>

datatype engine_request = Asked_Place place_order | Asked_Cancel cancel_order

type_synonym observed_engine = "engine \<times> engine_request list"

definition noted ::
  "engine_request \<Rightarrow> engine_request list \<Rightarrow> engine call_result \<Rightarrow> observed_engine call_result" where
  "noted r notes result =
     (case result of
        Inl f \<Rightarrow> Inl f
      | Inr (e', events, calls) \<Rightarrow> Inr ((e', notes @ [r]), events, calls))"

definition place_observed :: "observed_engine \<Rightarrow> place_order \<Rightarrow> observed_engine call_result" where
  "place_observed s req = noted (Asked_Place req) (snd s) (engine_place_order (fst s) req)"

definition cancel_observed ::
  "order_location \<Rightarrow> observed_engine \<Rightarrow> cancel_order \<Rightarrow> observed_engine call_result" where
  "cancel_observed stale s req = noted (Asked_Cancel req) (snd s) (engine_cancel_order stale (fst s) req)"

fun gateway_observe ::
  "gateway \<Rightarrow> observed_engine \<Rightarrow> gateway_command \<Rightarrow> (gateway \<times> observed_engine) call_result" where
  "gateway_observe g s (Place_Command cmd) = gateway_place_via place_observed g s cmd"
| "gateway_observe g s (Cancel_Command stale cmd) = gateway_cancel_via (cancel_observed stale) g s cmd"
| "gateway_observe g s (Register_Client cl a) = Inr ((fst (register_client g cl a), s), [], [])"
| "gateway_observe g s (Unregister_Client cl) = Inr ((fst (unregister_client g cl), s), [], [])"
| "gateway_observe g s (Set_Reference_Price i p) = Inr ((fst (set_reference_price g i p), s), [], [])"

text \<open>Apart from the notes, the observed gateway is the gateway.\<close>

lemma gateway_observe_execute:
  "gateway_execute g e cmd =
     (case gateway_observe g (e, seen) cmd of
        Inl f \<Rightarrow> Inl f
      | Inr ((g', e', _), events, calls) \<Rightarrow> Inr ((g', e'), events, calls))"
  by (cases cmd)
    (auto simp: gateway_handlers forward_def place_observed_def cancel_observed_def noted_def Let_def
      split: option.split sum.split prod.split)

text \<open>A run of commands, each with the requests that the engine received while it was served.\<close>

type_synonym observed_log = "(gateway_command \<times> engine_request list) list"

fun gateway_run :: "gateway \<Rightarrow> engine \<Rightarrow> gateway_command list \<Rightarrow>
    fault + (gateway \<times> engine \<times> observed_log)" where
  "gateway_run g e [] = Inr (g, e, [])"
| "gateway_run g e (cmd # cmds) =
     (case gateway_observe g (e, []) cmd of
        Inl f \<Rightarrow> Inl f
      | Inr ((g', e', asked), _, _) \<Rightarrow>
          (case gateway_run g' e' cmds of
             Inl f \<Rightarrow> Inl f
           | Inr (g'', e'', log) \<Rightarrow> Inr (g'', e'', (cmd, asked) # log)))"

text \<open>
  The sequences under which requests of a client reached the engine, one for every request that it
  received; and what a command is meant to ask of the engine.
\<close>

definition passed_of :: "client_id \<Rightarrow> observed_log \<Rightarrow> request_sequence list" where
  "passed_of cl log = concat (map (\<lambda>(cmd, asked).
     case request_of cmd of
       Some (c, sq) \<Rightarrow> if c = cl then replicate (length asked) sq else []
     | None \<Rightarrow> []) log)"

fun asks :: "gateway_command \<Rightarrow> engine_request list" where
  "asks (Place_Command cmd) = [Asked_Place (pc_order cmd)]"
| "asks (Cancel_Command stale cmd) = [Asked_Cancel (cc_cancel cmd)]"
| "asks _ = []"

lemma passed_of_steps:
  "passed_of cl [] = []"
  "passed_of cl ((cmd, asked) # log) = passed_of cl [(cmd, asked)] @ passed_of cl log"
  by (simp_all add: passed_of_def)

definition counting_from :: "u64 \<Rightarrow> nat \<Rightarrow> u64 list" where
  "counting_from s n = map (\<lambda>k. s + of_nat k) [0..<n]"

lemma counting_from_Suc: "counting_from s (Suc n) = s # counting_from (s + 1) n"
proof -
  have "map (\<lambda>k. s + of_nat k) [0..<Suc n] = s # map (\<lambda>k. s + of_nat (Suc k)) [0..<n]"
    by (subst upt_conv_Cons) (simp_all add: map_Suc_upt [symmetric] del: upt_Suc map_Suc_upt)
  then show ?thesis by (simp add: counting_from_def add.assoc [symmetric] add.commute [of 1])
qed

lemma counting_from_distinct: "n \<le> 2 ^ 64 \<Longrightarrow> distinct (counting_from s n)"
  by (auto simp: counting_from_def distinct_map inj_on_def word_of_nat_eq_iff take_bit_nat_eq_self_iff
      take_bit_nat_def)

text \<open>A refused command asks nothing; one that passes asks the engine once, for what it says.\<close>

lemma observe_refused:
  assumes "gateway_ok gc g" and "unat (maximum_reference_deviation_basis_points gc) \<le> 10000"
    and "request_of cmd = Some (cl, sq)" and "command_refusal g cmd = Some reason"
  shows "\<exists>events. gateway_observe g s cmd = Inr ((g, s), events, [])"
  using assms(3,4)
  by (auto elim!: request_of_Some simp: gateway_fat_finger_refusal [OF assms(1,2)] session_refusal_def
      gateway_handlers Let_def
      split: option.splits if_splits fat_finger_result.splits)

lemma observe_passed:
  assumes "gateway_ok gc g" and "unat (maximum_reference_deviation_basis_points gc) \<le> 10000"
    and "request_of cmd = Some (cl, sq)" and "command_refusal g cmd = None"
    and "engine_call e cmd = Inr (e', events, calls)"
  obtains cs where "gw_clients g cl = Some cs" "cs_next_sequence cs = sq"
    "gateway_observe g (e, []) cmd = Inr ((advance g cl cs, e', asks cmd), events, calls)"
  using assms(3,4,5)
  by (auto elim!: request_of_Some simp: gateway_fat_finger_refusal [OF assms(1,2)] session_refusal_def
      gateway_handlers Let_def place_observed_def cancel_observed_def noted_def forward_def
      split: option.splits if_splits fat_finger_result.splits)

text \<open>One command: the session stays, and its sequence moves by one for each request it passes on.\<close>

lemma gateway_step_sequence:
  assumes "gateway_ok gc g" and "engine_reachable ec e"
    and "unat (maximum_reference_deviation_basis_points gc) \<le> 10000"
    and "gw_clients g cl \<noteq> None" and "cmd \<noteq> Unregister_Client cl"
  obtains g' e' asked events calls where
    "gateway_observe g (e, []) cmd = Inr ((g', e', asked), events, calls)" "gw_clients g' cl \<noteq> None"
    "asked \<in> {[], asks cmd}" "passed_of cl [(cmd, asked)] \<in> {[], [next_sequence g cl]}"
    "next_sequence g' cl = next_sequence g cl + of_nat (length (passed_of cl [(cmd, asked)]))"
proof (cases "request_of cmd")
  case None
  then have "passed_of cl [(cmd, asked)] = []" for asked by (simp add: passed_of_def)
  moreover have "\<exists>g' events calls. gateway_observe g (e, []) cmd = Inr ((g', e, []), events, calls) \<and>
      gw_clients g' cl \<noteq> None \<and> next_sequence g' cl = next_sequence g cl"
    using None assms(4,5)
    by (cases cmd) (auto simp: register_client_def unregister_client_def set_reference_price_def
        emplace_def next_sequence_def)
  ultimately show thesis using that by fastforce
next
  case (Some r)
  obtain c sq where r: "request_of cmd = Some (c, sq)" using Some by (cases r) simp
  show thesis
  proof (cases "command_refusal g cmd")
    case (Some reason)
    obtain events where "gateway_observe g (e, []) cmd = Inr ((g, e, []), events, [])"
      using observe_refused [OF assms(1,3) r Some] by blast
    then show thesis by (rule that) (use r assms(4) in \<open>simp_all add: passed_of_def\<close>)
  next
    case None
    obtain e' events calls where call: "engine_call e cmd = Inr (e', events, calls)"
      using engine_call_returns [OF assms(2)] by blast
    obtain cs where cs: "gw_clients g c = Some cs" "cs_next_sequence cs = sq"
        "gateway_observe g (e, []) cmd = Inr ((advance g c cs, e', asks cmd), events, calls)"
      by (rule observe_passed [OF assms(1,3) r None call])
    have "length (asks cmd) = 1" using r by (cases cmd) simp_all
    then show thesis
      using cs(1,2) r assms(4)
      by (intro that [OF cs(3)]) (auto simp: passed_of_def next_sequence_def advance_def)
  qed
qed

lemma gateway_run_sequence:
  assumes "system_reachable gc ec g e"
    and "unat (maximum_reference_deviation_basis_points gc) \<le> 10000"
    and "gw_clients g cl \<noteq> None" and "Unregister_Client cl \<notin> set cmds"
  shows "\<exists>g' e' log. gateway_run g e cmds = Inr (g', e', log) \<and> system_reachable gc ec g' e' \<and>
    map fst log = cmds \<and> list_all (\<lambda>(cmd, asked). asked \<in> {[], asks cmd}) log \<and>
    passed_of cl log = counting_from (next_sequence g cl) (length (passed_of cl log)) \<and>
    next_sequence g' cl = next_sequence g cl + of_nat (length (passed_of cl log)) \<and>
    length (passed_of cl log) \<le> length cmds"
  using assms
proof (induction cmds arbitrary: g e)
  case Nil
  then show ?case by (simp add: counting_from_def passed_of_steps)
next
  case (Cons cmd cmds)
  note ok = system_reachable_ok [OF Cons.prems(1)]
  have "cmd \<noteq> Unregister_Client cl" using Cons.prems(4) by auto
  then obtain g1 e1 asked events calls where step:
      "gateway_observe g (e, []) cmd = Inr ((g1, e1, asked), events, calls)" "gw_clients g1 cl \<noteq> None"
      "asked \<in> {[], asks cmd}" "passed_of cl [(cmd, asked)] \<in> {[], [next_sequence g cl]}"
      "next_sequence g1 cl = next_sequence g cl + of_nat (length (passed_of cl [(cmd, asked)]))"
    by (rule gateway_step_sequence [OF conjunct1 [OF ok] conjunct2 [OF ok] Cons.prems(2,3)])
  have "gateway_execute g e cmd = Inr ((g1, e1), events, calls)"
    using step(1) by (simp add: gateway_observe_execute [where seen = "[]"])
  from Cons.IH [OF system_command [OF Cons.prems(1) this] Cons.prems(2) step(2)] Cons.prems(4)
  obtain g' e' log where run: "gateway_run g1 e1 cmds = Inr (g', e', log)" "system_reachable gc ec g' e'"
      "map fst log = cmds" "list_all (\<lambda>(cmd, asked). asked \<in> {[], asks cmd}) log"
      "passed_of cl log = counting_from (next_sequence g1 cl) (length (passed_of cl log))"
      "next_sequence g' cl = next_sequence g1 cl + of_nat (length (passed_of cl log))"
      "length (passed_of cl log) \<le> length cmds"
    by auto
  have "gateway_run g e (cmd # cmds) = Inr (g', e', (cmd, asked) # log)" using step(1) run(1) by simp
  moreover have "passed_of cl ((cmd, asked) # log) =
        counting_from (next_sequence g cl) (length (passed_of cl ((cmd, asked) # log))) \<and>
      next_sequence g' cl = next_sequence g cl + of_nat (length (passed_of cl ((cmd, asked) # log))) \<and>
      length (passed_of cl ((cmd, asked) # log)) \<le> length (cmd # cmds)"
    using run(5,6,7) step(4,5)
    unfolding passed_of_steps(2) [of cl cmd asked log]
    by (auto simp: counting_from_Suc add.commute add.left_commute)
  ultimately show ?case using run(2,3,4) step(3) by auto
qed

text \<open>
  C23: requests pass once and in order. In every reachable system, with a deviation of at most
  10000 basis points, take any run of commands, among them other sessions' and administrative
  ones, that does not remove the session of a client. The run returns and leads to a reachable
  system. Seen from the engine, serving a command means receiving nothing or exactly the request
  that the command carries, once; and the requests of the client that the engine received carry
  consecutive sequences from the client's next one on, so none is repeated and none skipped, and
  the next sequence then follows the last of them. (A session that is removed and registered
  again starts over at one, so the statement is about one session.)
\<close>

theorem requests_pass_once_in_order:
  assumes "system_reachable gc ec g e"
    and "unat (maximum_reference_deviation_basis_points gc) \<le> 10000"
    and "gw_clients g cl \<noteq> None" and "Unregister_Client cl \<notin> set cmds"
    and "length cmds \<le> 2 ^ 64"
  shows "\<exists>g' e' log. gateway_run g e cmds = Inr (g', e', log) \<and> system_reachable gc ec g' e' \<and>
    map fst log = cmds \<and> list_all (\<lambda>(cmd, asked). asked \<in> {[], asks cmd}) log \<and>
    passed_of cl log = counting_from (next_sequence g cl) (length (passed_of cl log)) \<and>
    distinct (passed_of cl log) \<and>
    next_sequence g' cl = next_sequence g cl + of_nat (length (passed_of cl log))"
proof -
  obtain g' e' log where run: "gateway_run g e cmds = Inr (g', e', log)" "system_reachable gc ec g' e'"
      "map fst log = cmds" "list_all (\<lambda>(cmd, asked). asked \<in> {[], asks cmd}) log"
      "passed_of cl log = counting_from (next_sequence g cl) (length (passed_of cl log))"
      "next_sequence g' cl = next_sequence g cl + of_nat (length (passed_of cl log))"
      "length (passed_of cl log) \<le> length cmds"
    using gateway_run_sequence [OF assms(1-4)] by blast
  have "distinct (passed_of cl log)"
    by (subst run(5), rule counting_from_distinct) (use run(7) assms(5) in linarith)
  then show ?thesis using run by blast
qed

text \<open>A command, the same command again, and one with the next sequence: the engine hears the first and the last.\<close>

theorem requests_pass_once_in_order_witness:
  "\<exists>g' e' asked1 asked2 asked3. gateway_run demo_gateway demo_engine
       [demo_command 1 100, demo_command 1 100, demo_command 2 100] =
     Inr (g', e', [(demo_command 1 100, asked1), (demo_command 1 100, asked2), (demo_command 2 100, asked3)]) \<and>
     (asked1 = [] \<or> asked2 = []) \<and>
     next_sequence g' 90 = 1 + of_nat (length (passed_of 90
       [(demo_command 1 100, asked1), (demo_command 1 100, asked2), (demo_command 2 100, asked3)]))"
proof -
  have start: "gw_clients demo_gateway 90 \<noteq> None" "next_sequence demo_gateway 90 = 1"
    by (simp_all add: demo_gateway_def next_sequence_def)
  let ?cmds = "[demo_command 1 100, demo_command 1 100, demo_command 2 100]"
  have "unat (maximum_reference_deviation_basis_points default_config) \<le> 10000"
      "Unregister_Client 90 \<notin> set ?cmds"
    by (simp_all add: default_config_def demo_command_def)
  from requests_pass_once_in_order [OF demo_system_reachable this(1) start(1) this(2)]
  obtain g' e' log where run: "gateway_run demo_gateway demo_engine ?cmds = Inr (g', e', log)"
      "map fst log = ?cmds" "distinct (passed_of 90 log)"
      "next_sequence g' 90 = 1 + of_nat (length (passed_of 90 log))"
    using start(2) by auto
  obtain asked1 asked2 asked3 where log:
      "log = [(demo_command 1 100, asked1), (demo_command 1 100, asked2), (demo_command 2 100, asked3)]"
    using run(2) by (auto simp: map_eq_Cons_conv)
  have "asked1 = [] \<or> asked2 = []"
    using run(3) unfolding log by (cases asked1; cases asked2) (auto simp: passed_of_def demo_command_def)
  then show ?thesis using run(1,4) unfolding log by blast
qed

section \<open>Isolation of accounts\<close>

text \<open>
  C19: accounts are isolated. In every reachable system, a command of a session leaves the
  resting orders of every account other than its own alone, except that it may trade against
  them: each such order keeps its side and account and loses exactly the quantity that the
  returned trades take from it, and no new order appears in the name of another account.
\<close>

theorem gateway_isolates_accounts:
  assumes "system_reachable gc ec g e"
    and "gateway_execute g e cmd = Inr ((g', e'), events, calls)"
    and "request_of cmd = Some (cl, sq)" and "gw_clients g cl = Some cs" and "b \<noteq> cs_account_id cs"
  shows "(\<forall>s n. resting e i oid = Some (s, b, n) \<longrightarrow>
      n = quantity_of (resting e' i oid) + traded_against i oid events \<and>
      (\<forall>s' b' m. resting e' i oid = Some (s', b', m) \<longrightarrow> s' = s \<and> b' = b)) \<and>
    (\<forall>s m. resting e' i oid = Some (s, b, m) \<longrightarrow> resting e i oid \<noteq> None)"
proof -
  note inv = conjunct1 [OF engine_reachable_inv [OF conjunct2 [OF system_reachable_ok [OF assms(1)]]]]
  consider "e' = e" "trades_of events = []"
    | pc where "cmd = Place_Command pc" "cs_account_id cs = pl_account_id (pc_order pc)"
      "engine_place_order e (pc_order pc) = Inr (e', events, calls)"
    | stale cc where "cmd = Cancel_Command stale cc" "cs_account_id cs = ca_account_id (cc_cancel cc)"
      "engine_cancel_order stale e (cc_cancel cc) = Inr (e', events, calls)"
    using assms(2-4)
    by (cases cmd) (auto simp: gateway_handlers forward_def
        reject_place_def reject_cancel_def Let_def split: if_splits sum.splits)
  then show ?thesis
  proof cases
    case 1
    then show ?thesis by (simp add: traded_against_def quantity_of_def)
  next
    case 2
    note place = place_resting [OF inv 2(3), of i oid]
    show ?thesis using place(1) place(2) assms(5) 2(2) by (fastforce simp: quantity_of_def)
  next
    case 3
    show ?thesis
      using cancel_resting(1) [OF inv 3(3), of i oid] cancel_resting(2) [OF inv 3(3)] assms(5) 3(2)
      by (cases "resting e i oid") (auto simp: traded_against_def quantity_of_def)
  qed
qed

theorem gateway_isolates_accounts_witness:
  "\<exists>g' e' events calls. gateway_execute demo_gateway demo_engine (demo_command 1 100) = Inr ((g', e'), events, calls) \<and>
     2 = quantity_of (resting e' 1 1) + traded_against 1 1 events"
proof -
  have ok: "unat (maximum_reference_deviation_basis_points default_config) \<le> 10000"
    by (simp add: default_config_def)
  have sender: "request_of (demo_command 1 100) = Some (90, 1)"
      "gw_clients demo_gateway 90 = Some \<lparr>cs_account_id = 9, cs_next_sequence = 1\<rparr>"
    by (simp_all add: demo_command_def demo_gateway_def)
  obtain g' e' events calls where
      res: "gateway_execute demo_gateway demo_engine (demo_command 1 100) = Inr ((g', e'), events, calls)"
  proof -
    obtain cs where "gateway_execute demo_gateway demo_engine (demo_command 1 100) =
        forward (advance demo_gateway 90 cs) (engine_call demo_engine (demo_command 1 100))"
      using command_passed [OF conjunct1 [OF system_reachable_ok [OF demo_system_reachable]] ok sender(1)]
        demo_command_refusals by blast
    then show thesis
      using that engine_call_returns [OF demo_engine_reachable, of "demo_command 1 100"]
      by (auto simp: forward_def)
  qed
  have "resting demo_engine 1 1 = Some (Sell, 7, 2)"
    using demo_engine_eval
    by (simp add: resting_def book_interest_def side_queue_def demo_ask_def qnat_def)
  with gateway_isolates_accounts [OF demo_system_reachable res sender,
      where b = 7 and i = 1 and oid = 1] res
  show ?thesis by auto
qed

end
