(* ===== verification/Venue_Refinement.thy ===== *)
theory Venue_Refinement
  imports Exchange_Refinement Order_Gateway_Properties
begin

text \<open>
  The gateway and the engine behind it as one venue: the abstract exchange with client sessions
  in front, and reference prices as integers. Every history of administrative calls and client
  commands is served as the venue serves it.
\<close>

section \<open>The venue\<close>

record venue =
  v_exchange :: exchange
  v_sessions :: "client_id \<rightharpoonup> account_id \<times> request_sequence"
  v_prices :: "instrument_id \<rightharpoonup> int"

definition new_venue :: venue where
  "new_venue = \<lparr>v_exchange = new_exchange, v_sessions = Map.empty, v_prices = Map.empty\<rparr>"

datatype venue_command = Direct order_location request | Client gateway_command

text \<open>
  Others use the engine directly, to register instruments or to place orders. A command of a
  client is turned away at the door, or served by the exchange.
\<close>

datatype venue_answer = Flagged bool | Turned_Away instrument_id order_id reject_reason | Served answer

definition v_session_refusal ::
  "venue \<Rightarrow> client_id \<Rightarrow> request_sequence \<Rightarrow> account_id \<Rightarrow> reject_reason option" where
  "v_session_refusal v cl sq a =
     (case v_sessions v cl of
        None \<Rightarrow> Some Unknown_Client
      | Some (owner, expected) \<Rightarrow>
          if owner \<noteq> a then Some Unauthorized_Order
          else if expected \<noteq> sq then Some Invalid_Request_Sequence
          else None)"

definition v_band_refusal :: "engine_config \<Rightarrow> venue \<Rightarrow> place_order \<Rightarrow> reject_reason option" where
  "v_band_refusal gc v req =
     (let p = sint (pl_price req); points = uint (maximum_reference_deviation_basis_points gc)
      in if pl_order_type req = Market \<or> p \<le> 0 then None
         else case v_prices v (pl_instrument_id req) of
                None \<Rightarrow> Some Risk_Reference_Price_Unavailable
              | Some ref \<Rightarrow>
                  if \<bar>p - ref\<bar> \<le> ref * points div 10000 then None else Some Risk_Fat_Finger_Limit)"

definition v_advance :: "venue \<Rightarrow> client_id \<Rightarrow> venue" where
  "v_advance v cl = v\<lparr>v_sessions := (v_sessions v)(cl := map_option (apsnd (\<lambda>sq. sq + 1)) (v_sessions v cl))\<rparr>"

fun v_serve :: "engine_config \<Rightarrow> engine_config \<Rightarrow> venue \<Rightarrow> venue_command \<Rightarrow> venue \<times> venue_answer" where
  "v_serve gc ec v (Direct stale r) =
     (case x_serve ec (v_exchange v) r of (x, a) \<Rightarrow> (v\<lparr>v_exchange := x\<rparr>, Served a))"
| "v_serve gc ec v (Client (Register_Client cl a)) =
     (if cl = 0 \<or> a = 0 \<or> v_sessions v cl \<noteq> None then (v, Flagged False)
      else (v\<lparr>v_sessions := (v_sessions v)(cl \<mapsto> (a, 1))\<rparr>, Flagged True))"
| "v_serve gc ec v (Client (Unregister_Client cl)) =
     (v\<lparr>v_sessions := (v_sessions v)(cl := None)\<rparr>, Flagged (v_sessions v cl \<noteq> None))"
| "v_serve gc ec v (Client (Set_Reference_Price i p)) =
     (if i = 0 \<or> sint p \<le> 0 then (v, Flagged False)
      else (v\<lparr>v_prices := (v_prices v)(i \<mapsto> sint p)\<rparr>, Flagged True))"
| "v_serve gc ec v (Client (Place_Command cmd)) =
     (let req = pc_order cmd
      in case (case v_session_refusal v (pc_client_id cmd) (pc_sequence cmd) (pl_account_id req) of
                 Some reason \<Rightarrow> Some reason | None \<Rightarrow> v_band_refusal gc v req) of
           Some reason \<Rightarrow> (v, Turned_Away (pl_instrument_id req) (pl_order_id req) reason)
         | None \<Rightarrow>
             case x_serve ec (v_exchange v) (Place req) of
               (x, a) \<Rightarrow> ((v_advance v (pc_client_id cmd))\<lparr>v_exchange := x\<rparr>, Served a))"
| "v_serve gc ec v (Client (Cancel_Command stale cmd)) =
     (let req = cc_cancel cmd
      in case v_session_refusal v (cc_client_id cmd) (cc_sequence cmd) (ca_account_id req) of
           Some reason \<Rightarrow> (v, Turned_Away (ca_instrument_id req) (ca_order_id req) reason)
         | None \<Rightarrow>
             case x_serve ec (v_exchange v) (Cancel req) of
               (x, a) \<Rightarrow> ((v_advance v (cc_client_id cmd))\<lparr>v_exchange := x\<rparr>, Served a))"

fun v_run :: "engine_config \<Rightarrow> engine_config \<Rightarrow> venue \<Rightarrow> venue_command list \<Rightarrow> venue \<times> venue_answer list" where
  "v_run gc ec v [] = (v, [])"
| "v_run gc ec v (c # cs) =
     (let (v', a) = v_serve gc ec v c; (v'', as) = v_run gc ec v' cs in (v'', a # as))"

section \<open>The program\<close>

text \<open>The same commands served by the gateway and its engine.\<close>

fun system_serve :: "gateway \<Rightarrow> engine \<Rightarrow> venue_command \<Rightarrow> ((gateway \<times> engine) \<times> reply) option" where
  "system_serve g e (Direct stale r) = map_option (\<lambda>(e', reply). ((g, e'), reply)) (engine_serve stale e r)"
| "system_serve g e (Client (Register_Client cl a)) =
     (case register_client g cl a of (g', b) \<Rightarrow> Some ((g', e), Flag b))"
| "system_serve g e (Client (Unregister_Client cl)) =
     (case unregister_client g cl of (g', b) \<Rightarrow> Some ((g', e), Flag b))"
| "system_serve g e (Client (Set_Reference_Price i p)) =
     (case set_reference_price g i p of (g', b) \<Rightarrow> Some ((g', e), Flag b))"
| "system_serve g e (Client cmd) =
     (case gateway_execute g e cmd of
        Inl f \<Rightarrow> None | Inr (st, events, calls) \<Rightarrow> Some (st, Events events))"

fun system_run :: "gateway \<Rightarrow> engine \<Rightarrow> venue_command list \<Rightarrow> ((gateway \<times> engine) \<times> reply list) option" where
  "system_run g e [] = Some ((g, e), [])"
| "system_run g e (c # cs) =
     (case system_serve g e c of
        None \<Rightarrow> None
      | Some ((g', e'), reply) \<Rightarrow>
          (case system_run g' e' cs of
             None \<Rightarrow> None | Some (st, replies) \<Rightarrow> Some (st, reply # replies)))"

fun v_conveys :: "reply \<Rightarrow> venue_answer \<Rightarrow> bool" where
  "v_conveys (Flag b) (Flagged b') \<longleftrightarrow> b = b'"
| "v_conveys (Events events) (Turned_Away i oid reason) \<longleftrightarrow> is_reject i oid reason events"
| "v_conveys reply (Served a) \<longleftrightarrow> conveys reply a"
| "v_conveys _ _ \<longleftrightarrow> False"

section \<open>Refinement\<close>

definition venue_of :: "gateway \<Rightarrow> engine \<Rightarrow> venue" where
  "venue_of g e =
     \<lparr>v_exchange = exchange_of e,
      v_sessions = (\<lambda>cl. map_option (\<lambda>cs. (cs_account_id cs, cs_next_sequence cs)) (gw_clients g cl)),
      v_prices = (\<lambda>i. map_option sint (gw_reference_prices g i))\<rparr>"

lemma venue_of_new: "venue_of (new_gateway gc) (new_engine ec sink) = new_venue"
  by (simp add: venue_of_def new_gateway_def new_venue_def exchange_of_new)

lemma v_session_refusal_of: "v_session_refusal (venue_of g e) cl sq a = session_refusal g cl sq a"
  by (auto simp: v_session_refusal_def session_refusal_def venue_of_def split: option.split)

lemma v_band_refusal_of: "gw_fat_finger g = gc \<Longrightarrow> v_band_refusal gc (venue_of g e) req = band_refusal g req"
  by (auto simp: v_band_refusal_def band_refusal_def venue_of_def Let_def split: option.split)

lemma gateway_ok_fat_finger: "gateway_ok gc g \<Longrightarrow> gw_fat_finger g = gc"
  by (simp add: gateway_ok_def)

lemma v_door:
  "gateway_ok gc g \<Longrightarrow>
   (case v_session_refusal (venue_of g e) (pc_client_id cmd) (pc_sequence cmd) (pl_account_id (pc_order cmd)) of
      Some reason \<Rightarrow> Some reason | None \<Rightarrow> v_band_refusal gc (venue_of g e) (pc_order cmd)) =
   command_refusal g (Place_Command cmd)"
  using v_band_refusal_of [OF gateway_ok_fat_finger]
  by (simp add: v_session_refusal_of split: option.split)

lemma v_advance_of:
  "gw_clients g cl = Some cs \<Longrightarrow>
   (v_advance (venue_of g e) cl)\<lparr>v_exchange := exchange_of e'\<rparr> = venue_of (advance g cl cs) e'"
  by (simp add: v_advance_def venue_of_def advance_def fun_eq_iff)

lemma administration_venue:
  "fst (v_serve gc ec (venue_of g e) (Client (Register_Client cl a))) = venue_of (fst (register_client g cl a)) e"
  "snd (v_serve gc ec (venue_of g e) (Client (Register_Client cl a))) = Flagged (snd (register_client g cl a))"
  "fst (v_serve gc ec (venue_of g e) (Client (Unregister_Client cl))) = venue_of (fst (unregister_client g cl)) e"
  "snd (v_serve gc ec (venue_of g e) (Client (Unregister_Client cl))) = Flagged (snd (unregister_client g cl))"
  "fst (v_serve gc ec (venue_of g e) (Client (Set_Reference_Price i p))) = venue_of (fst (set_reference_price g i p)) e"
  "snd (v_serve gc ec (venue_of g e) (Client (Set_Reference_Price i p))) = Flagged (snd (set_reference_price g i p))"
  by (auto simp: venue_of_def register_client_def unregister_client_def set_reference_price_def emplace_def
      word_sle_eq fun_eq_iff)

lemma place_turned_away:
  assumes "gateway_ok gc g" and "unat (maximum_reference_deviation_basis_points gc) \<le> 10000"
    and "command_refusal g (Place_Command cmd) = Some reason"
  shows "\<exists>events. gateway_execute g e (Place_Command cmd) = Inr ((g, e), events, []) \<and>
    is_reject (pl_instrument_id (pc_order cmd)) (pl_order_id (pc_order cmd)) reason events"
  using assms(3)
  by (auto simp: gateway_fat_finger_refusal [OF assms(1,2)] session_refusal_def gateway_handlers
      reject_place_def is_reject_def Let_def split: option.splits if_splits fat_finger_result.splits)

lemma cancel_turned_away:
  assumes "command_refusal g (Cancel_Command stale cmd) = Some reason"
  shows "\<exists>events. gateway_execute g e (Cancel_Command stale cmd) = Inr ((g, e), events, []) \<and>
    is_reject (ca_instrument_id (cc_cancel cmd)) (ca_order_id (cc_cancel cmd)) reason events"
  using assms
  by (auto simp: session_refusal_def gateway_handlers reject_cancel_def is_reject_def Let_def
      split: option.splits if_splits)

text \<open>Passing a request on: the session advances and the exchange serves it.\<close>

lemma passed_venue:
  assumes "engine_reachable ec e" and "config_safe ec" and cs: "gw_clients g cl = Some cs"
    and call: "gateway_execute g e cmd = forward (advance g cl cs) (engine_call e cmd)"
    and r: "engine_serve stale e r = (case engine_call e cmd of Inl f \<Rightarrow> None
      | Inr (e', events, calls) \<Rightarrow> Some (e', Events events))"
    and serve: "system_serve g e (Client cmd) = (case gateway_execute g e cmd of
      Inl f \<Rightarrow> None | Inr (st, events, calls) \<Rightarrow> Some (st, Events events))"
  obtains e' reply where "system_serve g e (Client cmd) = Some ((advance g cl cs, e'), reply)" "engine_reachable ec e'"
    "venue_of (advance g cl cs) e' =
      (v_advance (venue_of g e) cl)\<lparr>v_exchange := fst (x_serve ec (v_exchange (venue_of g e)) r)\<rparr>"
    "conveys reply (snd (x_serve ec (v_exchange (venue_of g e)) r))"
proof -
  obtain e' reply where e': "engine_serve stale e r = Some (e', reply)" "engine_reachable ec e'"
      "exchange_of e' = fst (x_serve ec (exchange_of e) r)" "conveys reply (snd (x_serve ec (exchange_of e) r))"
    by (rule serve_exchange [OF assms(1,2)])
  have "system_serve g e (Client cmd) = Some ((advance g cl cs, e'), reply)"
    using r e'(1) by (auto simp: serve call forward_def split: sum.splits prod.splits)
  moreover have "v_exchange (venue_of g e) = exchange_of e" by (simp add: venue_of_def)
  ultimately show thesis using that e' v_advance_of [OF cs, where e = e and e' = e'] by simp
qed

definition venue_step :: "engine_config \<Rightarrow> engine_config \<Rightarrow> gateway \<Rightarrow> engine \<Rightarrow> venue_command \<Rightarrow> bool" where
  "venue_step gc ec g e c \<longleftrightarrow>
     (\<exists>g' e' reply. system_serve g e c = Some ((g', e'), reply) \<and> gateway_ok gc g' \<and> engine_reachable ec e' \<and>
        venue_of g' e' = fst (v_serve gc ec (venue_of g e) c) \<and>
        v_conveys reply (snd (v_serve gc ec (venue_of g e) c)))"

lemma administration_step:
  assumes "gateway_ok gc g" and "engine_reachable ec e"
  shows "venue_step gc ec g e (Client (Register_Client cl a))"
    and "venue_step gc ec g e (Client (Unregister_Client cl))"
    and "venue_step gc ec g e (Client (Set_Reference_Price i p))"
  using assms gateway_ok_administration [OF assms(1)]
    administration_venue [where gc = gc and ec = ec and g = g and e = e]
  unfolding venue_step_def by (simp_all add: split_beta del: v_serve.simps)

lemma direct_step:
  assumes "gateway_ok gc g" and "engine_reachable ec e" and "config_safe ec"
  shows "venue_step gc ec g e (Direct stale r)"
proof -
  obtain e' reply where "engine_serve stale e r = Some (e', reply)" "engine_reachable ec e'"
      "exchange_of e' = fst (x_serve ec (exchange_of e) r)" "conveys reply (snd (x_serve ec (exchange_of e) r))"
    by (rule serve_exchange [OF assms(2,3)])
  then show ?thesis using assms(1) by (simp add: venue_step_def venue_of_def split_beta)
qed

lemma place_step:
  assumes g: "gateway_ok gc g" "unat (maximum_reference_deviation_basis_points gc) \<le> 10000"
    and e: "engine_reachable ec e" "config_safe ec"
  shows "venue_step gc ec g e (Client (Place_Command cmd))"
proof (cases "command_refusal g (Place_Command cmd)")
  case (Some reason)
  obtain events where "gateway_execute g e (Place_Command cmd) = Inr ((g, e), events, [])"
      "is_reject (pl_instrument_id (pc_order cmd)) (pl_order_id (pc_order cmd)) reason events"
    using place_turned_away [OF g Some] by blast
  moreover have "v_serve gc ec (venue_of g e) (Client (Place_Command cmd)) =
      (venue_of g e, Turned_Away (pl_instrument_id (pc_order cmd)) (pl_order_id (pc_order cmd)) reason)"
    using Some unfolding v_serve.simps Let_def v_door [OF g(1)] by simp
  ultimately show ?thesis using g(1) e(1) by (simp add: venue_step_def)
next
  case None
  let ?cl = "pc_client_id cmd" and ?r = "Place (pc_order cmd)"
  obtain cs where cs: "gw_clients g ?cl = Some cs"
      "gateway_execute g e (Place_Command cmd) = forward (advance g ?cl cs) (engine_call e (Place_Command cmd))"
    by (rule command_passed [OF g _ None, where e = e]) simp_all
  have "v_serve gc ec (venue_of g e) (Client (Place_Command cmd)) =
      ((v_advance (venue_of g e) ?cl)\<lparr>v_exchange := fst (x_serve ec (v_exchange (venue_of g e)) ?r)\<rparr>,
       Served (snd (x_serve ec (v_exchange (venue_of g e)) ?r)))"
    using None unfolding v_serve.simps Let_def v_door [OF g(1)] by (simp add: split_beta del: x_serve.simps)
  then show ?thesis
    by (rule_tac passed_venue [OF e cs, where r = ?r]) 
      (use gateway_ok_advance [OF g(1) cs(1)] in \<open>auto simp: venue_step_def simp del: v_serve.simps x_serve.simps\<close>)
qed

lemma cancel_step:
  assumes g: "gateway_ok gc g" "unat (maximum_reference_deviation_basis_points gc) \<le> 10000"
    and e: "engine_reachable ec e" "config_safe ec"
  shows "venue_step gc ec g e (Client (Cancel_Command stale cmd))"
proof (cases "command_refusal g (Cancel_Command stale cmd)")
  case (Some reason)
  obtain events where "gateway_execute g e (Cancel_Command stale cmd) = Inr ((g, e), events, [])"
      "is_reject (ca_instrument_id (cc_cancel cmd)) (ca_order_id (cc_cancel cmd)) reason events"
    using cancel_turned_away [OF Some] by blast
  moreover have "v_serve gc ec (venue_of g e) (Client (Cancel_Command stale cmd)) =
      (venue_of g e, Turned_Away (ca_instrument_id (cc_cancel cmd)) (ca_order_id (cc_cancel cmd)) reason)"
    using Some by (simp add: v_session_refusal_of Let_def)
  ultimately show ?thesis using g(1) e(1) by (simp add: venue_step_def)
next
  case None
  let ?cl = "cc_client_id cmd" and ?r = "Cancel (cc_cancel cmd)"
  obtain cs where cs: "gw_clients g ?cl = Some cs"
      "gateway_execute g e (Cancel_Command stale cmd) =
        forward (advance g ?cl cs) (engine_call e (Cancel_Command stale cmd))"
    by (rule command_passed [OF g _ None, where e = e]) simp_all
  have "v_serve gc ec (venue_of g e) (Client (Cancel_Command stale cmd)) =
      ((v_advance (venue_of g e) ?cl)\<lparr>v_exchange := fst (x_serve ec (v_exchange (venue_of g e)) ?r)\<rparr>,
       Served (snd (x_serve ec (v_exchange (venue_of g e)) ?r)))"
    using None by (simp add: v_session_refusal_of Let_def split_beta del: x_serve.simps)
  then show ?thesis
    by (rule_tac passed_venue [OF e cs, where r = ?r and stale = stale])
      (use gateway_ok_advance [OF g(1) cs(1)] in \<open>auto simp: venue_step_def simp del: v_serve.simps x_serve.simps\<close>)
qed

lemma serve_venue:
  assumes "gateway_ok gc g" and "unat (maximum_reference_deviation_basis_points gc) \<le> 10000"
    and "engine_reachable ec e" and "config_safe ec"
  shows "venue_step gc ec g e c"
proof (cases c)
  case (Direct stale r)
  then show ?thesis using direct_step [OF assms(1,3,4)] by simp
next
  case (Client cmd)
  then show ?thesis
    using place_step [OF assms] cancel_step [OF assms] administration_step [OF assms(1,3)]
    by (cases cmd) simp_all
qed

section \<open>Histories\<close>

lemma run_venue:
  assumes "unat (maximum_reference_deviation_basis_points gc) \<le> 10000" and "config_safe ec"
    and "gateway_ok gc g" and "engine_reachable ec e"
  shows "\<exists>g' e' replies. system_run g e cs = Some ((g', e'), replies) \<and>
    venue_of g' e' = fst (v_run gc ec (venue_of g e) cs) \<and>
    list_all2 v_conveys replies (snd (v_run gc ec (venue_of g e) cs))"
  using assms(3,4)
proof (induction cs arbitrary: g e)
  case (Cons c cs)
  obtain g1 e1 reply where c: "system_serve g e c = Some ((g1, e1), reply)" "gateway_ok gc g1" "engine_reachable ec e1"
      "venue_of g1 e1 = fst (v_serve gc ec (venue_of g e) c)" "v_conveys reply (snd (v_serve gc ec (venue_of g e) c))"
    using serve_venue [OF Cons.prems(1) assms(1) Cons.prems(2) assms(2)] unfolding venue_step_def by blast
  obtain g' e' replies where "system_run g1 e1 cs = Some ((g', e'), replies)"
      "venue_of g' e' = fst (v_run gc ec (venue_of g1 e1) cs)"
      "list_all2 v_conveys replies (snd (v_run gc ec (venue_of g1 e1) cs))"
    using Cons.IH [OF c(2,3)] by blast
  then show ?case using c by (simp add: Let_def split_beta del: v_serve.simps)
qed simp

text \<open>
  C2: gateway and engine together are the venue. For a safe engine configuration
  (\<open>config_safe\<close>, which excludes the default one) and a deviation of at most 10000 basis points,
  every history of session calls, reference prices, client
  commands and direct uses of the engine runs without a fault from a new gateway and a new
  engine; each reply conveys the answer of the abstract venue, where a command is turned away at
  the door or served by the abstract exchange; and the final sessions, reference prices, books,
  positions and margins are those of the venue.
\<close>

theorem system_refines_venue:
  assumes "config_safe ec" and "unat (maximum_reference_deviation_basis_points gc) \<le> 10000"
  shows "\<exists>g e replies. system_run (new_gateway gc) (new_engine ec sink) cs = Some ((g, e), replies) \<and>
    venue_of g e = fst (v_run gc ec new_venue cs) \<and>
    list_all2 v_conveys replies (snd (v_run gc ec new_venue cs))"
proof -
  have "gateway_ok gc (new_gateway gc)" by (simp add: gateway_ok_def new_gateway_def)
  from run_venue [OF assms(2,1) this reach_new, of sink cs] show ?thesis unfolding venue_of_new .
qed

text \<open>Two clients trade; the second one first sends a wrong sequence.\<close>

definition demo_commands :: "venue_command list" where
  "demo_commands =
     [Direct \<lparr>ol_side = Buy, ol_price = Price 0, ol_account_id = 0\<rparr> (Register_Instrument demo_instrument),
      Client (Register_Client 70 7), Client (Register_Client 90 9), Client (Set_Reference_Price 1 100),
      Client (Place_Command \<lparr>pc_client_id = 70, pc_sequence = 1, pc_order = demo_request 1 Sell 100 5 Limit 7\<rparr>),
      Client (Place_Command \<lparr>pc_client_id = 90, pc_sequence = 2, pc_order = demo_request 2 Buy 100 3 Limit 9\<rparr>),
      Client (Place_Command \<lparr>pc_client_id = 90, pc_sequence = 1, pc_order = demo_request 2 Buy 100 3 Limit 9\<rparr>)]"

lemma demo_venue_run:
  "\<exists>v order1 order2 fs. v_run default_config demo_limits new_venue demo_commands = (v,
     [Served (Registration True), Flagged True, Flagged True, Flagged True,
      Served (Placement order1 1 (Executed [])), Turned_Away 1 2 Invalid_Request_Sequence,
      Served (Placement order2 1 (Executed fs))]) \<and>
     fs \<noteq> [] \<and> v_sessions v 90 = Some (9, 2) \<and> x_position (v_exchange v) 9 1 = 3"
  by (simp add: demo_commands_def demo_instrument_def x_register_def new_venue_def new_exchange_def
      accepts_orders_def price_is_positive_def quantity_is_positive_def word_sless_alt
      v_session_refusal_def v_band_refusal_def v_advance_def
      x_place_def x_admission_def Let_def demo_request_def demo_limits_def default_config_def
      request_order_def view_ids_def x_open_def x_held_def account_sum_def x_limit_def
      spec_place_def spec_match_def initial_margin_def capped_def fills_move_def is_immediate_def
      insert_by_priority_def resting_entry_def stops_at_def outside_limit.simps less_price_def margin_part_def
      qnat_def less_quantity_def less_eq_quantity_def minus_quantity_def)

theorem system_refines_venue_witness:
  "\<exists>g e b1 b2 b3. system_run (new_gateway default_config) (new_engine demo_limits No_Sink) demo_commands =
       Some ((g, e), [Flag True, Flag True, Flag True, Flag True, Events b1, Events b2, Events b3]) \<and>
     is_reject 1 2 Invalid_Request_Sequence b2 \<and> length b3 > 1 \<and>
     next_sequence g 90 = 2 \<and> sint (engine_account_position e 9 1) = 3"
proof -
  obtain v order1 order2 fs where run: "v_run default_config demo_limits new_venue demo_commands = (v,
       [Served (Registration True), Flagged True, Flagged True, Flagged True,
        Served (Placement order1 1 (Executed [])), Turned_Away 1 2 Invalid_Request_Sequence,
        Served (Placement order2 1 (Executed fs))])"
    and v: "fs \<noteq> []" "v_sessions v 90 = Some (9, 2)" "x_position (v_exchange v) 9 1 = 3"
    using demo_venue_run by blast
  have "unat (maximum_reference_deviation_basis_points default_config) \<le> 10000" by (simp add: default_config_def)
  from system_refines_venue [OF demo_limits_safe this, of No_Sink demo_commands] obtain g e replies where
      e: "system_run (new_gateway default_config) (new_engine demo_limits No_Sink) demo_commands = Some ((g, e), replies)"
      "venue_of g e = v"
      "list_all2 v_conveys replies (snd (v_run default_config demo_limits new_venue demo_commands))"
    using run by auto
  then obtain r1 r2 r3 r4 r5 r6 r7 where replies: "replies = [r1, r2, r3, r4, r5, r6, r7]"
    and r: "conveys r1 (Registration True)" "v_conveys r2 (Flagged True)" "v_conveys r3 (Flagged True)"
      "v_conveys r4 (Flagged True)" "conveys r5 (Placement order1 1 (Executed []))"
      "v_conveys r6 (Turned_Away 1 2 Invalid_Request_Sequence)" "conveys r7 (Placement order2 1 (Executed fs))"
    by (auto simp: run list_all2_Cons2)
  have "r1 = Flag True" "r2 = Flag True" "r3 = Flag True" "r4 = Flag True"
    using r(1-4) by (cases r1; cases r2; cases r3; cases r4; simp)+
  moreover have "\<exists>b. r5 = Events b" "\<exists>b. r6 = Events b \<and> is_reject 1 2 Invalid_Request_Sequence b"
    using r(5,6) by (cases r5; cases r6; simp)+
  moreover have "length (trade_list order2 1 fs) > 0" using v(1) by (cases fs) auto
  then have "\<exists>b. r7 = Events b \<and> length b > 1" using r(7) by (cases r7) auto
  moreover have "next_sequence g 90 = 2"
    using v(2) e(2) by (auto simp: venue_of_def next_sequence_def)
  moreover have "sint (engine_account_position e 9 1) = 3" using v(3) e(2) by (auto simp: venue_of_def exchange_of_def)
  ultimately show ?thesis using e(1) replies by auto
qed

end
