(* ===== verification/Instrument_Independence.thy ===== *)
theory Instrument_Independence
  imports Exchange_Spec Matching_Engine_Effects
begin

text \<open>
  The engine is a product of independent instruments. \<open>same_instrument i\<close> relates two engines
  that agree on everything an instrument uses: its registration, its book, the account states and
  the reservations in it. A request that names the instrument keeps the relation and gets the
  same reply from both; a request that names another one leaves the instrument as it was.
\<close>

section \<open>The account risk of one instrument\<close>

definition same_accounts :: "instrument_id \<Rightarrow> account_risk \<Rightarrow> account_risk \<Rightarrow> bool" where
  "same_accounts i ar ar' \<longleftrightarrow> ar_configuration ar = ar_configuration ar' \<and>
     (\<forall>a. state_for ar a i = state_for ar' a i) \<and>
     (\<forall>k. ar_reservations ar (i, k) = ar_reservations ar' (i, k))"

named_theorems same_step \<open>operations on an instrument keep the agreement on it\<close>
named_theorems frame_step \<open>operations on another instrument leave it alone\<close>

lemma same_accounts_refl [simp]: "same_accounts i ar ar"
  by (simp add: same_accounts_def)

lemma same_accounts_trans: "same_accounts i ar ar' \<Longrightarrow> same_accounts i ar' ar'' \<Longrightarrow> same_accounts i ar ar''"
  by (simp add: same_accounts_def)

lemma same_accounts_sym: "same_accounts i ar ar' \<Longrightarrow> same_accounts i ar' ar"
  by (simp add: same_accounts_def)

lemma same_reservation: "same_accounts i ar ar' \<Longrightarrow> ar_reservations ar (i, k) = ar_reservations ar' (i, k)"
  by (simp add: same_accounts_def)

lemma same_update_position [same_step]:
  "same_accounts i ar ar' \<Longrightarrow> same_accounts i (update_position ar a i s q) (update_position ar' a i s q)"
  by (auto simp: same_accounts_def update_position_state_for risk_frame)

lemma frame_update_position [frame_step]: 
  "i \<noteq> j \<Longrightarrow> same_accounts i (update_position ar a j s q) ar' \<longleftrightarrow> same_accounts i ar ar'"
  by (simp add: same_accounts_def update_position_state_for risk_frame)

lemma same_reserve [same_step]:
  "same_accounts (pl_instrument_id req) ar ar' \<Longrightarrow>
   same_accounts (pl_instrument_id req) (reserve ar req) (reserve ar' req)"
  by (simp add: same_accounts_def reserve_state_for reserve_reservations risk_frame)

lemma frame_reserve [frame_step]: 
  "i \<noteq> pl_instrument_id req \<Longrightarrow> same_accounts i (reserve ar req) ar' \<longleftrightarrow> same_accounts i ar ar'"
  by (simp add: same_accounts_def reserve_state_for reserve_reservations risk_frame)

lemma same_release [same_step]:
  assumes "same_accounts i ar ar'"
  shows "same_accounts i (release ar (i, k) q) (release ar' (i, k) q)"
proof (cases "ar_reservations ar (i, k)")
  case None
  then show ?thesis using assms by (simp add: release_None same_reservation [OF assms, symmetric])
next
  case (Some rv)
  then have "ar_reservations ar' (i, k) = Some rv" using same_reservation [OF assms] by simp
  then show ?thesis
    using assms Some by (simp add: same_accounts_def release_state_for release_reservations risk_frame)
qed

lemma frame_release [frame_step]: 
  "i \<noteq> j \<Longrightarrow> same_accounts i (release ar (j, k) q) ar' \<longleftrightarrow> same_accounts i ar ar'"
  by (cases "ar_reservations ar (j, k)")
    (simp_all add: same_accounts_def release_None release_state_for release_reservations risk_frame)

text \<open>Batches whose events name the instrument.\<close>

fun event_in :: "instrument_id \<Rightarrow> engine_event \<Rightarrow> bool" where
  "event_in i (Trade_Executed t) \<longleftrightarrow> te_instrument_id t = i"
| "event_in i (Order_Canceled cn) \<longleftrightarrow> cn_instrument_id cn = i"
| "event_in i _ \<longleftrightarrow> True"

lemma same_apply_event:
  assumes "same_accounts i ar ar'" and "pl_instrument_id req = i" and "event_in i ev"
  shows "same_accounts i (apply_event req created ar ev) (apply_event req created ar' ev)"
proof (cases ev)
  case (Trade_Executed t)
  let ?x = "te_execution_quantity t"
  let ?own = "\<lambda>ar. update_position (if created then release ar (i, pl_order_id req) ?x else ar)
      (pl_account_id req) i (pl_side req) ?x"
  have own: "same_accounts i (?own ar) (?own ar')" using assms(1) by (simp add: same_step)
  then have "ar_reservations (?own ar) (i, te_resting_order_id t) =
      ar_reservations (?own ar') (i, te_resting_order_id t)"
    by (rule same_reservation)
  then show ?thesis
    using assms(2,3) own Trade_Executed by (auto simp: Let_def same_step split: option.split)
qed (use assms in \<open>auto simp: same_step\<close>)

lemma frame_apply_event:
  assumes "i \<noteq> pl_instrument_id req" and "event_in (pl_instrument_id req) ev"
  shows "same_accounts i (apply_event req created ar ev) ar"
  using assms
  by (cases ev)
    (auto simp: Let_def frame_step split: option.split)

lemma same_risk_apply:
  assumes "same_accounts i ar ar'" and "pl_instrument_id req = i" and "\<forall>ev \<in> set events. event_in i ev"
  shows "same_accounts i (risk_apply ar req events created) (risk_apply ar' req events created)"
proof -
  have "same_accounts i (foldl (apply_event req created) ar events) (foldl (apply_event req created) ar' events)"
    using assms(1,3)
    by (induction events arbitrary: ar ar') (simp_all add: same_apply_event [OF _ assms(2)])
  then show ?thesis using assms(2) by (auto simp: risk_apply_def Let_def same_step)
qed

lemma frame_risk_apply:
  assumes "i \<noteq> pl_instrument_id req" and "\<forall>ev \<in> set events. event_in (pl_instrument_id req) ev"
  shows "same_accounts i (risk_apply ar req events created) ar"
proof -
  have "same_accounts i (foldl (apply_event req created) ar events) ar"
    using assms(2)
  proof (induction events arbitrary: ar)
    case (Cons ev events)
    then show ?case
      using same_accounts_trans [OF Cons.IH frame_apply_event [OF assms(1)]] by simp
  qed simp
  then show ?thesis
    using assms(1) by (auto simp: risk_apply_def Let_def frame_step)
qed

lemma same_account_evaluate:
  "same_accounts (pl_instrument_id req) ar ar' \<Longrightarrow> account_evaluate ar req = account_evaluate ar' req"
  by (simp add: same_accounts_def account_evaluate_def)

section \<open>One request\<close>

definition same_instrument :: "instrument_id \<Rightarrow> engine \<Rightarrow> engine \<Rightarrow> bool" where
  "same_instrument i e e' \<longleftrightarrow>
     en_configuration e = en_configuration e' \<and> find_instrument e i = find_instrument e' i \<and>
     en_order_books e i = en_order_books e' i \<and> same_accounts i (en_account_risk e) (en_account_risk e')"

lemma same_instrument_refl [simp]: "same_instrument i e e"
  by (simp add: same_instrument_def)

lemma same_instrument_trans: "same_instrument i e e' \<Longrightarrow> same_instrument i e' e'' \<Longrightarrow> same_instrument i e e''"
  by (auto simp: same_instrument_def intro: same_accounts_trans)

lemma same_instrument_sym: "same_instrument i e e' \<Longrightarrow> same_instrument i e' e"
  by (auto simp: same_instrument_def intro: same_accounts_sym)

text \<open>Two calls that both fault, or both return the same batch and engines that agree.\<close>

fun same_result :: "instrument_id \<Rightarrow> engine call_result \<Rightarrow> engine call_result \<Rightarrow> bool" where
  "same_result i (Inr (e, events, calls)) (Inr (e', events', calls')) \<longleftrightarrow>
     events = events' \<and> same_instrument i e e'"
| "same_result i (Inl f) (Inl f') \<longleftrightarrow> f = f'"
| "same_result i _ _ \<longleftrightarrow> False"

lemma same_reject:
  "same_instrument i e e' \<Longrightarrow> same_result i (engine_reject e order reason) (engine_reject e' order reason)"
  by (simp add: engine_reject_def Let_def)

text \<open>The batches of a book name the instrument of the request.\<close>

lemma book_place_events:
  assumes inv: "book_inv bk" and pos: "o_quantity order > Quantity 0"
  shows "\<forall>ev \<in> set (snd (book_place_order bk order)). event_in (o_instrument_id order) ev"
proof (cases "book_interest bk (o_order_id order)")
  case None
  then show ?thesis
    using book_place_contract [OF inv pos] by (auto simp: trades_for_def)
next
  case (Some v)
  then have "book_interest bk (o_order_id order) \<noteq> None" by simp
  from book_place_duplicate [OF inv this] show ?thesis by auto
qed

lemma book_cancel_events:
  "book_inv bk \<Longrightarrow> \<forall>ev \<in> set (snd (book_cancel_order stale bk req)). event_in (ca_instrument_id req) ev"
  using book_cancel_contract [of bk stale req] by auto

lemma same_place_accepted:
  assumes inv: "engine_inv e" and same: "same_instrument (pl_instrument_id req) e e'" and pos: "pl_quantity req \<noteq> 0"
  shows "same_result (pl_instrument_id req) (place_accepted e req duplicate) (place_accepted e' req duplicate)"
proof (cases "en_order_books e (pl_instrument_id req)")
  case None
  then show ?thesis using same by (simp add: place_accepted_def same_instrument_def)
next
  case (Some bk)
  let ?i = "pl_instrument_id req" and ?res = "book_place_order bk (book_order req)"
  let ?ar = "\<lambda>e. if duplicate then en_account_risk e else reserve (en_account_risk e) req"
  have q: "o_quantity (book_order req) > Quantity 0"
    using pos by (simp add: request_order_def less_quantity_def word_neq_0_conv)
  have "\<forall>ev \<in> set (snd ?res). event_in ?i ev"
    using book_place_events [OF books_agree_at(1) [OF engine_invD(2) [OF inv] Some] q]
    by (simp only: book_order_fields)
  moreover have "same_accounts ?i (?ar e) (?ar e')"
    using same by (simp add: same_instrument_def same_step)
  ultimately have "same_accounts ?i (risk_apply (?ar e) req (snd ?res) (\<not> duplicate))
      (risk_apply (?ar e') req (snd ?res) (\<not> duplicate))"
    by (intro same_risk_apply refl) 
  moreover have "en_order_books e' ?i = Some bk" "en_configuration e = en_configuration e'"
      "find_instrument e ?i = find_instrument e' ?i"
    using same Some by (simp_all add: same_instrument_def)
  ultimately show ?thesis
    using Some by (cases ?res) (simp add: place_accepted_def Let_def same_instrument_def find_instrument_def)
qed

lemma same_place:
  assumes inv: "engine_inv e" and same: "same_instrument (pl_instrument_id req) e e'"
  shows "same_result (pl_instrument_id req) (engine_place_order e req) (engine_place_order e' req)"
proof -
  have eq: "registry_find (en_instruments e) (pl_instrument_id req) =
        registry_find (en_instruments e') (pl_instrument_id req)"
      "en_configuration e = en_configuration e'"
      "engine_contains_order e (pl_instrument_id req) k = engine_contains_order e' (pl_instrument_id req) k"
      "account_evaluate (en_account_risk e) req = account_evaluate (en_account_risk e') req" for k
    using same by (simp_all add: same_instrument_def find_instrument_def engine_contains_order_def
        same_account_evaluate)
  show ?thesis
    unfolding engine_place_order_def eq Let_def
    by (auto simp: same_reject [OF same] split: sum.split intro: same_place_accepted [OF inv same])
qed

lemma same_cancel:
  assumes inv: "engine_inv e" and same: "same_instrument (ca_instrument_id req) e e'"
  shows "same_result (ca_instrument_id req) (engine_cancel_order stale e req) (engine_cancel_order stale e' req)"
proof -
  let ?i = "ca_instrument_id req"
  have eq: "registry_find (en_instruments e) ?i = registry_find (en_instruments e') ?i"
      "en_order_books e ?i = en_order_books e' ?i"
    using same by (simp_all add: same_instrument_def find_instrument_def)
  show ?thesis
  proof (cases "en_order_books e ?i")
    case None
    then show ?thesis by (simp add: engine_cancel_order_def eq same_reject [OF same])
  next
    case (Some bk)
    let ?res = "book_cancel_order stale bk req"
    have "\<forall>ev \<in> set (snd ?res). event_in ?i ev"
      by (rule book_cancel_events [OF books_agree_at(1) [OF engine_invD(2) [OF inv] Some]])
    moreover have "same_accounts ?i (en_account_risk e) (en_account_risk e')"
      using same by (simp add: same_instrument_def)
    ultimately have "same_accounts ?i (risk_apply (en_account_risk e) (cancel_context req) (snd ?res) False)
        (risk_apply (en_account_risk e') (cancel_context req) (snd ?res) False)"
      by (intro same_risk_apply) (simp_all add: cancel_context_def)
    moreover have "en_order_books e' ?i = Some bk" "en_configuration e = en_configuration e'"
      using same Some eq(2) by (simp_all add: same_instrument_def)
    ultimately show ?thesis
      using Some by (cases ?res) (auto simp: engine_cancel_order_def eq(1) same_reject [OF same] same_instrument_def
          find_instrument_def)
  qed
qed

lemma register_effect:
  "snd (register_instrument e inst) \<longleftrightarrow>
     inst_id inst \<noteq> 0 \<and> symbol inst \<noteq> [] \<and> accepts_orders inst \<and> find_instrument e (inst_id inst) = None"
  "find_instrument (fst (register_instrument e inst)) i =
     (if i = inst_id inst \<and> snd (register_instrument e inst) then Some inst else find_instrument e i)"
  "en_order_books (fst (register_instrument e inst)) i =
     (if i = inst_id inst \<and> snd (register_instrument e inst)
      then Some (case en_order_books e i of None \<Rightarrow> empty_book | Some bk \<Rightarrow> bk) else en_order_books e i)"
  "en_configuration (fst (register_instrument e inst)) = en_configuration e"
  "en_account_risk (fst (register_instrument e inst)) = en_account_risk e"
proof -
  obtain reg added where add: "registry_add (en_instruments e) inst = (reg, added)" by fastforce
  have result: "added \<longleftrightarrow> inst_id inst \<noteq> 0 \<and> symbol inst \<noteq> [] \<and> accepts_orders inst \<and>
      find_instrument e (inst_id inst) = None"
    using registry_add_result [of "en_instruments e" inst] by (simp add: add find_instrument_def)
  have found: "registry_find reg i = (if i = inst_id inst \<and> added then Some inst else find_instrument e i)"
    using registry_add_find [of "en_instruments e" inst] by (auto simp: add find_instrument_def)
  have e': "register_instrument e inst = (if added
      then (e\<lparr>en_instruments := reg, en_order_books := emplace (en_order_books e) (inst_id inst) empty_book\<rparr>, True)
      else (e\<lparr>en_instruments := reg\<rparr>, False))"
    by (simp add: register_instrument_def add)
  then show "en_configuration (fst (register_instrument e inst)) = en_configuration e"
    and "en_account_risk (fst (register_instrument e inst)) = en_account_risk e"
    and "en_order_books (fst (register_instrument e inst)) i =
       (if i = inst_id inst \<and> snd (register_instrument e inst)
        then Some (case en_order_books e i of None \<Rightarrow> empty_book | Some bk \<Rightarrow> bk) else en_order_books e i)"
    by (simp_all add: emplace_def split: option.split)
  have "snd (register_instrument e inst) = added" by (simp add: e')
  moreover have "find_instrument (fst (register_instrument e inst)) i = registry_find reg i"
    by (simp add: e' find_instrument_def)
  ultimately show "snd (register_instrument e inst) \<longleftrightarrow>
       inst_id inst \<noteq> 0 \<and> symbol inst \<noteq> [] \<and> accepts_orders inst \<and> find_instrument e (inst_id inst) = None"
    and "find_instrument (fst (register_instrument e inst)) i =
       (if i = inst_id inst \<and> snd (register_instrument e inst) then Some inst else find_instrument e i)"
    using result found by (simp_all only: refl)
qed

lemma same_register:
  assumes "same_instrument (inst_id inst) e e'"
  shows "snd (register_instrument e inst) = snd (register_instrument e' inst)"
    and "same_instrument (inst_id inst) (fst (register_instrument e inst)) (fst (register_instrument e' inst))"
  using assms by (auto simp: same_instrument_def register_effect)

text \<open>Requests for another instrument.\<close>

lemma frame_place:
  assumes inv: "engine_inv e" and other: "i \<noteq> pl_instrument_id req"
    and call: "engine_place_order e req = Inr (e', events, calls)"
  shows "same_instrument i e' e"
  using inv call
proof (cases rule: engine_place_effect)
  case (1 rj)
  then show ?thesis by simp
next
  case (2 bk)
  have "\<forall>ev \<in> set events. event_in (pl_instrument_id req) ev"
    using book_place_events [OF 2(2,3)] by (simp only: 2(4) book_order_fields)
  then have "same_accounts i (en_account_risk e') (en_account_risk e)"
    using same_accounts_trans [OF frame_risk_apply [OF other]] other by (simp add: 2(7) frame_step)
  then show ?thesis
    using engine_place_inv [OF inv call] other 2(5,6) by (simp add: same_instrument_def find_instrument_def)
qed

lemma frame_cancel:
  assumes inv: "engine_inv e" and other: "i \<noteq> ca_instrument_id req"
    and call: "engine_cancel_order stale e req = Inr (e', events, calls)"
  shows "same_instrument i e' e"
proof (cases "en_order_books e (ca_instrument_id req)")
  case None
  then have "registry_find (en_instruments e) (ca_instrument_id req) = None"
    using books_agree_at(3) [OF engine_invD(2) [OF inv]] by blast
  then show ?thesis using call by (auto simp: engine_cancel_order_def engine_reject_def Let_def)
next
  case (Some bk)
  let ?res = "book_cancel_order stale bk req"
  have "\<forall>ev \<in> set (snd ?res). event_in (pl_instrument_id (cancel_context req)) ev"
    using book_cancel_events [OF books_agree_at(1) [OF engine_invD(2) [OF inv] Some]]
    by (simp add: cancel_context_def)
  then have "same_accounts i (risk_apply (en_account_risk e) (cancel_context req) (snd ?res) False) (en_account_risk e)"
    using frame_risk_apply [of i "cancel_context req"] other by (simp add: cancel_context_def)
  then show ?thesis
    by (rule_tac cancel_ok [OF inv Some, of stale])
      (use call other in \<open>auto simp: same_instrument_def find_instrument_def\<close>)
qed

lemma frame_register: "i \<noteq> inst_id inst \<Longrightarrow> same_instrument i (fst (register_instrument e inst)) e"
  by (simp add: same_instrument_def register_effect)

section \<open>Histories\<close>

fun concerns :: "instrument_id \<Rightarrow> request \<Rightarrow> bool" where
  "concerns i (Register_Instrument inst) \<longleftrightarrow> inst_id inst = i"
| "concerns i (Place req) \<longleftrightarrow> pl_instrument_id req = i"
| "concerns i (Cancel req) \<longleftrightarrow> ca_instrument_id req = i"

lemma serve_inv:
  assumes "engine_inv e"
  obtains e' reply where "engine_serve stale e r = Some (e', reply)" "engine_inv e'"
proof (cases r)
  case (Register_Instrument inst)
  then show thesis using that engine_inv_register [OF assms] by (simp add: apsnd_def map_prod_def split_beta)
next
  case (Place req)
  obtain e' events calls where "engine_place_order e req = Inr (e', events, calls)"
    using engine_place_returns [OF assms] by blast
  then show thesis using that Place engine_place_inv [OF assms] by simp
next
  case (Cancel req)
  obtain e' events calls where "engine_cancel_order stale e req = Inr (e', events, calls)"
    using engine_cancel_returns [OF assms] by blast
  then show thesis using that Cancel engine_cancel_inv [OF assms] by simp
qed

lemma serve_same:
  assumes "engine_inv e" and "same_instrument i e e'" and "concerns i r"
    and "engine_serve stale e r = Some (e1, reply)" and "engine_serve stale e' r = Some (e1', reply')"
  shows "reply' = reply \<and> same_instrument i e1 e1'"
proof (cases r)
  case (Register_Instrument inst)
  then show ?thesis using assms same_register [of inst e e'] by (auto simp: apsnd_def map_prod_def split_beta)
next
  case (Place req)
  then show ?thesis using assms same_place [of e req e'] by (auto split: sum.splits)
next
  case (Cancel req)
  then show ?thesis using assms same_cancel [of e req e' stale] by (auto split: sum.splits)
qed

lemma serve_frame:
  assumes "engine_inv e" and "\<not> concerns i r" and "engine_serve stale e r = Some (e', reply)"
  shows "same_instrument i e' e"
  using assms
  by (cases r)
    (auto simp: apsnd_def map_prod_def split_beta split: sum.splits intro: frame_place frame_cancel frame_register)

text \<open>The replies of a history to the requests that name the instrument.\<close>

definition replies_to :: "instrument_id \<Rightarrow> history \<Rightarrow> reply list \<Rightarrow> reply list" where
  "replies_to i hs replies = map snd (filter (\<lambda>(h, reply). concerns i (snd h)) (zip hs replies))"

lemma run_projection:
  assumes "engine_inv e" and "engine_inv e'" and "same_instrument i e e'"
  shows "\<exists>f f' replies. engine_run e hs = Some (f, replies) \<and>
    engine_run e' (filter (\<lambda>(stale, r). concerns i r) hs) = Some (f', replies_to i hs replies) \<and>
    same_instrument i f f'"
  using assms
proof (induction hs arbitrary: e e')
  case Nil
  then show ?case by (simp add: replies_to_def)
next
  case (Cons h hs)
  obtain stale r where h: "h = (stale, r)" by (cases h)
  obtain e1 reply where e1: "engine_serve stale e r = Some (e1, reply)" "engine_inv e1"
    by (rule serve_inv [OF Cons.prems(1)])
  obtain e1' reply' where e1': "engine_serve stale e' r = Some (e1', reply')" "engine_inv e1'"
    by (rule serve_inv [OF Cons.prems(2)])
  show ?case
  proof (cases "concerns i r")
    case True
    note same = serve_same [OF Cons.prems(1,3) True e1(1) e1'(1)]
    show ?thesis
      using Cons.IH [OF e1(2) e1'(2) conjunct2 [OF same]] True e1 e1' same by (auto simp: h replies_to_def)
  next
    case False
    have "same_instrument i e1 e'"
      using serve_frame [OF Cons.prems(1) False e1(1)] Cons.prems(3) by (rule same_instrument_trans)
    from Cons.IH [OF e1(2) Cons.prems(2) this] show ?thesis using False e1 by (auto simp: h replies_to_def)
  qed
qed

text \<open>
  C3: instruments do not interfere. Serve any history with a new engine, and with another one
  only the requests of it that name an instrument: both return without a fault, the requests get
  the same replies, event for event, and both engines end with the same registration and book of
  the instrument, and the same states and reservations of all accounts in it. So no request
  reaches another instrument, and no limit of an account spans two of them.
\<close>

theorem instruments_are_independent:
  "\<exists>e e' replies.
     engine_run (new_engine c sink) hs = Some (e, replies) \<and>
     engine_run (new_engine c sink') (filter (\<lambda>(stale, r). concerns i r) hs) =
       Some (e', replies_to i hs replies) \<and>
     find_instrument e' i = find_instrument e i \<and> en_order_books e' i = en_order_books e i \<and>
     (\<forall>a. state_for (en_account_risk e') a i = state_for (en_account_risk e) a i) \<and>
     (\<forall>k. ar_reservations (en_account_risk e') (i, k) = ar_reservations (en_account_risk e) (i, k))"
proof -
  have "same_instrument i (new_engine c sink) (new_engine c sink')"
    by (simp add: same_instrument_def new_engine_def find_instrument_def)
  from run_projection [OF engine_inv_new engine_inv_new this, of hs] show ?thesis
    by (fastforce simp: same_instrument_def same_accounts_def)
qed

end
