(* ===== verification/Signed_Arithmetic.thy ===== *)
theory Signed_Arithmetic
  imports Matching_Engine_Batches Matching_Engine_Decisions
begin

text \<open>
  Signed overflow is undefined in the source, and the model lets it wrap. This theory shows that
  the difference does not matter under a safe configuration: every signed value the account risk
  manager computes in a reachable engine, in its checks and while it settles trades, fits in 64
  bits, so the words of the model hold the integers that the source computes.
\<close>

section \<open>The signed values\<close>

definition fits_i64 :: "int \<Rightarrow> bool" where
  "fits_i64 n \<longleftrightarrow> - (2 ^ 63) \<le> n \<and> n < 2 ^ 63"

text \<open>
  The values of the signed expressions of \<open>AccountRiskManager::evaluate\<close>, over the integers: the
  three casts, the two sums with their first summands, and the negated limit.
\<close>

definition evaluate_values :: "engine_config \<Rightarrow> account_state \<Rightarrow> place_order \<Rightarrow> int list" where
  "evaluate_values c st req =
     (let position = sint (as_position st);
          quantity = uint (pl_quantity req);
          buy = position + uint (as_buy_reserved_quantity st);
          sell = position - uint (as_sell_reserved_quantity st)
      in [quantity, uint (as_buy_reserved_quantity st), uint (as_sell_reserved_quantity st),
          buy, buy + (if pl_side req = Buy then quantity else 0),
          sell, sell - (if pl_side req = Sell then quantity else 0),
          - sint (position_limit c)])"

text \<open>
  What \<open>update_position\<close> adds to the position of an account while the trades of a batch are applied,
  in this order: each trade is booked for the incoming account, then for the resting one.
\<close>

definition trade_updates :: "side \<Rightarrow> account_id \<Rightarrow> trade_executed \<Rightarrow> int list" where
  "trade_updates s a t =
     (let x = signed_by s (uint (te_execution_quantity t))
      in (if t_incoming_account_id (te_trade t) = a then [x] else []) @
         (if t_resting_account_id (te_trade t) = a then [- x] else []))"

definition position_updates :: "place_order \<Rightarrow> event_batch \<Rightarrow> account_id \<Rightarrow> instrument_id \<Rightarrow> int list" where
  "position_updates req events a i =
     (if i = pl_instrument_id req
      then concat (map (trade_updates (pl_side req) a) (trades_of events)) else [])"

section \<open>Running sums\<close>

lemma abs_signed_by: "\<bar>signed_by s (n :: int)\<bar> = \<bar>n\<bar>"
  by (simp add: signed_by_def)

lemma trade_updates_prefix:
  "\<bar>sum_list (take n (trade_updates s a t))\<bar> \<le> uint (te_execution_quantity t)"
  by (cases n; cases "n - 1") (simp_all add: trade_updates_def Let_def abs_signed_by)

lemma updates_prefix:
  "\<bar>sum_list (take n (concat (map (trade_updates s a) ts)))\<bar> \<le> (\<Sum>t\<leftarrow>ts. uint (te_execution_quantity t))"
proof (induction ts arbitrary: n)
  case (Cons t ts)
  show ?case
    using Cons.IH [of "n - length (trade_updates s a t)"] trade_updates_prefix [of n s a t] by simp
qed simp

lemma updates_moved:
  "(word_of_int (sum_list (concat (map (trade_updates s a) ts))) :: i64) = moved_by s a ts"
  by (induction ts)
    (simp_all add: moved_by_def trade_move_def trade_updates_def Let_def signed_by_opposite,
     auto simp: signed_by_def)

lemma place_quantity_bound:
  assumes "place_batch_typed req events"
  shows "(\<Sum>t\<leftarrow>trades_of events. uint (te_execution_quantity t)) \<le> uint (pl_quantity req)"
proof -
  have "(\<Sum>t\<leftarrow>trades_of events. unat (te_execution_quantity t)) \<le> unat (pl_quantity req)"
    using assms by (cases "(req, events)" rule: place_batch_typed.cases) auto
  then have le: "int (\<Sum>t\<leftarrow>trades_of events. unat (te_execution_quantity t)) \<le> int (unat (pl_quantity req))"
    by (simp only: of_nat_le_iff)
  have eq: "(\<Sum>t\<leftarrow>ts. uint (te_execution_quantity t)) = int (\<Sum>t\<leftarrow>ts. unat (te_execution_quantity t))" for ts
    by (induction ts) simp_all
  show ?thesis unfolding eq using le by simp
qed

section \<open>Bounds\<close>

text \<open>The reserved quantity of either side is part of the open quantity.\<close>

lemma reserved_is_open:
  assumes "ledger_ok ar" and "within_limits ar"
  shows "uint (as_buy_reserved_quantity (state_for ar a i)) \<le> uint (maximum_open_order_quantity (ar_configuration ar))"
    and "uint (as_sell_reserved_quantity (state_for ar a i)) \<le> uint (maximum_open_order_quantity (ar_configuration ar))"
proof -
  note sums = ledger_tracked [OF assms(1), THEN tracked_value, of a i]
  have "map_sum (weight (open_on s) a i) (ar_reservations ar) \<le> map_sum (weight open_of a i) (ar_reservations ar)" for s
    by (rule map_sum_mono) (simp add: weight_def open_on_def)
  then have "as_buy_reserved_quantity (state_for ar a i) \<le> as_open_order_quantity (state_for ar a i)"
      "as_sell_reserved_quantity (state_for ar a i) \<le> as_open_order_quantity (state_for ar a i)"
    using sums(1-3) by (simp_all add: word_le_nat_alt)
  moreover have "as_open_order_quantity (state_for ar a i) \<le> maximum_open_order_quantity (ar_configuration ar)"
    using assms(2) by (simp add: within_limits_def)
  ultimately show "uint (as_buy_reserved_quantity (state_for ar a i)) \<le> uint (maximum_open_order_quantity (ar_configuration ar))"
      "uint (as_sell_reserved_quantity (state_for ar a i)) \<le> uint (maximum_open_order_quantity (ar_configuration ar))"
    by (auto simp: word_le_def)
qed

lemma config_safe_int:
  assumes "config_safe c"
  shows "sint (position_limit c) + uint (maximum_open_order_quantity c) < 2 ^ 63"
proof -
  have "int (unat (position_limit c) + unat (maximum_open_order_quantity c)) < int (2 ^ 63)"
    using assms unfolding config_safe_def by (simp only: of_nat_less_iff)
  then show ?thesis by (simp add: position_limit_range(2))
qed

text \<open>Positions stay within the limit, since the reserved quantities are not negative.\<close>

lemma exposed_position:
  assumes "exposure_ok ar"
  shows "\<bar>sint (as_position (state_for ar a i))\<bar> \<le> sint (position_limit (ar_configuration ar))"
  using exposureD(1,2) [OF assms, of a i] uint_ge_0 [of "as_buy_reserved_quantity (state_for ar a i)"]
    uint_ge_0 [of "as_sell_reserved_quantity (state_for ar a i)"]
  by linarith

lemma evaluate_values_fit:
  assumes ok: "ledger_ok ar" "within_limits ar" "exposure_ok ar" and safe: "config_safe (ar_configuration ar)"
    and q: "pl_quantity req \<le> maximum_open_order_quantity (ar_configuration ar)"
  shows "list_all fits_i64 (evaluate_values (ar_configuration ar) (state_for ar a i) req)"
  using reserved_is_open [OF ok(1,2), of a i] exposureD(1,2) [OF ok(3), of a i] config_safe_int [OF safe]
    exposed_position [OF ok(3), of a i] position_limit_range(1) [of "ar_configuration ar"]
    uint_ge_0 [of "as_buy_reserved_quantity (state_for ar a i)"]
    uint_ge_0 [of "as_sell_reserved_quantity (state_for ar a i)"] uint_ge_0 [of "pl_quantity req"]
    q [unfolded word_le_def]
  unfolding evaluate_values_def fits_i64_def Let_def list.pred_inject
  by (cases "pl_side req"; simp only: list.pred_inject side.distinct simp_thms if_True if_False; intro conjI; linarith)

text \<open>Only an order within the open order limit trades.\<close>

lemma traded_quantity_limit:
  assumes inv: "engine_inv e" and place: "engine_place_order e req = Inr (e', events, calls)"
    and traded: "trades_of events \<noteq> []"
  shows "pl_quantity req \<le> maximum_open_order_quantity (en_configuration e)"
proof (cases "admission e req")
  case (Some reason)
  show ?thesis by (rule place_refused_shape [OF Some]) (use place traded in simp)
next
  case None
  obtain bk where bk: "en_order_books e (pl_instrument_id req) = Some bk"
      "engine_place_order e req = place_accepted e req (contains_order bk (pl_order_id req))"
      "\<not> contains_order bk (pl_order_id req) \<longrightarrow> account_evaluate (en_account_risk e) req = Account_None"
    by (rule engine_place_admitted [OF inv None])
  have "events = snd (book_place_order bk (book_order req))"
    using place bk(1,2) by (auto simp: place_accepted_def Let_def split: prod.splits)
  then have "\<not> contains_order bk (pl_order_id req)"
    using traded
    by (auto simp: book_place_order_def contains_order_def book_reject_def book_order_fields split: if_splits)
  then show ?thesis
    using bk(3) account_evaluate_admits(1) [of "en_account_risk e" req] engine_invD(7) [OF inv] by simp
qed

lemma position_updates_fit:
  assumes inv: "engine_inv e" and safe: "config_safe (en_configuration e)"
    and place: "engine_place_order e req = Inr (e', events, calls)"
  shows "fits_i64 (sint (as_position (state_for (en_account_risk e) a i)) +
      sum_list (take n (position_updates req events a i)))"
    and "list_all (\<lambda>t. fits_i64 (uint (te_execution_quantity t))) (trades_of events)"
proof -
  let ?c = "en_configuration e" and ?total = "\<Sum>t\<leftarrow>trades_of events. uint (te_execution_quantity t)"
  have total: "?total \<le> uint (maximum_open_order_quantity ?c)"
  proof (cases "trades_of events")
    case (Cons t ts)
    then have "pl_quantity req \<le> maximum_open_order_quantity ?c"
      using traded_quantity_limit [OF inv place] by simp
    then show ?thesis using place_quantity_bound [OF placed_batch_typed [OF inv place]] by (simp add: word_le_def)
  qed (simp add: uint_ge_0)
  have pos: "\<bar>sint (as_position (state_for (en_account_risk e) a i))\<bar> \<le> sint (position_limit ?c)"
    using exposed_position [OF engine_exposure [OF inv safe], of a i] engine_invD(7) [OF inv] by simp
  have "\<bar>sum_list (take n (position_updates req events a i))\<bar> \<le> ?total"
    using updates_prefix [of n "pl_side req" a "trades_of events"] sum_list_nonneg [of "map (\<lambda>t. uint (te_execution_quantity t)) (trades_of events)"]
    by (auto simp: position_updates_def)
  then show "fits_i64 (sint (as_position (state_for (en_account_risk e) a i)) +
      sum_list (take n (position_updates req events a i)))"
    using total pos config_safe_int [OF safe] unfolding fits_i64_def by linarith
  have "fits_i64 (uint (te_execution_quantity t))" if "t \<in> set (trades_of events)" for t
  proof -
    have "uint (te_execution_quantity t) \<le> ?total"
      using that by (intro member_le_sum_list) (auto simp: uint_ge_0)
    then show ?thesis
      using total config_safe_int [OF safe] position_limit_range(1) [of ?c] uint_ge_0 [of "te_execution_quantity t"]
      unfolding fits_i64_def by linarith
  qed
  then show "list_all (\<lambda>t. fits_i64 (uint (te_execution_quantity t))) (trades_of events)"
    by (simp add: list_all_iff)
qed

section \<open>The positions while a batch is applied\<close>

lemma backed_take: "backed V s oid ts \<Longrightarrow> backed V s oid (take n ts)"
proof (induction ts arbitrary: V n)
  case (Cons t ts)
  then show ?case by (cases n) (simp_all add: Let_def)
qed simp

text \<open>The account risk manager when \<open>apply\<close> starts, and after the first \<open>n\<close> events.\<close>

definition settling :: "engine \<Rightarrow> place_order \<Rightarrow> event_batch \<Rightarrow> nat \<Rightarrow> account_risk" where
  "settling e req events n =
     (let created = (\<not> engine_contains_order e (pl_instrument_id req) (pl_order_id req))
      in foldl (apply_event req created)
           (if created then reserve (en_account_risk e) req else en_account_risk e) (take n events))"

lemma settling_rejected:
  "as_position (state_for (settling e req [Order_Rejected rj] n) a i) = as_position (state_for (en_account_risk e) a i)"
  by (cases n) (simp_all add: settling_def Let_def release_position reserve_position)

lemma settling_trades:
  assumes inv: "engine_inv e" and bk: "en_order_books e (pl_instrument_id req) = Some bk"
    and fresh: "book_interest bk (pl_order_id req) = None"
    and ev: "account_evaluate (en_account_risk e) req = Account_None" and pos: "0 < pl_quantity req"
    and ts: "trades_for (book_order req) ts"
      "backed ((book_interest bk)(pl_order_id req \<mapsto> (pl_side req, pl_account_id req, unat (pl_quantity req))))
         (pl_side req) (pl_order_id req) ts"
  shows "as_position (state_for (settling e req (Order_Accepted ac # map Trade_Executed ts) n) a i) =
    as_position (state_for (en_account_risk e) a i) +
    (if i = pl_instrument_id req then moved_by (pl_side req) a (take (n - 1) ts) else 0)"
proof -
  let ?i = "pl_instrument_id req" and ?oid = "pl_order_id req"
  let ?ar = "en_account_risk e" and ?ar1 = "reserve (en_account_risk e) req"
  note d = engine_invD [OF inv]
  have b: "book_inv bk" and R: "interest_of ?ar ?i = book_interest bk"
    using books_agree_at [OF d(2)] bk by blast+
  have created: "\<not> engine_contains_order e ?i ?oid"
    using fresh interest_contains [OF b] by (simp add: engine_contains_iff [OF bk])
  have "ar_reservations ?ar (?i, ?oid) = None" using fresh by (simp add: R [symmetric] interest_of_None)
  then have ok: "ledger_ok ?ar1" "within_limits ?ar1"
    using settles_reserve [OF d(5,6) ev _ pos] by (simp_all add: settles_def)
  have V: "interest_of ?ar1 ?i =
      (book_interest bk)(?oid \<mapsto> (pl_side req, pl_account_id req, unat (pl_quantity req)))"
    by (simp add: interest_of_reserve R)
  have trades: "\<forall>t \<in> set (take m ts). te_instrument_id t = ?i \<and> t_incoming_account_id (te_trade t) = pl_account_id req" for m
    using ts(1) by (auto simp: trades_for_def book_order_fields dest: in_set_takeD)
  have "as_position (state_for (foldl (apply_event req True) ?ar1 (map Trade_Executed (take m ts))) a i) =
      as_position (state_for ?ar1 a i) + (if i = ?i then moved_by (pl_side req) a (take m ts) else 0)" for m
    using apply_trades [OF ok _ _ refl refl refl trades, unfolded V, OF backed_take [OF ts(2)]] by simp
  then show ?thesis
    using created by (cases n) (simp_all add: settling_def take_map reserve_position moved_by_def)
qed

lemma settling_positions:
  assumes inv: "engine_inv e" and place: "engine_place_order e req = Inr (e', events, calls)"
  shows "as_position (state_for (settling e req events n) a i) =
    as_position (state_for (en_account_risk e) a i) +
    (if i = pl_instrument_id req then moved_by (pl_side req) a (trades_of (take n events)) else 0)"
proof -
  have rejected: ?thesis if "events = [Order_Rejected rj]" for rj
    using that settling_rejected [of e req rj n a i] by (cases n) (simp_all add: moved_by_def)
  show ?thesis
  proof (cases "admission e req")
    case (Some reason)
    show ?thesis by (rule place_refused_shape [OF Some]) (use place rejected in simp)
  next
    case None
    obtain bk where bk: "en_order_books e (pl_instrument_id req) = Some bk" "structurally_valid req"
        "engine_place_order e req = place_accepted e req (contains_order bk (pl_order_id req))"
        "\<not> contains_order bk (pl_order_id req) \<longrightarrow> account_evaluate (en_account_risk e) req = Account_None"
      by (rule engine_place_admitted [OF inv None])
    have b: "book_inv bk" using books_agree_at(1) [OF engine_invD(2) [OF inv] bk(1)] .
    have q: "0 < pl_quantity req" "o_quantity (book_order req) > Quantity 0"
      using bk(2) by (simp_all add: structurally_valid_def request_order_def less_quantity_def word_neq_0_conv)
    have evs: "events = snd (book_place_order bk (book_order req))"
      using place bk(1,3) by (auto simp: place_accepted_def Let_def split: prod.splits)
    show ?thesis
    proof (cases "book_interest bk (o_order_id (book_order req)) = None")
      case False
      then show ?thesis using order_book.place_duplicate [OF b False] rejected evs by auto
    next
      case True
      from order_book.place_contract [OF b q(2) True] consider
          (refused) rj where "events = [Order_Rejected rj]"
        | (executed) ac ts where "events = Order_Accepted ac # map Trade_Executed ts" "trades_for (book_order req) ts"
            "backed ((book_interest bk)(pl_order_id req \<mapsto> (pl_side req, pl_account_id req, unat (pl_quantity req))))
               (pl_side req) (pl_order_id req) ts"
        by (auto simp: evs Let_def request_order_def qnat_def)
      then show ?thesis
      proof cases
        case refused
        then show ?thesis by (rule rejected)
      next
        case executed
        have "\<not> contains_order bk (pl_order_id req)"
          using True interest_contains [OF b] by (simp add: book_order_fields)
        then have "account_evaluate (en_account_risk e) req = Account_None" using bk(4) by blast
        moreover have "book_interest bk (pl_order_id req) = None" using True by (simp add: book_order_fields)
        ultimately show ?thesis
          using settling_trades [OF inv bk(1) _ _ q(1) executed(2,3), of ac n a i]
          by (cases n) (simp_all add: executed(1) take_map moved_by_def)
      qed
    qed
  qed
qed

text \<open>Every prefix of the batch books a prefix of the updates.\<close>

lemma updates_of_prefix:
  "\<exists>m. position_updates req (take n events) a i = take m (position_updates req events a i)"
proof -
  have trades: "trades_of events = trades_of (take n events) @ trades_of (drop n events)"
    using trades_of_append [of "take n events" "drop n events"] by simp
  show ?thesis
    by (rule exI [of _ "length (position_updates req (take n events) a i)"])
      (subst (3) position_updates_def, simp add: position_updates_def trades)
qed

lemma settling_exact:
  assumes inv: "engine_inv e" and safe: "config_safe (en_configuration e)"
    and place: "engine_place_order e req = Inr (e', events, calls)"
  shows "sint (as_position (state_for (settling e req events n) a i)) =
    sint (as_position (state_for (en_account_risk e) a i)) + sum_list (position_updates req (take n events) a i)"
proof -
  let ?sum = "sint (as_position (state_for (en_account_risk e) a i)) + sum_list (position_updates req (take n events) a i)"
  have "as_position (state_for (settling e req events n) a i) = word_of_int ?sum"
    using settling_positions [OF inv place, of n a i] updates_moved [of "pl_side req" a "trades_of (take n events)"]
    by (auto simp: position_updates_def)
  moreover obtain m where "position_updates req (take n events) a i = take m (position_updates req events a i)"
    using updates_of_prefix by blast
  then have "sint (word_of_int ?sum :: i64) = ?sum"
    using position_updates_fit(1) [OF inv safe place, of a i m] by (intro sint_of_int_small) (simp_all add: fits_i64_def)
  ultimately show ?thesis by (simp only:)
qed

section \<open>No overflow\<close>

text \<open>
  C39: no signed overflow. With a safe configuration, in every reachable engine, every signed value
  that \<open>evaluate\<close> computes for an order within the open order limit, the only ones that get so far,
  fits in 64 bits: the casts of the quantities, the partial and full sums of both projected
  positions, and the negated limit; so both projections are exact. While the batch of a placed
  order is applied, every quantity that \<open>update_position\<close> casts fits, and so does every running sum
  of what it adds to the position of an account; after each event the position that the account
  risk manager holds is that integer sum, and so is the position in the end. The default configuration is not
  safe: with it the first sum can leave the range.
\<close>

theorem no_signed_overflow:
  fixes e e' :: engine and req :: place_order and a :: account_id and i :: instrument_id
  assumes "engine_reachable c e" and "config_safe c"
  defines "st \<equiv> state_for (en_account_risk e) (pl_account_id req) (pl_instrument_id req)"
    and "pos \<equiv> \<lambda>e. sint (engine_account_position e a i)"
  shows "(pl_quantity req \<le> maximum_open_order_quantity c \<longrightarrow>
      list_all fits_i64 (evaluate_values c st req) \<and>
      sint (projected_buy_position st req) = evaluate_values c st req ! 4 \<and>
      sint (projected_sell_position st req) = evaluate_values c st req ! 6 \<and>
      sint (- position_limit c) = evaluate_values c st req ! 7) \<and>
    (engine_place_order e req = Inr (e', events, calls) \<longrightarrow>
      list_all (\<lambda>t. fits_i64 (uint (te_execution_quantity t))) (trades_of events) \<and>
      (\<forall>n. fits_i64 (pos e + sum_list (take n (position_updates req events a i)))) \<and>
      (\<forall>n. sint (as_position (state_for (settling e req events n) a i)) =
         pos e + sum_list (position_updates req (take n events) a i)) \<and>
      pos e' = pos e + sum_list (position_updates req events a i))"
proof (intro conjI impI)
  note inv = engine_reachable_inv [OF assms(1)]
  note ok = engine_invD [OF conjunct1 [OF inv]]
  have safe: "config_safe (en_configuration e)" and conf: "ar_configuration (en_account_risk e) = c"
    using assms(2) inv ok(7) by simp_all
  note exposed = engine_exposure [OF conjunct1 [OF inv] safe]
  {
    assume q: "pl_quantity req \<le> maximum_open_order_quantity c"
    note exact = projected_exact [OF ok(5,6) exposed, unfolded conf, OF assms(2) q, folded st_def]
    show "list_all fits_i64 (evaluate_values c st req)"
      unfolding st_def using evaluate_values_fit [OF ok(5,6) exposed, unfolded conf, OF assms(2) q] .
    show "sint (projected_buy_position st req) = evaluate_values c st req ! 4"
        "sint (projected_sell_position st req) = evaluate_values c st req ! 6"
        "sint (- position_limit c) = evaluate_values c st req ! 7"
      using exact by (simp_all add: evaluate_values_def Let_def)
  }
  assume place: "engine_place_order e req = Inr (e', events, calls)"
  note fit = position_updates_fit [OF conjunct1 [OF inv] safe place]
  show "list_all (\<lambda>t. fits_i64 (uint (te_execution_quantity t))) (trades_of events)" by (rule fit(2))
  show "\<forall>n. fits_i64 (pos e + sum_list (take n (position_updates req events a i)))"
    using fit(1) by (simp add: pos_def engine_account_position_def account_position_def)
  show "\<forall>n. sint (as_position (state_for (settling e req events n) a i)) =
      pos e + sum_list (position_updates req (take n events) a i)"
    using settling_exact [OF conjunct1 [OF inv] safe place]
    by (simp add: pos_def engine_account_position_def account_position_def)
  show "pos e' = pos e + sum_list (position_updates req events a i)"
    using conjunct1 [OF inv] place
  proof (cases rule: engine_place_effect)
    case (1 rj)
    then show ?thesis by (simp add: position_updates_def)
  next
    case (2 bk)
    let ?n = "length (position_updates req events a i)"
    let ?sum = "pos e + sum_list (position_updates req events a i)"
    have "engine_account_position e' a i = word_of_int ?sum"
      using 2(8) [of a i] updates_moved [of "pl_side req" a "trades_of events"]
      by (auto simp: engine_account_position_def account_position_def pos_def position_updates_def)
    moreover have "sint (word_of_int ?sum :: i64) = ?sum"
      using fit(1) [of a i ?n]
      by (intro sint_of_int_small)
        (simp_all add: pos_def engine_account_position_def account_position_def fits_i64_def)
    ultimately show ?thesis unfolding pos_def by (simp only:)
  qed
qed

theorem no_signed_overflow_witness:
  "\<exists>e' events calls. engine_place_order demo_engine (demo_request 6 Buy 100 2 Limit 9) = Inr (e', events, calls) \<and>
     sint (engine_account_position e' 9 1) =
       3 + sum_list (position_updates (demo_request 6 Buy 100 2 Limit 9) events 9 1) \<and>
     sint (projected_buy_position (state_for (en_account_risk demo_engine) 9 1)
       (demo_request 6 Buy 100 2 Limit 9)) = 5"
proof -
  let ?req = "demo_request 6 Buy 100 2 Limit 9"
  obtain e' events calls where place: "engine_place_order demo_engine ?req = Inr (e', events, calls)"
    using engine_place_returns [OF demo_engine_facts(1)] by blast
  have "pl_quantity ?req \<le> maximum_open_order_quantity demo_limits"
    by (simp add: demo_request_def demo_limits_def)
  moreover have "state_for (en_account_risk demo_engine) 9 1 = zero_state\<lparr>as_position := 3\<rparr>"
    using demo_engine_eval by blast
  moreover have "pl_account_id ?req = 9" "pl_instrument_id ?req = 1" "pl_side ?req = Buy" "pl_quantity ?req = 2"
    by (simp_all add: demo_request_def)
  ultimately show ?thesis
    using no_signed_overflow [OF demo_engine_reachable demo_limits_safe,
        where req = ?req and a = 9 and i = 1 and e' = e' and events = events and calls = calls] place
    by (simp add: evaluate_values_def zero_state_def engine_account_position_def account_position_def)
qed

end
