(* ===== verification/Event_Delivery.thy ===== *)
theory Event_Delivery
  imports Matching_Engine
begin

text \<open>
  How the engine's event sinks are driven (\<open>api/event_sink.hpp\<close>, \<open>MatchingEngine::publish\<close>). A
  consumer implements \<open>on_event\<close> and \<open>on_events\<close>; the locale \<open>event_consumer\<close> states that a
  batch leaves it, as far as its \<open>observe\<close>d part goes, as the single events in order would.
  Whatever kind of sink the engine believes it has, such a consumer then observes the same.
\<close>

fun deliver :: "('s \<Rightarrow> engine_event \<Rightarrow> 's) \<Rightarrow> ('s \<Rightarrow> event_batch \<Rightarrow> 's) \<Rightarrow> 's \<Rightarrow> sink_call \<Rightarrow> 's" where
  "deliver on_event on_events s (On_Event e) = on_event s e"
| "deliver on_event on_events s (On_Events es) = on_events s es"

locale event_consumer =
  fixes on_event :: "'s \<Rightarrow> engine_event \<Rightarrow> 's"
    and on_events :: "'s \<Rightarrow> event_batch \<Rightarrow> 's"
    and observe :: "'s \<Rightarrow> 'o"
  assumes batch: "observe (on_events s es) = observe (foldl on_event s es)"
    and step_cong: "observe s = observe s' \<Longrightarrow> observe (on_event s e) = observe (on_event s' e)"
begin

lemma foldl_cong: "observe s = observe s' \<Longrightarrow> observe (foldl on_event s es) = observe (foldl on_event s' es)"
proof (induction es arbitrary: s s')
  case (Cons e es)
  show ?case using Cons.IH [OF step_cong [OF Cons.prems, of e]] by simp
qed simp

lemma foldl_deliver_single: "foldl (deliver on_event on_events) s (map On_Event es) = foldl on_event s es"
  by (induction es arbitrary: s) simp_all

lemma deliver_publish:
  "sink \<noteq> No_Sink \<Longrightarrow>
   observe (foldl (deliver on_event on_events) s (publish sink es)) = observe (foldl on_event s es)"
  by (cases sink) (simp_all add: publish_def batch foldl_deliver_single)

lemma deliver_batches:
  assumes "sink \<noteq> No_Sink"
  shows "observe (foldl (deliver on_event on_events) s (concat (map (publish sink) batches))) =
    observe (foldl on_event s (concat batches))"
proof (induction batches arbitrary: s)
  case (Cons es batches)
  have "observe (foldl (deliver on_event on_events) s (concat (map (publish sink) (es # batches)))) =
      observe (foldl on_event (foldl (deliver on_event on_events) s (publish sink es)) (concat batches))"
    using Cons.IH by simp
  also have "\<dots> = observe (foldl on_event (foldl on_event s es) (concat batches))"
    by (rule foldl_cong [OF deliver_publish [OF assms]])
  finally show ?case by simp
qed simp

end

end
