(* ===== verification/Metrics.thy ===== *)
theory Metrics
  imports Event_Delivery
begin

text \<open>
  The metrics collector (\<open>metrics/metrics_collector.hpp\<close>, \<open>.cpp\<close>): counters of the events it is
  given and of the command latencies. Its mutex makes every call atomic, so a history of calls
  from several threads is one sequence of the operations below. A duration is the signed count
  of nanoseconds, cast to \<open>u64\<close>.
\<close>

section \<open>State and operations\<close>

record metrics =
  mt_events_seen :: u64
  mt_accepted_orders :: u64
  mt_rejected_orders :: u64
  mt_trades_executed :: u64
  mt_canceled_orders :: u64
  mt_latency_samples :: u64
  mt_latency_ns_total :: u64
  mt_latency_ns_max :: u64

definition metrics_reset :: "metrics \<Rightarrow> metrics" where
  "metrics_reset m =
     \<lparr>mt_events_seen = 0, mt_accepted_orders = 0, mt_rejected_orders = 0, mt_trades_executed = 0,
      mt_canceled_orders = 0, mt_latency_samples = 0, mt_latency_ns_total = 0, mt_latency_ns_max = 0\<rparr>"

definition new_metrics :: metrics where
  "new_metrics =
     \<lparr>mt_events_seen = 0, mt_accepted_orders = 0, mt_rejected_orders = 0, mt_trades_executed = 0,
      mt_canceled_orders = 0, mt_latency_samples = 0, mt_latency_ns_total = 0, mt_latency_ns_max = 0\<rparr>"

fun count_event :: "metrics \<Rightarrow> engine_event \<Rightarrow> metrics" where
  "count_event m (Order_Accepted a) = m\<lparr>mt_accepted_orders := mt_accepted_orders m + 1\<rparr>"
| "count_event m (Trade_Executed t) = m\<lparr>mt_trades_executed := mt_trades_executed m + 1\<rparr>"
| "count_event m (Order_Canceled c) = m\<lparr>mt_canceled_orders := mt_canceled_orders m + 1\<rparr>"
| "count_event m (Order_Rejected r) = m\<lparr>mt_rejected_orders := mt_rejected_orders m + 1\<rparr>"

definition metrics_on_events :: "metrics \<Rightarrow> event_batch \<Rightarrow> metrics" where
  "metrics_on_events m events =
     foldl count_event (m\<lparr>mt_events_seen := mt_events_seen m + of_nat (length events)\<rparr>) events"

definition metrics_on_event :: "metrics \<Rightarrow> engine_event \<Rightarrow> metrics" where
  "metrics_on_event m event = metrics_on_events m [event]"

definition record_latency :: "metrics \<Rightarrow> i64 \<Rightarrow> metrics" where
  "record_latency m nanoseconds =
     (let m1 = m\<lparr>mt_latency_samples := mt_latency_samples m + 1,
                 mt_latency_ns_total := mt_latency_ns_total m + nanoseconds\<rparr>
      in if nanoseconds > mt_latency_ns_max m1 then m1\<lparr>mt_latency_ns_max := nanoseconds\<rparr> else m1)"

definition metrics_snapshot :: "metrics \<Rightarrow> metrics" where
  "metrics_snapshot m =
     \<lparr>mt_events_seen = mt_events_seen m, mt_accepted_orders = mt_accepted_orders m,
      mt_rejected_orders = mt_rejected_orders m, mt_trades_executed = mt_trades_executed m,
      mt_canceled_orders = mt_canceled_orders m, mt_latency_samples = mt_latency_samples m,
      mt_latency_ns_total = mt_latency_ns_total m, mt_latency_ns_max = mt_latency_ns_max m\<rparr>"

section \<open>Counting\<close>

fun is_accepted :: "engine_event \<Rightarrow> bool" where
  "is_accepted (Order_Accepted a) = True"
| "is_accepted _ = False"

fun is_trade :: "engine_event \<Rightarrow> bool" where
  "is_trade (Trade_Executed t) = True"
| "is_trade _ = False"

fun is_canceled :: "engine_event \<Rightarrow> bool" where
  "is_canceled (Order_Canceled c) = True"
| "is_canceled _ = False"

fun is_rejected :: "engine_event \<Rightarrow> bool" where
  "is_rejected (Order_Rejected r) = True"
| "is_rejected _ = False"

definition how_many :: "('e \<Rightarrow> bool) \<Rightarrow> 'e list \<Rightarrow> u64" where
  "how_many p es = of_nat (length (filter p es))"

lemma how_many_simps [simp]:
  "how_many p [] = 0"
  "how_many p (e # es) = (if p e then 1 else 0) + how_many p es"
  "how_many p (es @ fs) = how_many p es + how_many p fs"
  by (simp_all add: how_many_def)

text \<open>Counting a list of events, as one update of the five counters.\<close>

definition counted :: "metrics \<Rightarrow> event_batch \<Rightarrow> metrics" where
  "counted m es = m\<lparr>mt_events_seen := mt_events_seen m + of_nat (length es),
     mt_accepted_orders := mt_accepted_orders m + how_many is_accepted es,
     mt_rejected_orders := mt_rejected_orders m + how_many is_rejected es,
     mt_trades_executed := mt_trades_executed m + how_many is_trade es,
     mt_canceled_orders := mt_canceled_orders m + how_many is_canceled es\<rparr>"

lemma foldl_count_event:
  "foldl count_event m es = m\<lparr>
     mt_accepted_orders := mt_accepted_orders m + how_many is_accepted es,
     mt_rejected_orders := mt_rejected_orders m + how_many is_rejected es,
     mt_trades_executed := mt_trades_executed m + how_many is_trade es,
     mt_canceled_orders := mt_canceled_orders m + how_many is_canceled es\<rparr>"
proof (induction es arbitrary: m)
  case (Cons e es)
  then show ?case by (cases e) simp_all
qed simp

lemma metrics_on_events_counted: "metrics_on_events m es = counted m es"
  by (simp add: metrics_on_events_def foldl_count_event counted_def)

lemma counted_append: "counted (counted m es) fs = counted m (es @ fs)"
  by (simp add: counted_def)

lemma counted_Nil [simp]: "counted m [] = m"
  by (simp add: counted_def)

lemma foldl_metrics_on_event: "foldl metrics_on_event m es = counted m es"
  by (induction es rule: rev_induct)
    (simp_all add: metrics_on_event_def metrics_on_events_counted counted_append)

interpretation metrics_sink: event_consumer metrics_on_event metrics_on_events "\<lambda>m. m"
  by unfold_locales (simp_all add: foldl_metrics_on_event metrics_on_events_counted)

text \<open>
  C34: the collector counts what the engine returned. Whatever batches an engine publishes, and
  whether the collector is called once per batch or once per event, every counter has grown by
  the number of events of its kind in all batches (modulo \<open>2 ^ 64\<close>), the total is the sum of the
  four kinds, and the latency figures are untouched.
\<close>

theorem metrics_count_published_events:
  fixes m :: metrics and batches :: "event_batch list"
  assumes "sink \<noteq> No_Sink"
  defines "m' \<equiv> foldl (deliver metrics_on_event metrics_on_events) m (concat (map (publish sink) batches))"
    and "es \<equiv> concat batches"
  shows "mt_events_seen m' = mt_events_seen m + of_nat (length es) \<and>
    mt_accepted_orders m' = mt_accepted_orders m + how_many is_accepted es \<and>
    mt_rejected_orders m' = mt_rejected_orders m + how_many is_rejected es \<and>
    mt_trades_executed m' = mt_trades_executed m + how_many is_trade es \<and>
    mt_canceled_orders m' = mt_canceled_orders m + how_many is_canceled es \<and>
    mt_events_seen m' - mt_events_seen m =
      (mt_accepted_orders m' + mt_rejected_orders m' + mt_trades_executed m' + mt_canceled_orders m') -
      (mt_accepted_orders m + mt_rejected_orders m + mt_trades_executed m + mt_canceled_orders m) \<and>
    (mt_latency_samples m', mt_latency_ns_total m', mt_latency_ns_max m') =
      (mt_latency_samples m, mt_latency_ns_total m, mt_latency_ns_max m)"
proof -
  have "m' = counted m es"
    using metrics_sink.deliver_batches [OF assms(1), of m batches]
    by (simp add: m'_def es_def foldl_metrics_on_event)
  moreover have "of_nat (length es) =
      how_many is_accepted es + how_many is_rejected es + how_many is_trade es + how_many is_canceled es"
  proof (induction es)
    case (Cons e es)
    then show ?case by (cases e) (simp_all add: algebra_simps)
  qed simp
  ultimately show ?thesis by (simp add: counted_def algebra_simps)
qed

theorem metrics_count_published_events_witness:
  "\<forall>ac rj. let m = foldl (deliver metrics_on_event metrics_on_events) new_metrics
       (concat (map (publish Event_Sink) [[Order_Accepted ac], [Order_Rejected rj]]))
     in mt_events_seen m = 2 \<and> mt_accepted_orders m = 1 \<and> mt_trades_executed m = 0"
proof (intro allI)
  fix ac rj
  show "let m = foldl (deliver metrics_on_event metrics_on_events) new_metrics
       (concat (map (publish Event_Sink) [[Order_Accepted ac], [Order_Rejected rj]]))
     in mt_events_seen m = 2 \<and> mt_accepted_orders m = 1 \<and> mt_trades_executed m = 0"
    using metrics_count_published_events [of Event_Sink new_metrics "[[Order_Accepted ac], [Order_Rejected rj]]"]
    by (simp add: new_metrics_def Let_def)
qed

text \<open>
  After \<open>reset\<close> and any number of recorded durations, the samples and the total are those of the
  durations (modulo \<open>2 ^ 64\<close>), and the maximum is the largest of them read as unsigned numbers.
\<close>

lemma latency_summarises_samples:
  "let m' = foldl record_latency (metrics_reset m) ds in
   mt_latency_samples m' = of_nat (length ds) \<and> mt_latency_ns_total m' = sum_list ds \<and>
   mt_latency_ns_max m' = fold max ds 0 \<and> metrics_snapshot m' = m'"
proof -
  have "mt_latency_samples (foldl record_latency m ds) = mt_latency_samples m + of_nat (length ds) \<and>
      mt_latency_ns_total (foldl record_latency m ds) = mt_latency_ns_total m + sum_list ds \<and>
      mt_latency_ns_max (foldl record_latency m ds) = fold max ds (mt_latency_ns_max m)" for m ds
    by (induction ds arbitrary: m) (auto simp: record_latency_def Let_def max_def algebra_simps)
  then show ?thesis by (simp add: Let_def metrics_reset_def metrics_snapshot_def)
qed

end
