(* ===== verification/Market_Data.thy ===== *)
theory Market_Data
  imports Event_Delivery
begin

text \<open>
  The market data publisher (\<open>market_data/market_data_publisher.hpp\<close>, \<open>.cpp\<close>): it tracks the
  orders it hears of, keeps the aggregate quantity of every price level, and sends level-2
  updates with increasing sequence numbers. While a batch is being processed the changed levels
  are collected and sent at its end. The sink is code of the client: \<open>mp_sent\<close> lists the calls
  it has received.
\<close>

section \<open>State\<close>

datatype level_key = Level_Key (lk_instrument_id: instrument_id) (lk_side: side) (lk_price: price)

text \<open>The order of the keys of \<open>std::map\<close>: by instrument, then buy before sell, then price.\<close>

definition level_key_lt :: "level_key \<Rightarrow> level_key \<Rightarrow> bool" where
  "level_key_lt left right \<longleftrightarrow>
     (if lk_instrument_id left \<noteq> lk_instrument_id right
      then lk_instrument_id left < lk_instrument_id right
      else if lk_side left \<noteq> lk_side right then lk_side left = Buy
      else lk_price left < lk_price right)"

instantiation level_key :: linorder
begin

definition less_level_key where less_level_key_is: "less_level_key = level_key_lt"

lemmas less_level_key_def = level_key_lt_def [folded less_level_key_is]

definition less_eq_level_key :: "level_key \<Rightarrow> level_key \<Rightarrow> bool" where
  "less_eq_level_key left right \<longleftrightarrow> left = right \<or> left < right"

instance
proof
  fix a b c :: level_key
  have iff: "a < b \<longleftrightarrow> lk_instrument_id a < lk_instrument_id b \<or>
      lk_instrument_id a = lk_instrument_id b \<and>
        (lk_side a = Buy \<and> lk_side b = Sell \<or> lk_side a = lk_side b \<and> lk_price a < lk_price b)"
    for a b :: level_key
    unfolding less_level_key_def by (cases "lk_side a"; cases "lk_side b") auto
  have asym: "\<not> (a < b \<and> b < a)" for a b :: level_key
    unfolding iff by (cases "lk_side a"; cases "lk_side b") auto
  have trans: "a < c" if "a < b" "b < c"
    using that unfolding iff by (elim disjE conjE) (auto intro: less_trans)
  show "(a < b) = (a \<le> b \<and> \<not> b \<le> a)" using asym [of a b] by (auto simp: less_eq_level_key_def)
  show "a \<le> a" by (simp add: less_eq_level_key_def)
  show "a \<le> c" if "a \<le> b" "b \<le> c" using that trans by (auto simp: less_eq_level_key_def)
  show "a = b" if "a \<le> b" "b \<le> a" using that asym [of a b] by (auto simp: less_eq_level_key_def)
  show "a \<le> b \<or> b \<le> a"
    using less_linear [of "lk_price a" "lk_price b"] level_key.expand [of a b]
    unfolding less_eq_level_key_def iff
    by (cases "lk_side a"; cases "lk_side b") auto
qed

end

record tracked_order =
  tk_side :: side
  tk_price :: price
  tk_remaining_quantity :: quantity

record level2_update =
  l2_sequence :: u64
  l2_instrument_id :: instrument_id
  l2_side :: side
  l2_price :: price
  l2_aggregate_quantity :: quantity

record publisher =
  mp_next_sequence :: u64
  mp_orders :: "instrument_id \<times> order_id \<rightharpoonup> tracked_order"
  mp_level_quantities :: "level_key \<rightharpoonup> u64"
  mp_batching :: bool
  mp_pending_levels :: "(level_key, bool) omap"
  mp_sent :: "level2_update list"

definition new_publisher :: publisher where
  "new_publisher =
     \<lparr>mp_next_sequence = 1, mp_orders = Map.empty, mp_level_quantities = Map.empty,
      mp_batching = False, mp_pending_levels = [], mp_sent = []\<rparr>"

section \<open>Operations\<close>

text \<open>\<open>level_quantities_[key]\<close> as a value; \<open>operator[]\<close> starts a level at zero.\<close>

definition aggregate :: "publisher \<Rightarrow> level_key \<Rightarrow> u64" where
  "aggregate mp k = (case mp_level_quantities mp k of None \<Rightarrow> 0 | Some q \<Rightarrow> q)"

definition set_aggregate :: "level_key \<Rightarrow> u64 \<Rightarrow> publisher \<Rightarrow> publisher" where
  "set_aggregate k q mp = mp\<lparr>mp_level_quantities := (mp_level_quantities mp)(k \<mapsto> q)\<rparr>"

definition emit_level :: "level_key \<Rightarrow> publisher \<Rightarrow> publisher" where
  "emit_level k mp =
     (if mp_batching mp
      then mp\<lparr>mp_pending_levels := omap_put (<) k True (mp_pending_levels mp)\<rparr>
      else mp\<lparr>mp_next_sequence := mp_next_sequence mp + 1,
              mp_sent := mp_sent mp @
                [\<lparr>l2_sequence = mp_next_sequence mp, l2_instrument_id = lk_instrument_id k,
                  l2_side = lk_side k, l2_price = lk_price k,
                  l2_aggregate_quantity = Quantity (aggregate mp k)\<rparr>]\<rparr>)"

definition add_order :: "publisher \<Rightarrow> order_accepted \<Rightarrow> publisher" where
  "add_order mp ac =
     (let ord = ac_order ac; k = Level_Key (ac_instrument_id ac) (o_side ord) (o_price ord) in
      if o_order_type ord = Market \<or> o_order_type ord = IOC \<or> o_order_type ord = FOK then mp
      else
        let mp1 = mp\<lparr>mp_orders := (mp_orders mp)((ac_instrument_id ac, ac_order_id ac) \<mapsto>
              \<lparr>tk_side = o_side ord, tk_price = o_price ord,
               tk_remaining_quantity = o_remaining_quantity ord\<rparr>)\<rparr>
        in emit_level k (set_aggregate k
             (aggregate mp1 k + quantity_value (o_remaining_quantity ord)) mp1))"

definition tracked_level :: "instrument_id \<Rightarrow> tracked_order \<Rightarrow> level_key" where
  "tracked_level i tk = Level_Key i (tk_side tk) (tk_price tk)"

text \<open>The two halves of \<open>apply_trade\<close>: the incoming order, then the resting order.\<close>

definition trade_incoming :: "publisher \<Rightarrow> trade_executed \<Rightarrow> publisher" where
  "trade_incoming mp t =
     (let key = (te_instrument_id t, te_incoming_order_id t) in
      case mp_orders mp key of
        None \<Rightarrow> mp
      | Some tk \<Rightarrow>
          let tk' = tk\<lparr>tk_remaining_quantity := tk_remaining_quantity tk - Quantity (te_execution_quantity t)\<rparr>;
              k = tracked_level (te_instrument_id t) tk
          in if tk_remaining_quantity tk' = Quantity 0
             then let mp1 = mp\<lparr>mp_orders := (mp_orders mp)(key := None)\<rparr>
                  in emit_level k (set_aggregate k (aggregate mp1 k - te_execution_quantity t) mp1)
             else mp\<lparr>mp_orders := (mp_orders mp)(key \<mapsto> tk')\<rparr>)"

definition trade_resting :: "publisher \<Rightarrow> trade_executed \<Rightarrow> publisher" where
  "trade_resting mp t =
     (let key = (te_instrument_id t, te_resting_order_id t) in
      case mp_orders mp key of
        None \<Rightarrow> mp
      | Some tk \<Rightarrow>
          let tk' = tk\<lparr>tk_remaining_quantity := tk_remaining_quantity tk - Quantity (te_execution_quantity t)\<rparr>;
              k = tracked_level (te_instrument_id t) tk;
              mp1 = emit_level k (set_aggregate k (aggregate mp k - te_execution_quantity t) mp)
          in if tk_remaining_quantity tk' = Quantity 0
             then mp1\<lparr>mp_orders := (mp_orders mp1)(key := None)\<rparr>
             else mp1\<lparr>mp_orders := (mp_orders mp1)(key \<mapsto> tk')\<rparr>)"

definition apply_trade :: "publisher \<Rightarrow> trade_executed \<Rightarrow> publisher" where
  "apply_trade mp t = trade_resting (trade_incoming mp t) t"

definition remove_order :: "publisher \<Rightarrow> order_canceled \<Rightarrow> publisher" where
  "remove_order mp cn =
     (let key = (cn_instrument_id cn, cn_order_id cn) in
      case mp_orders mp key of
        None \<Rightarrow> mp
      | Some tk \<Rightarrow>
          let k = tracked_level (cn_instrument_id cn) tk;
              mp1 = set_aggregate k (aggregate mp k - quantity_value (tk_remaining_quantity tk)) mp
          in emit_level k (mp1\<lparr>mp_orders := (mp_orders mp1)(key := None)\<rparr>))"

fun market_data_on_event :: "publisher \<Rightarrow> engine_event \<Rightarrow> publisher" where
  "market_data_on_event mp (Order_Accepted a) = add_order mp a"
| "market_data_on_event mp (Trade_Executed t) = apply_trade mp t"
| "market_data_on_event mp (Order_Canceled c) = remove_order mp c"
| "market_data_on_event mp (Order_Rejected r) = mp"

text \<open>
  The loop runs over \<open>pending_levels_\<close> while \<open>emit_level\<close>, with \<open>batching_\<close> already false, does
  not change it.
\<close>

definition flush_pending_levels :: "publisher \<Rightarrow> publisher" where
  "flush_pending_levels mp =
     (let mp' = foldl (\<lambda>mp (k, b). emit_level k mp) mp (mp_pending_levels mp)
      in mp'\<lparr>mp_pending_levels := []\<rparr>)"

definition market_data_on_events :: "publisher \<Rightarrow> event_batch \<Rightarrow> publisher" where
  "market_data_on_events mp events =
     (let mp1 = foldl market_data_on_event (mp\<lparr>mp_batching := True\<rparr>) events
      in flush_pending_levels (mp1\<lparr>mp_batching := False\<rparr>))"

end
