(* ===== verification/Market_Data_Properties.thy ===== *)
theory Market_Data_Properties
  imports Market_Data
begin

text \<open>
  What subscribers may rely on: the sequence and the content of the updates of a batch, that
  batching changes neither the tracked orders nor the aggregates, when the aggregates are the
  exact sums of the open quantities, and the case in which they are not.
\<close>

section \<open>Building blocks\<close>

lemma emit_level_frame [simp]:
  "mp_orders (emit_level k mp) = mp_orders mp"
  "mp_level_quantities (emit_level k mp) = mp_level_quantities mp"
  "mp_batching (emit_level k mp) = mp_batching mp"
  "aggregate (emit_level k mp) j = aggregate mp j"
  by (simp_all add: emit_level_def aggregate_def)

lemma set_aggregate_frame [simp]:
  "mp_orders (set_aggregate k q mp) = mp_orders mp"
  "mp_batching (set_aggregate k q mp) = mp_batching mp"
  "mp_pending_levels (set_aggregate k q mp) = mp_pending_levels mp"
  "mp_sent (set_aggregate k q mp) = mp_sent mp"
  "mp_next_sequence (set_aggregate k q mp) = mp_next_sequence mp"
  "aggregate (set_aggregate k q mp) j = (if j = k then q else aggregate mp j)"
  by (simp_all add: set_aggregate_def aggregate_def)

lemma aggregate_frame [simp]:
  "aggregate (mp\<lparr>mp_orders := R\<rparr>) k = aggregate mp k"
  "aggregate (mp\<lparr>mp_batching := b\<rparr>) k = aggregate mp k"
  "aggregate (mp\<lparr>mp_pending_levels := P\<rparr>) k = aggregate mp k"
  by (simp_all add: aggregate_def)

lemmas publisher_steps =
  add_order_def trade_incoming_def trade_resting_def apply_trade_def remove_order_def Let_def

section \<open>Batching and single events\<close>

definition tracked_state :: "publisher \<Rightarrow> (instrument_id \<times> order_id \<rightharpoonup> tracked_order) \<times> (level_key \<rightharpoonup> u64)" where
  "tracked_state mp = (mp_orders mp, mp_level_quantities mp)"

lemma tracked_state_trade:
  assumes "tracked_state s = tracked_state s'"
  shows "tracked_state (trade_incoming s t) = tracked_state (trade_incoming s' t)"
    and "tracked_state (trade_resting s t) = tracked_state (trade_resting s' t)"
  using assms
  by (auto simp: tracked_state_def trade_incoming_def trade_resting_def Let_def set_aggregate_def
      aggregate_def split: option.split)

lemma tracked_state_event:
  assumes "tracked_state s = tracked_state s'"
  shows "tracked_state (market_data_on_event s e) = tracked_state (market_data_on_event s' e)"
proof (cases e)
  case (Trade_Executed t)
  then show ?thesis
    using tracked_state_trade(2) [OF tracked_state_trade(1) [OF assms, of t], of t]
    by (simp add: apply_trade_def)
qed (use assms in \<open>auto simp: tracked_state_def add_order_def remove_order_def Let_def set_aggregate_def
    aggregate_def split: option.split\<close>)

lemma tracked_state_events:
  "tracked_state s = tracked_state s' \<Longrightarrow>
   tracked_state (foldl market_data_on_event s es) = tracked_state (foldl market_data_on_event s' es)"
proof (induction es arbitrary: s s')
  case (Cons e es)
  show ?case using Cons.IH [OF tracked_state_event [OF Cons.prems, of e]] by simp
qed simp

lemma tracked_state_flush: "tracked_state (flush_pending_levels mp) = tracked_state mp"
proof -
  have "tracked_state (foldl (\<lambda>mp (k, b). emit_level k mp) mp ks) = tracked_state mp" for ks
    by (induction ks arbitrary: mp) (auto simp: tracked_state_def)
  then show ?thesis by (simp add: flush_pending_levels_def Let_def tracked_state_def)
qed

lemma tracked_state_on_events:
  "tracked_state (market_data_on_events s es) = tracked_state (foldl market_data_on_event s es)"
proof -
  have "tracked_state (foldl market_data_on_event (s\<lparr>mp_batching := True\<rparr>) es) =
      tracked_state (foldl market_data_on_event s es)"
    by (rule tracked_state_events) (simp add: tracked_state_def)
  then show ?thesis
    using tracked_state_flush
    by (simp add: market_data_on_events_def Let_def) (simp add: tracked_state_def)
qed

interpretation market_data_sink: event_consumer market_data_on_event market_data_on_events tracked_state
  by unfold_locales (simp add: tracked_state_on_events, erule tracked_state_event)

text \<open>
  C33: batching loses nothing. Whether the engine hands its batches over whole or event by
  event, the publisher tracks the same orders and holds the same aggregate for every level.
\<close>

theorem market_data_independent_of_batching:
  fixes mp :: publisher and batches :: "event_batch list"
  assumes "sink \<noteq> No_Sink"
  shows "tracked_state (foldl (deliver market_data_on_event market_data_on_events) mp
      (concat (map (publish sink) batches))) =
    tracked_state (foldl market_data_on_event mp (concat batches))"
  by (rule market_data_sink.deliver_batches [OF assms])

section \<open>The updates of a batch\<close>

definition update_key :: "level2_update \<Rightarrow> level_key" where
  "update_key u = Level_Key (l2_instrument_id u) (l2_side u) (l2_price u)"

definition pending_keys :: "publisher \<Rightarrow> level_key set" where
  "pending_keys mp = fst ` set (mp_pending_levels mp)"

lemma minus_quantity_zero: "tk_remaining_quantity tk - Quantity x = Quantity 0 \<longleftrightarrow> tk_remaining_quantity tk = Quantity x"
  by (cases "tk_remaining_quantity tk") (simp add: minus_quantity_def)

text \<open>
  The levels an event touches, told from the orders that are tracked when it arrives: an order
  that will rest touches its level, a trade that of the resting order and, if it fills the incoming
  order, the level of that one as well, and a cancellation the level of the order.
\<close>

definition level_of :: "publisher \<Rightarrow> instrument_id \<Rightarrow> order_id \<Rightarrow> level_key set" where
  "level_of mp i oid = tracked_level i ` set_option (mp_orders mp (i, oid))"

fun touches :: "publisher \<Rightarrow> engine_event \<Rightarrow> level_key set" where
  "touches mp (Order_Accepted a) =
     (if o_order_type (ac_order a) \<in> {Market, IOC, FOK} then {}
      else {Level_Key (ac_instrument_id a) (o_side (ac_order a)) (o_price (ac_order a))})"
| "touches mp (Trade_Executed t) =
     level_of mp (te_instrument_id t) (te_resting_order_id t) \<union>
     {k \<in> level_of mp (te_instrument_id t) (te_incoming_order_id t).
        map_option tk_remaining_quantity (mp_orders mp (te_instrument_id t, te_incoming_order_id t)) =
          Some (Quantity (te_execution_quantity t))}"
| "touches mp (Order_Canceled c) = level_of mp (cn_instrument_id c) (cn_order_id c)"
| "touches mp (Order_Rejected r) = {}"

fun touched_levels :: "publisher \<Rightarrow> event_batch \<Rightarrow> level_key set" where
  "touched_levels mp [] = {}"
| "touched_levels mp (e # es) = touches mp e \<union> touched_levels (market_data_on_event mp e) es"

lemma touches_tracked_state: "tracked_state mp = tracked_state mp' \<Longrightarrow> touches mp e = touches mp' e"
  by (cases e) (simp_all add: tracked_state_def level_of_def)

lemma touched_levels_tracked_state:
  "tracked_state mp = tracked_state mp' \<Longrightarrow> touched_levels mp es = touched_levels mp' es"
proof (induction es arbitrary: mp mp')
  case (Cons e es)
  show ?case
    using Cons.IH [OF tracked_state_event [OF Cons.prems, of e]] touches_tracked_state [OF Cons.prems, of e] by simp
qed simp

text \<open>
  While a batch is processed, a step only collects: nothing is sent, and the levels that become
  pending are those in \<open>K\<close>, every changed level among them.
\<close>

definition collects :: "level_key set \<Rightarrow> publisher \<Rightarrow> publisher \<Rightarrow> bool" where
  "collects K mp mp' \<longleftrightarrow>
     mp_batching mp' \<and> mp_sent mp' = mp_sent mp \<and> mp_next_sequence mp' = mp_next_sequence mp \<and>
     (omap_ok (<) (mp_pending_levels mp) \<longrightarrow> omap_ok (<) (mp_pending_levels mp')) \<and>
     pending_keys mp' = pending_keys mp \<union> K \<and>
     (\<forall>k. aggregate mp' k \<noteq> aggregate mp k \<longrightarrow> k \<in> K)"

lemma collects_refl: "mp_batching mp \<Longrightarrow> collects {} mp mp"
  by (simp add: collects_def)

lemma collects_trans:
  assumes "collects K mp mp'" and "collects K' mp' mp''"
  shows "collects (K \<union> K') mp mp''"
  unfolding collects_def
proof (intro conjI allI impI)
  fix k assume "aggregate mp'' k \<noteq> aggregate mp k"
  then have "aggregate mp'' k \<noteq> aggregate mp' k \<or> aggregate mp' k \<noteq> aggregate mp k" by auto
  then show "k \<in> K \<union> K'" using assms unfolding collects_def by blast
qed (use assms in \<open>auto simp: collects_def\<close>)

lemma collects_orders: "mp_batching mp \<Longrightarrow> collects {} mp (mp\<lparr>mp_orders := R\<rparr>)"
  by (simp add: collects_def pending_keys_def)

lemma collects_emit:
  "mp_batching mp \<Longrightarrow> collects {k} mp (emit_level k (set_aggregate k q mp))"
  by (auto simp: collects_def pending_keys_def emit_level_def fst_set_omap_put omap_simps aggregate_def
      set_aggregate_def image_iff)

lemma collects_batching: "collects K mp mp' \<Longrightarrow> mp_batching mp'"
  by (simp add: collects_def)

lemma collects_emit_orders:
  assumes "mp_batching mp"
  shows "collects {k} mp (emit_level k (set_aggregate k q (mp\<lparr>mp_orders := R\<rparr>)))"
    and "collects {k} mp ((emit_level k (set_aggregate k q mp))\<lparr>mp_orders := R\<rparr>)"
  using collects_trans [OF collects_orders [OF assms] collects_emit]
    collects_trans [OF collects_emit [OF assms] collects_orders] assms
  by simp_all

lemma collects_trade:
  assumes b: "mp_batching mp"
  shows "collects {k \<in> level_of mp (te_instrument_id t) (te_incoming_order_id t).
        map_option tk_remaining_quantity (mp_orders mp (te_instrument_id t, te_incoming_order_id t)) =
          Some (Quantity (te_execution_quantity t))} mp (trade_incoming mp t)"
    and "collects (level_of mp (te_instrument_id t) (te_resting_order_id t)) mp (trade_resting mp t)"
  using collects_emit_orders [OF b] collects_orders [OF b] collects_refl [OF b]
  by (auto simp: trade_incoming_def trade_resting_def level_of_def Let_def minus_quantity_zero
      split: option.split)

text \<open>The incoming half of a trade leaves the level of the resting order, unless it filled that very order.\<close>

lemma trade_touches:
  "touches mp (Trade_Executed t) =
     {k \<in> level_of mp (te_instrument_id t) (te_incoming_order_id t).
        map_option tk_remaining_quantity (mp_orders mp (te_instrument_id t, te_incoming_order_id t)) =
          Some (Quantity (te_execution_quantity t))} \<union>
     level_of (trade_incoming mp t) (te_instrument_id t) (te_resting_order_id t)"
  by (cases "te_incoming_order_id t = te_resting_order_id t")
    (auto simp: level_of_def trade_incoming_def tracked_level_def Let_def minus_quantity_zero
      split: option.splits if_splits)

lemma collects_event:
  assumes b: "mp_batching mp"
  shows "collects (touches mp e) mp (market_data_on_event mp e)"
proof -
  have swap: "(set_aggregate k q mp)\<lparr>mp_orders := R\<rparr> = set_aggregate k q (mp\<lparr>mp_orders := R\<rparr>)" for k q mp R
    by (simp add: set_aggregate_def)
  show ?thesis
  proof (cases e)
    case (Trade_Executed t)
    show ?thesis
      using collects_trans [OF collects_trade(1) [OF b] collects_trade(2) [OF collects_batching [OF collects_trade(1) [OF b]]]]
      unfolding Trade_Executed trade_touches by (simp add: apply_trade_def)
  qed (use collects_emit_orders [OF b] collects_refl [OF b] in
      \<open>simp_all add: add_order_def remove_order_def level_of_def Let_def swap split: option.split\<close>)
qed

lemma collects_events:
  "mp_batching mp \<Longrightarrow> collects (touched_levels mp es) mp (foldl market_data_on_event mp es)"
proof (induction es arbitrary: mp)
  case (Cons e es)
  note step = collects_event [OF Cons.prems, of e]
  show ?case using collects_trans [OF step Cons.IH [OF collects_batching [OF step]]] by simp
qed (simp add: collects_refl)

lemma flush_loop:
  assumes "\<not> mp_batching mp"
  shows "\<exists>new. foldl (\<lambda>mp (k, b). emit_level k mp) mp ks =
      mp\<lparr>mp_next_sequence := mp_next_sequence mp + of_nat (length new), mp_sent := mp_sent mp @ new\<rparr> \<and>
    map update_key new = map fst ks \<and>
    map l2_sequence new = map (\<lambda>n. mp_next_sequence mp + of_nat n) [0..<length new] \<and>
    (\<forall>u \<in> set new. l2_aggregate_quantity u = Quantity (aggregate mp (update_key u)))"
  using assms
proof (induction ks arbitrary: mp)
  case Nil
  show ?case by (rule exI [of _ "[]"]) simp
next
  case (Cons kb ks)
  obtain k b where kb: "kb = (k, b)" by (cases kb)
  let ?u = "\<lparr>l2_sequence = mp_next_sequence mp, l2_instrument_id = lk_instrument_id k,
      l2_side = lk_side k, l2_price = lk_price k, l2_aggregate_quantity = Quantity (aggregate mp k)\<rparr>"
  let ?mp = "emit_level k mp"
  have mp: "?mp = mp\<lparr>mp_next_sequence := mp_next_sequence mp + 1, mp_sent := mp_sent mp @ [?u]\<rparr>"
    using Cons.prems by (simp add: emit_level_def)
  obtain new where new:
      "foldl (\<lambda>mp (k, b). emit_level k mp) ?mp ks =
        ?mp\<lparr>mp_next_sequence := mp_next_sequence ?mp + of_nat (length new), mp_sent := mp_sent ?mp @ new\<rparr>"
      "map update_key new = map fst ks"
      "map l2_sequence new = map (\<lambda>n. mp_next_sequence ?mp + of_nat n) [0..<length new]"
      "\<forall>u \<in> set new. l2_aggregate_quantity u = Quantity (aggregate ?mp (update_key u))"
    using Cons.IH [of ?mp] Cons.prems by auto
  have "update_key ?u = k" by (simp add: update_key_def)
  then show ?case
    by (intro exI [of _ "?u # new"])
      (use new in \<open>simp add: kb mp map_upt_Suc aggregate_def algebra_simps del: upt_Suc\<close>)
qed

text \<open>
  C27: the updates of a batch. On an idle publisher a batch sends exactly one update for each level
  that one of its events touches, and none for any other: the levels come in strictly increasing
  order of their keys, with consecutive sequence numbers from the stored one, each with the
  aggregate that the level has after the whole batch, also where the batch leaves the aggregate as
  it was. Every level whose aggregate changed is among them, and the publisher is idle again.
\<close>

theorem market_data_batch_updates:
  fixes es :: event_batch
  assumes "\<not> mp_batching mp" and "mp_pending_levels mp = []"
  defines "mp' \<equiv> market_data_on_events mp es"
  shows "\<exists>new. mp_sent mp' = mp_sent mp @ new \<and>
    map l2_sequence new = map (\<lambda>n. mp_next_sequence mp + of_nat n) [0..<length new] \<and>
    mp_next_sequence mp' = mp_next_sequence mp + of_nat (length new) \<and>
    sorted_wrt (<) (map update_key new) \<and>
    (\<forall>u \<in> set new. l2_aggregate_quantity u = Quantity (aggregate mp' (update_key u))) \<and>
    update_key ` set new = touched_levels mp es \<and>
    (\<forall>k. aggregate mp' k \<noteq> aggregate mp k \<longrightarrow> k \<in> update_key ` set new) \<and>
    \<not> mp_batching mp' \<and> mp_pending_levels mp' = []"
proof -
  let ?mid = "foldl market_data_on_event (mp\<lparr>mp_batching := True\<rparr>) es"
  have mid: "collects (touched_levels mp es) (mp\<lparr>mp_batching := True\<rparr>) ?mid"
    using collects_events [of "mp\<lparr>mp_batching := True\<rparr>" es]
      touched_levels_tracked_state [of "mp\<lparr>mp_batching := True\<rparr>" mp es]
    by (simp add: tracked_state_def)
  obtain new where new:
      "foldl (\<lambda>mp (k, b). emit_level k mp) (?mid\<lparr>mp_batching := False\<rparr>) (mp_pending_levels ?mid) =
        ?mid\<lparr>mp_batching := False, mp_next_sequence := mp_next_sequence ?mid + of_nat (length new),
          mp_sent := mp_sent ?mid @ new\<rparr>"
      "map update_key new = map fst (mp_pending_levels ?mid)"
      "map l2_sequence new = map (\<lambda>n. mp_next_sequence ?mid + of_nat n) [0..<length new]"
      "\<forall>u \<in> set new. l2_aggregate_quantity u = Quantity (aggregate ?mid (update_key u))"
    using flush_loop [of "?mid\<lparr>mp_batching := False\<rparr>" "mp_pending_levels ?mid"] by auto
  have mp': "mp' = ?mid\<lparr>mp_batching := False, mp_next_sequence := mp_next_sequence ?mid + of_nat (length new),
      mp_sent := mp_sent ?mid @ new, mp_pending_levels := []\<rparr>"
    using new(1) by (simp add: mp'_def market_data_on_events_def flush_pending_levels_def Let_def)
  have agg: "aggregate mp' k = aggregate ?mid k" for k
    unfolding mp' by (simp add: aggregate_def)
  have "update_key ` set new = pending_keys ?mid"
    using arg_cong [OF new(2), of set] by (simp add: pending_keys_def)
  then have keys: "update_key ` set new = touched_levels mp es"
    using mid assms(2) by (simp add: collects_def pending_keys_def)
  have "sorted_wrt (<) (map update_key new)"
    using mid assms(2) unfolding new(2) by (simp add: collects_def omap_ok_def)
  moreover have "k \<in> update_key ` set new" if "aggregate mp' k \<noteq> aggregate mp k" for k
    using that mid unfolding keys by (simp add: collects_def agg)
  moreover have "mp_sent mp' = mp_sent mp @ new" "mp_next_sequence mp' = mp_next_sequence mp + of_nat (length new)"
      "map l2_sequence new = map (\<lambda>n. mp_next_sequence mp + of_nat n) [0..<length new]"
      "\<not> mp_batching mp'" "mp_pending_levels mp' = []"
    using mid new(3) by (simp_all add: mp' collects_def)
  ultimately show ?thesis using new(4) keys by (auto simp: agg)
qed

section \<open>Witnesses\<close>

definition demo_accepted :: "order_id \<Rightarrow> side \<Rightarrow> raw_price \<Rightarrow> raw_quantity \<Rightarrow> order_accepted" where
  "demo_accepted oid s p q =
     \<lparr>ac_order = \<lparr>o_instrument_id = 1, o_order_id = oid, o_side = s, o_price = Price p,
        o_quantity = Quantity q, o_remaining_quantity = Quantity q, o_status = New_Order,
        o_order_type = Limit, o_account_id = 7\<rparr>,
      ac_instrument_id = 1, ac_order_id = oid\<rparr>"

definition demo_trade :: "order_id \<Rightarrow> order_id \<Rightarrow> raw_price \<Rightarrow> raw_quantity \<Rightarrow> trade_executed" where
  "demo_trade incoming resting p q =
     \<lparr>te_trade = \<lparr>t_execution_id = 1, t_instrument_id = 1, t_incoming_order_id = incoming,
        t_resting_order_id = resting, t_execution_price = Price p, t_execution_quantity = Quantity q,
        t_incoming_account_id = 9, t_resting_account_id = 7\<rparr>,
      te_instrument_id = 1, te_incoming_order_id = incoming, te_resting_order_id = resting,
      te_execution_price = p, te_execution_quantity = q\<rparr>"

theorem market_data_independent_of_batching_witness:
  "tracked_state (foldl (deliver market_data_on_event market_data_on_events) new_publisher
     (concat (map (publish Batch_Sink) [[Order_Accepted (demo_accepted 1 Sell 100 5)]]))) =
   ([(1, 1) \<mapsto> \<lparr>tk_side = Sell, tk_price = Price 100, tk_remaining_quantity = Quantity 5\<rparr>],
    [Level_Key 1 Sell (Price 100) \<mapsto> 5])"
proof -
  have "tracked_state (market_data_on_event new_publisher (Order_Accepted (demo_accepted 1 Sell 100 5))) =
      ([(1, 1) \<mapsto> \<lparr>tk_side = Sell, tk_price = Price 100, tk_remaining_quantity = Quantity 5\<rparr>],
       [Level_Key 1 Sell (Price 100) \<mapsto> 5])"
    by (simp add: tracked_state_def add_order_def demo_accepted_def new_publisher_def set_aggregate_def
        aggregate_def Let_def)
  then show ?thesis
    using market_data_independent_of_batching [of Batch_Sink new_publisher
        "[[Order_Accepted (demo_accepted 1 Sell 100 5)]]"] by simp
qed

text \<open>An order that is accepted and filled in one batch: one update, although the aggregate is as before.\<close>

definition demo_batch :: event_batch where
  "demo_batch = [Order_Accepted (demo_accepted 1 Sell 100 5), Trade_Executed (demo_trade 2 1 100 5)]"

lemma demo_batch_levels:
  "touched_levels new_publisher demo_batch = {Level_Key 1 Sell (Price 100)}"
  "aggregate (market_data_on_events new_publisher demo_batch) (Level_Key 1 Sell (Price 100)) = 0"
  by (simp_all add: demo_batch_def demo_accepted_def demo_trade_def level_of_def new_publisher_def
      market_data_on_events_def flush_pending_levels_def publisher_steps emit_level_def set_aggregate_def
      aggregate_def tracked_level_def minus_quantity_def omap_simps)

theorem market_data_batch_updates_witness:
  "\<exists>u. mp_sent (market_data_on_events new_publisher demo_batch) = [u] \<and>
     update_key u = Level_Key 1 Sell (Price 100) \<and> l2_aggregate_quantity u = Quantity 0"
proof -
  have "\<not> mp_batching new_publisher" "mp_pending_levels new_publisher = []" "mp_sent new_publisher = []"
    by (simp_all add: new_publisher_def)
  with market_data_batch_updates [OF this(1,2), of demo_batch] obtain new where
      new: "mp_sent (market_data_on_events new_publisher demo_batch) = new"
      "sorted_wrt (<) (map update_key new)" "update_key ` set new = {Level_Key 1 Sell (Price 100)}"
      "\<forall>u \<in> set new. l2_aggregate_quantity u =
         Quantity (aggregate (market_data_on_events new_publisher demo_batch) (update_key u))"
    unfolding demo_batch_levels by auto
  obtain u where "new = [u]"
  proof (cases new)
    case (Cons u us)
    then have "us = []" using new(2,3) by (cases us) auto
    then show thesis using that Cons by simp
  qed (use new(3) in simp)
  then show ?thesis using new demo_batch_levels(2) by simp
qed

section \<open>The drift of the aggregates\<close>

text \<open>
  \<open>level_total\<close> is what the tracked orders of a level have left; the drift of a level is by how
  much its published aggregate exceeds that, in the arithmetic of the aggregates.
\<close>

definition order_share :: "level_key \<Rightarrow> instrument_id \<times> order_id \<Rightarrow> tracked_order option \<Rightarrow> u64" where
  "order_share k key r =
     (case r of None \<Rightarrow> 0
      | Some tk \<Rightarrow> if tracked_level (fst key) tk = k then quantity_value (tk_remaining_quantity tk) else 0)"

definition level_total :: "publisher \<Rightarrow> level_key \<Rightarrow> u64" where
  "level_total mp k = (\<Sum>key\<in>UNIV. order_share k key (mp_orders mp key))"

definition drift :: "publisher \<Rightarrow> level_key \<Rightarrow> u64" where
  "drift mp k = aggregate mp k - level_total mp k"

lemma order_share_None [simp]: "order_share k key None = 0"
  by (simp add: order_share_def)

lemma level_total_update:
  assumes "mp_orders mp' = (mp_orders mp)(key := r)"
  shows "level_total mp' k = level_total mp k + order_share k key r - order_share k key (mp_orders mp key)"
proof -
  have "level_total mp' k + order_share k key (mp_orders mp key) =
      level_total mp k + order_share k key (mp_orders mp' key)"
    unfolding level_total_def by (rule sum_point_update) (simp add: assms)
  then show ?thesis using assms by (simp add: algebra_simps)
qed

lemma drift_update:
  assumes "mp_orders mp' = (mp_orders mp)(key := r)"
    and "aggregate mp' k = aggregate mp k + order_share k key r - order_share k key (mp_orders mp key) + d"
  shows "drift mp' k = drift mp k + d"
  using assms(2) level_total_update [OF assms(1), of k] by (simp add: drift_def)

lemma drift_frame: "mp_orders mp' = mp_orders mp \<Longrightarrow> aggregate mp' k = aggregate mp k \<Longrightarrow> drift mp' k = drift mp k"
  by (simp add: drift_def level_total_def)

lemma drift_tracked_state: "tracked_state mp = tracked_state mp' \<Longrightarrow> drift mp k = drift mp' k"
  by (rule drift_frame) (simp_all add: tracked_state_def aggregate_def)

lemma drift_new: "drift new_publisher k = 0"
  by (simp add: drift_def aggregate_def new_publisher_def level_total_def)

lemma drift_accepted:
  assumes "mp_orders mp (ac_instrument_id a, ac_order_id a) = None"
  shows "drift (add_order mp a) k = drift mp k"
proof (cases "o_order_type (ac_order a) = Market \<or> o_order_type (ac_order a) = IOC \<or> o_order_type (ac_order a) = FOK")
  case True
  then show ?thesis by (simp add: add_order_def Let_def)
next
  case False
  have "drift (add_order mp a) k = drift mp k + 0"
    by (rule drift_update [where key = "(ac_instrument_id a, ac_order_id a)" and r = "Some
          \<lparr>tk_side = o_side (ac_order a), tk_price = o_price (ac_order a),
           tk_remaining_quantity = o_remaining_quantity (ac_order a)\<rparr>"])
      (use False assms in \<open>simp_all add: add_order_def Let_def order_share_def tracked_level_def\<close>)
  then show ?thesis by simp
qed

lemma drift_canceled: "drift (remove_order mp c) k = drift mp k"
proof (cases "mp_orders mp (cn_instrument_id c, cn_order_id c)")
  case None
  then show ?thesis by (simp add: remove_order_def)
next
  case (Some tk)
  have "drift (remove_order mp c) k = drift mp k + 0"
    by (rule drift_update [where key = "(cn_instrument_id c, cn_order_id c)" and r = None])
      (simp_all add: remove_order_def Let_def Some order_share_def)
  then show ?thesis by simp
qed

text \<open>What a trade takes from a tracked order, and the part of it that the level of the order loses.\<close>

lemma order_share_trade:
  "order_share k (i, oid) (Some (tk\<lparr>tk_remaining_quantity := tk_remaining_quantity tk - Quantity x\<rparr>)) =
   order_share k (i, oid) (Some tk) - (if tracked_level i tk = k then x else 0)"
  by (simp add: order_share_def tracked_level_def minus_quantity_def)

lemma drift_resting: "drift (trade_resting mp t) k = drift mp k"
proof (cases "mp_orders mp (te_instrument_id t, te_resting_order_id t)")
  case None
  then show ?thesis by (simp add: trade_resting_def)
next
  case (Some tk)
  let ?tk = "tk\<lparr>tk_remaining_quantity := tk_remaining_quantity tk - Quantity (te_execution_quantity t)\<rparr>"
  let ?r = "if tk_remaining_quantity ?tk = Quantity 0 then None else Some ?tk"
  have "order_share k key (Some ?tk) = 0" if "tk_remaining_quantity ?tk = Quantity 0" for key
    using that by (simp add: order_share_def)
  then have "order_share k (te_instrument_id t, te_resting_order_id t) ?r =
      order_share k (te_instrument_id t, te_resting_order_id t) (Some tk) -
        (if tracked_level (te_instrument_id t) tk = k then te_execution_quantity t else 0)"
    unfolding order_share_trade [symmetric] by (cases "tk_remaining_quantity ?tk = Quantity 0") simp_all
  then have "drift (trade_resting mp t) k = drift mp k + 0"
    by (intro drift_update [where key = "(te_instrument_id t, te_resting_order_id t)" and r = ?r])
      (auto simp: trade_resting_def Let_def Some)
  then show ?thesis by simp
qed

lemma drift_incoming:
  "drift (trade_incoming mp t) k = drift mp k +
     (case mp_orders mp (te_instrument_id t, te_incoming_order_id t) of
        None \<Rightarrow> 0
      | Some tk \<Rightarrow>
          if tracked_level (te_instrument_id t) tk = k \<and> tk_remaining_quantity tk \<noteq> Quantity (te_execution_quantity t)
          then te_execution_quantity t else 0)"
proof (cases "mp_orders mp (te_instrument_id t, te_incoming_order_id t)")
  case None
  then show ?thesis by (simp add: trade_incoming_def)
next
  case (Some tk)
  let ?tk = "tk\<lparr>tk_remaining_quantity := tk_remaining_quantity tk - Quantity (te_execution_quantity t)\<rparr>"
  have "drift (trade_incoming mp t) k = drift mp k +
      (if tracked_level (te_instrument_id t) tk = k \<and> tk_remaining_quantity tk \<noteq> Quantity (te_execution_quantity t)
       then te_execution_quantity t else 0)"
    by (rule drift_update [where key = "(te_instrument_id t, te_incoming_order_id t)" and
          r = "if tk_remaining_quantity ?tk = Quantity 0 then None else Some ?tk"])
      (auto simp: trade_incoming_def Let_def Some minus_quantity_zero order_share_trade
        order_share_def [of k "(te_instrument_id t, te_incoming_order_id t)" "Some tk"])
  then show ?thesis by (simp add: Some)
qed

text \<open>
  Single events that keep every aggregate exact: an accepted order that is new, and a trade that
  the publisher does not track for the incoming order or that fills it in one go.
\<close>

definition levels_exact :: "publisher \<Rightarrow> bool" where
  "levels_exact mp \<longleftrightarrow> (\<forall>k. aggregate mp k = level_total mp k)"

fun fully_tracked :: "publisher \<Rightarrow> engine_event \<Rightarrow> bool" where
  "fully_tracked mp (Order_Accepted a) \<longleftrightarrow> mp_orders mp (ac_instrument_id a, ac_order_id a) = None"
| "fully_tracked mp (Trade_Executed t) \<longleftrightarrow>
     (case mp_orders mp (te_instrument_id t, te_incoming_order_id t) of
        None \<Rightarrow> True
      | Some tk \<Rightarrow> tk_remaining_quantity tk = Quantity (te_execution_quantity t))"
| "fully_tracked mp _ \<longleftrightarrow> True"

lemma levels_exact_drift: "levels_exact mp \<longleftrightarrow> (\<forall>k. drift mp k = 0)"
  by (simp add: levels_exact_def drift_def)

theorem aggregates_exact_without_partial_takes:
  assumes "levels_exact mp" and "fully_tracked mp e"
  shows "levels_exact (market_data_on_event mp e)"
  using assms
  by (cases e) (auto simp: levels_exact_drift drift_accepted drift_canceled apply_trade_def drift_resting
      drift_incoming split: option.splits)

text \<open>
  A limit order that trades in part on arrival overstates its level. Order 2 buys 8 at 100
  while 5 are offered there: 3 rest in the book and the publisher tracks 3, but the batch ends
  with an update that offers 8, and the aggregate keeps the difference.
\<close>

theorem partial_take_overstates_level:
  "let mp = market_data_on_events new_publisher [Order_Accepted (demo_accepted 1 Sell 100 5)];
       mp' = market_data_on_events mp
         [Order_Accepted (demo_accepted 2 Buy 100 8), Trade_Executed (demo_trade 2 1 100 5)]
   in mp_orders mp' = [(1, 2) \<mapsto> \<lparr>tk_side = Buy, tk_price = Price 100, tk_remaining_quantity = Quantity 3\<rparr>] \<and>
      aggregate mp' (Level_Key 1 Buy (Price 100)) = 8 \<and>
      \<lparr>l2_sequence = 2, l2_instrument_id = 1, l2_side = Buy, l2_price = Price 100,
       l2_aggregate_quantity = Quantity 8\<rparr> \<in> set (mp_sent mp')"
  by (simp add: market_data_on_events_def flush_pending_levels_def Let_def add_order_def demo_accepted_def
      new_publisher_def emit_level_def set_aggregate_def aggregate_def apply_trade_def trade_incoming_def
      trade_resting_def demo_trade_def tracked_level_def minus_quantity_def less_level_key_def fun_eq_iff)

end
