(* ===== verification/Market_Data_Engine.thy ===== *)
theory Market_Data_Engine
  imports Market_Data_Properties Matching_Engine_Effects
begin

text \<open>
  The market data publisher connected to the engine: a publisher that receives the batches an
  engine publishes, from the engine's first request on, follows the open interest of the books.
  Hence it tracks exactly the resting orders, with their side, price and remaining quantity, and
  its aggregate of a level is the depth of that level in the book plus an excess that the batches
  determine.
\<close>

section \<open>Following the open interest\<close>

text \<open>
  The publisher sees no accounts; the open interest has no prices, they come from a second map.
\<close>

definition follows :: "publisher \<Rightarrow> instrument_id \<Rightarrow> open_interest \<Rightarrow> (order_id \<Rightarrow> price) \<Rightarrow> bool" where
  "follows mp i V P \<longleftrightarrow>
     (\<forall>oid. mp_orders mp (i, oid) =
        (case V oid of None \<Rightarrow> None
         | Some (s, a, n) \<Rightarrow>
             Some \<lparr>tk_side = s, tk_price = P oid, tk_remaining_quantity = Quantity (of_nat n)\<rparr>))"

lemma follows_at:
  "follows mp i V P \<Longrightarrow> mp_orders mp (i, oid) =
     (case V oid of None \<Rightarrow> None
      | Some (s, a, n) \<Rightarrow> Some \<lparr>tk_side = s, tk_price = P oid, tk_remaining_quantity = Quantity (of_nat n)\<rparr>)"
  by (simp add: follows_def)

lemma follows_frame:
  "follows mp i V P \<Longrightarrow> (\<And>oid. mp_orders mp' (i, oid) = mp_orders mp (i, oid)) \<Longrightarrow> follows mp' i V P"
  by (simp add: follows_def)

lemma follows_prices:
  "follows mp i V P \<Longrightarrow> (\<And>oid. V oid \<noteq> None \<Longrightarrow> P oid = P' oid) \<Longrightarrow> follows mp i V P'"
  by (fastforce simp: follows_def split: option.splits)

definition fits :: "open_interest \<Rightarrow> bool" where
  "fits V \<longleftrightarrow> (\<forall>oid s a n. V oid = Some (s, a, n) \<longrightarrow> n < 2 ^ 64)"

lemma fits_take: "fits V \<Longrightarrow> fits (take_from V k x)"
  by (auto simp: fits_def take_from_def split: option.splits if_splits) (metis less_imp_diff_less)

lemma fits_consume: "fits V \<Longrightarrow> fits (consume V oid ts)"
  by (induction V oid ts rule: consume.induct) (simp_all add: fits_take)

lemma fits_update: "fits V \<Longrightarrow> fits (V(oid := None))"
  by (auto simp: fits_def)

text \<open>The two halves of a trade, on the publisher and on the interest.\<close>

lemma follows_take:
  assumes f: "follows mp i V P" and fits: "fits V"
    and enough: "\<And>s a n. V k = Some (s, a, n) \<Longrightarrow> unat x \<le> n"
    and upd: "\<And>oid. mp_orders mp' (i, oid) =
      (if oid = k then case mp_orders mp (i, k) of None \<Rightarrow> None
         | Some tk \<Rightarrow> if tk_remaining_quantity tk = Quantity x then None
             else Some (tk\<lparr>tk_remaining_quantity := tk_remaining_quantity tk - Quantity x\<rparr>)
       else mp_orders mp (i, oid))"
  shows "follows mp' i (take_from V k (unat x)) P"
  unfolding follows_def
proof
  fix oid
  show "mp_orders mp' (i, oid) = (case take_from V k (unat x) oid of None \<Rightarrow> None
      | Some (s, a, n) \<Rightarrow> Some \<lparr>tk_side = s, tk_price = P oid, tk_remaining_quantity = Quantity (of_nat n)\<rparr>)"
  proof (cases "oid = k")
    case False
    then show ?thesis by (simp add: upd follows_at [OF f])
  next
    case True
    show ?thesis
    proof (cases "V k")
      case None
      then show ?thesis using True by (simp add: upd follows_at [OF f] take_from_same)
    next
      case (Some v)
      obtain s a n where v: "v = (s, a, n)" by (cases v)
      have n: "n < 2 ^ 64" "unat x \<le> n" using Some v fits enough by (auto simp: fits_def)
      have n64: "unat (of_nat n :: u64) = n" using n(1) by (simp add: unat_of_nat)
      have whole: "(of_nat n :: u64) = x \<longleftrightarrow> n \<le> unat x"
        unfolding word_unat_eq_iff n64 using n(2) by linarith
      have part: "Quantity (of_nat n) - Quantity x = Quantity (of_nat (n - unat x))"
        using n(2) by (simp add: of_nat_diff minus_quantity_def)
      have "mp_orders mp (i, k) = Some \<lparr>tk_side = s, tk_price = P k, tk_remaining_quantity = Quantity (of_nat n)\<rparr>"
        by (simp add: follows_at [OF f] Some v)
      then show ?thesis
        unfolding True upd take_from_same Some v
        by (cases "n \<le> unat x") (simp_all add: whole part del: of_nat_diff)
    qed
  qed
qed

lemma trade_orders:
  "mp_orders (trade_incoming mp t) (i, oid) =
     (if i = te_instrument_id t \<and> oid = te_incoming_order_id t
      then case mp_orders mp (i, oid) of None \<Rightarrow> None
        | Some tk \<Rightarrow> if tk_remaining_quantity tk = Quantity (te_execution_quantity t) then None
            else Some (tk\<lparr>tk_remaining_quantity := tk_remaining_quantity tk - Quantity (te_execution_quantity t)\<rparr>)
      else mp_orders mp (i, oid))"
  "mp_orders (trade_resting mp t) (i, oid) =
     (if i = te_instrument_id t \<and> oid = te_resting_order_id t
      then case mp_orders mp (i, oid) of None \<Rightarrow> None
        | Some tk \<Rightarrow> if tk_remaining_quantity tk = Quantity (te_execution_quantity t) then None
            else Some (tk\<lparr>tk_remaining_quantity := tk_remaining_quantity tk - Quantity (te_execution_quantity t)\<rparr>)
      else mp_orders mp (i, oid))"
  by (auto simp: trade_incoming_def trade_resting_def Let_def minus_quantity_zero split: option.split)

lemma trade_follows:
  assumes f: "follows mp i V P" and fits: "fits V"
    and t: "te_instrument_id t = i"
    and enough: "\<And>s a n. V (te_incoming_order_id t) = Some (s, a, n) \<Longrightarrow> unat (te_execution_quantity t) \<le> n"
      "\<And>s a n. V (te_resting_order_id t) = Some (s, a, n) \<Longrightarrow> unat (te_execution_quantity t) \<le> n"
    and neq: "te_resting_order_id t \<noteq> te_incoming_order_id t"
  shows "follows (apply_trade mp t) i
    (take_from (take_from V (te_incoming_order_id t) (unat (te_execution_quantity t)))
       (te_resting_order_id t) (unat (te_execution_quantity t))) P"
proof -
  have "follows (trade_incoming mp t) i (take_from V (te_incoming_order_id t) (unat (te_execution_quantity t))) P"
    by (rule follows_take [OF f fits enough(1)]) (auto simp: trade_orders t split: option.split)
  then show ?thesis
    unfolding apply_trade_def
    by (rule follows_take [OF _ fits_take [OF fits]])
      (use enough(2) neq in \<open>auto simp: trade_orders t split: option.split\<close>)
qed

text \<open>
  All trades of one order: if the publisher tracks the incoming order it follows the consumed
  interest, and if it does not, the same without that order.
\<close>

lemma backed_head:
  assumes "backed V s oid (t # ts)"
  shows "te_resting_order_id t \<noteq> oid"
    and "V k = Some (s', a, n) \<Longrightarrow> k = oid \<or> k = te_resting_order_id t \<Longrightarrow> unat (te_execution_quantity t) \<le> n"
    and "0 < unat (te_execution_quantity t)"
    and "backed (take_from (take_from V oid (unat (te_execution_quantity t)))
      (te_resting_order_id t) (unat (te_execution_quantity t))) s oid ts"
  using assms by (auto simp: Let_def split: option.splits)

definition keep_if :: "bool \<Rightarrow> order_id \<Rightarrow> open_interest \<Rightarrow> open_interest" where
  "keep_if kept oid V = (if kept then V else V(oid := None))"

lemma trades_follow:
  assumes "follows mp i (keep_if kept oid V) P" and "fits V" and "backed V s oid ts"
    and "\<forall>t \<in> set ts. te_instrument_id t = i \<and> te_incoming_order_id t = oid"
  shows "follows (foldl apply_trade mp ts) i (keep_if kept oid (consume V oid ts)) P"
  using assms
proof (induction ts arbitrary: mp V)
  case (Cons t ts)
  let ?x = "unat (te_execution_quantity t)" and ?rid = "te_resting_order_id t"
  let ?V = "take_from (take_from V oid ?x) ?rid ?x"
  have t: "te_instrument_id t = i" "te_incoming_order_id t = oid" using Cons.prems(4) by auto
  note head = backed_head [OF Cons.prems(3)]
  have fits: "fits (keep_if kept oid V)"
    using Cons.prems(2) fits_update [OF Cons.prems(2)] by (simp add: keep_if_def del: fun_upd_apply)
  have "follows (apply_trade mp t) i (take_from (take_from (keep_if kept oid V) oid ?x) ?rid ?x) P"
    using trade_follows [OF Cons.prems(1) fits t(1)] head(1,2) by (auto simp: t(2) keep_if_def split: if_splits)
  moreover have "take_from (take_from (V(oid := None)) oid ?x) ?rid ?x = ?V(oid := None)"
    using head(1) by (auto simp: fun_eq_iff take_from_def split: option.split)
  ultimately have "follows (apply_trade mp t) i (keep_if kept oid ?V) P" by (cases kept) (simp_all add: keep_if_def del: fun_upd_apply)
  then show ?case
    using Cons.IH [OF _ fits_take [OF fits_take [OF Cons.prems(2)]] head(4)] Cons.prems(4) by simp
qed simp

lemma trades_other_instrument:
  assumes "\<forall>t \<in> set ts. te_instrument_id t = i" and "j \<noteq> i"
  shows "mp_orders (foldl apply_trade mp ts) (j, oid) = mp_orders mp (j, oid)"
  using assms by (induction ts arbitrary: mp) (simp_all add: apply_trade_def trade_orders)

section \<open>The batches of a book\<close>

definition price_in :: "order_book \<Rightarrow> order_id \<Rightarrow> price" where
  "price_in bk oid = (case order_locations bk oid of None \<Rightarrow> Price 0 | Some loc \<Rightarrow> ol_price loc)"

lemma fits_book: "book_inv bk \<Longrightarrow> fits (book_interest bk)"
  unfolding fits_def qnat_def by (metis book_interest_SomeE qnat_def unat_lt64)

lemma foldl_trades: "foldl market_data_on_event mp (map Trade_Executed ts) = foldl apply_trade mp ts"
  by (induction ts arbitrary: mp) simp_all

lemma accepted_follows:
  assumes f: "follows mp (o_instrument_id order) V P" and fresh: "V (o_order_id order) = None"
  shows "follows (market_data_on_event mp (accepted_event order)) (o_instrument_id order)
    (keep_if (\<not> is_immediate (o_order_type order)) (o_order_id order)
      (V(o_order_id order \<mapsto> (o_side order, a, qnat (o_quantity order)))))
    (P(o_order_id order := o_price order))"
proof -
  have "Quantity (of_nat (qnat (o_quantity order))) = o_quantity order"
    by (simp add: qnat_def)
  then show ?thesis
    using f fresh
    by (auto simp: follows_def keep_if_def accepted_event_def add_order_def Let_def is_immediate_def
        split: option.split)
qed

lemma place_follows:
  assumes inv: "book_inv bk" and pos: "o_quantity order > Quantity 0"
    and f: "follows mp (o_instrument_id order) (book_interest bk) (price_in bk)"
  defines "bk' \<equiv> fst (book_place_order bk order)"
    and "mp' \<equiv> foldl market_data_on_event mp (snd (book_place_order bk order))"
  shows "follows mp' (o_instrument_id order) (book_interest bk') (price_in bk')"
  using inv pos
proof (cases rule: place_cases)
  case (refused reason)
  then show ?thesis using f by (simp add: bk'_def mp'_def book_reject_def)
next
  case (executed v fs n ys)
  let ?i = "o_instrument_id order" and ?oid = "o_order_id order"
  let ?ts = "trade_list order (next_execution_id bk) fs"
  let ?kept = "\<not> is_immediate (o_order_type order)"
  let ?V = "(book_interest bk)(?oid \<mapsto> (o_side order, o_account_id order, qnat (o_quantity order)))"
  have fresh: "order_locations bk ?oid = None"
    using executed(1) view_ids_contains [OF inv] by (elim spec_place_executed_fills) blast
  then have fresh': "book_interest bk ?oid = None" using book_interest_None [OF inv] by simp
  have fits: "fits ?V" using fits_book [OF inv] unat_lt64 by (auto simp: fits_def qnat_def)
  have bkd: "backed ?V (o_side order) ?oid ?ts"
    and int: "book_interest bk' = keep_if ?kept ?oid (consume ?V ?oid ?ts)"
    using book_place_interest [OF inv pos executed(1)] by (simp_all add: bk'_def keep_if_def)
  have "\<forall>t \<in> set ?ts. te_instrument_id t = ?i \<and> te_incoming_order_id t = ?oid"
    using trades_for_trade_list [of order "next_execution_id bk" fs] by (simp add: trades_for_def)
  from trades_follow [OF accepted_follows [OF f fresh'] fits bkd this]
  have "follows mp' ?i (book_interest bk') ((price_in bk)(?oid := o_price order))"
    using executed(3) by (simp add: mp'_def int foldl_trades)
  then show ?thesis
  proof (rule follows_prices)
    fix oid assume "book_interest bk' oid \<noteq> None"
    then obtain loc where loc: "order_locations bk' oid = Some loc"
      using book_interest_None [OF book_place_inv [OF inv pos], of oid, folded bk'_def]
      by (metis not_None_eq)
    from place_locations [OF inv pos this [unfolded bk'_def]] show
      "((price_in bk)(?oid := o_price order)) oid = price_in bk' oid"
      using loc fresh by (auto simp: price_in_def)
  qed
qed

lemma place_other_instruments:
  assumes "book_inv bk" and "o_quantity order > Quantity 0" and "j \<noteq> o_instrument_id order"
  shows "mp_orders (foldl market_data_on_event mp (snd (book_place_order bk order))) (j, oid) = mp_orders mp (j, oid)"
  using assms(1,2)
proof (cases rule: place_cases)
  case (refused reason)
  then show ?thesis by (simp add: book_reject_def)
next
  case (executed v fs n ys)
  have "\<forall>t \<in> set (trade_list order (next_execution_id bk) fs). te_instrument_id t = o_instrument_id order"
    using trades_for_trade_list [of order "next_execution_id bk" fs] by (simp add: trades_for_def)
  then show ?thesis
    using trades_other_instrument [OF _ assms(3)] assms(3) executed(3)
    by (simp add: foldl_trades accepted_event_def add_order_def Let_def)
qed

lemma cancel_follows:
  fixes stale
  assumes inv: "book_inv bk" and f: "follows mp (ca_instrument_id req) (book_interest bk) (price_in bk)"
  defines "res \<equiv> book_cancel_order stale bk req"
  shows "follows (foldl market_data_on_event mp (snd res)) (ca_instrument_id req)
      (book_interest (fst res)) (price_in (fst res)) \<and>
    (\<forall>j. j \<noteq> ca_instrument_id req \<longrightarrow>
       (\<forall>oid. mp_orders (foldl market_data_on_event mp (snd res)) (j, oid) = mp_orders mp (j, oid)))"
proof (cases "order_locations bk (ca_order_id req)")
  case None
  then show ?thesis using f by (simp add: res_def book_cancel_order_def cancel_rejected_def)
next
  case (Some loc)
  show ?thesis
  proof (cases "ca_account_id req = ol_account_id loc")
    case False
    then show ?thesis using f Some by (simp add: res_def book_cancel_order_def cancel_rejected_def)
  next
    case True
    obtain r bk' where "(ol_price loc, r) \<in> set (side_queue (ol_side loc) bk)"
      and "book_cancel_order stale bk req = (bk', [canceled_event stale req (ro_order_type r)])"
      and locs: "order_locations bk' = (order_locations bk)(ca_order_id req := None)"
      by (rule book_cancel_success [OF inv Some True, of stale])
    then have res: "res = (bk', [canceled_event stale req (ro_order_type r)])" by (simp add: res_def)
    have int: "book_interest bk' = (book_interest bk)(ca_order_id req := None)"
      using book_cancel_interest [OF inv Some True, of stale] res by (auto simp: res_def)
    let ?mp = "remove_order mp \<lparr>cn_order = \<lparr>o_instrument_id = ca_instrument_id req, o_order_id = ca_order_id req,
          o_side = ol_side stale, o_price = ol_price stale, o_quantity = Quantity 0,
          o_remaining_quantity = Quantity 0, o_status = Canceled, o_order_type = ro_order_type r,
          o_account_id = ca_account_id req\<rparr>,
        cn_instrument_id = ca_instrument_id req, cn_order_id = ca_order_id req\<rparr>"
    have mp: "mp_orders ?mp = (mp_orders mp)((ca_instrument_id req, ca_order_id req) := None)"
      by (auto simp: remove_order_def Let_def split: option.split)
    have "follows ?mp (ca_instrument_id req) (book_interest bk') (price_in bk')"
      using f by (auto simp: follows_def mp int locs price_in_def split: option.splits)
    then show ?thesis by (simp add: res canceled_event_def mp)
  qed
qed

section \<open>The engine and its publisher\<close>

definition prices_of :: "engine \<Rightarrow> instrument_id \<Rightarrow> order_id \<Rightarrow> price" where
  "prices_of e i = (case en_order_books e i of None \<Rightarrow> (\<lambda>_. Price 0) | Some bk \<Rightarrow> price_in bk)"

definition mirrors :: "publisher \<Rightarrow> engine \<Rightarrow> bool" where
  "mirrors mp e \<longleftrightarrow> (\<forall>i. follows mp i (resting e i) (prices_of e i))"

lemma mirrors_book:
  "mirrors mp e \<Longrightarrow> en_order_books e i = Some bk \<Longrightarrow> follows mp i (book_interest bk) (price_in bk)"
  by (auto simp: mirrors_def resting_def prices_of_def dest: spec [of _ i])

lemma mirrors_update:
  assumes m: "mirrors mp e" and bk: "follows mp' i (book_interest bk') (price_in bk')"
    and books: "en_order_books e' = (en_order_books e)(i \<mapsto> bk')"
    and others: "\<And>j oid. j \<noteq> i \<Longrightarrow> mp_orders mp' (j, oid) = mp_orders mp (j, oid)"
  shows "mirrors mp' e'"
  unfolding mirrors_def
proof
  fix j
  show "follows mp' j (resting e' j) (prices_of e' j)"
  proof (cases "j = i")
    case True
    then show ?thesis using bk by (simp add: resting_def prices_of_def books)
  next
    case False
    then have "resting e' j = resting e j" "prices_of e' j = prices_of e j"
      by (simp_all add: resting_def prices_of_def books)
    then show ?thesis using m others False by (simp add: mirrors_def follows_def)
  qed
qed

lemma mirrors_new: "mirrors new_publisher (new_engine c sink)"
  by (simp add: mirrors_def follows_def new_publisher_def resting_def new_engine_def)

lemma mirrors_register:
  assumes "mirrors mp e"
  shows "mirrors mp (fst (register_instrument e inst))"
proof (cases "registry_add (en_instruments e) inst")
  case (Pair reg ok)
  show ?thesis
  proof (cases "ok \<and> en_order_books e (inst_id inst) = None")
    case True
    have "book_interest empty_book = Map.empty" by (simp add: book_interest_def side_queue_def empty_book_def)
    moreover have "follows mp (inst_id inst) Map.empty P" for P
      using assms True by (auto simp: mirrors_def follows_def resting_def dest: spec [of _ "inst_id inst"])
    ultimately show ?thesis
      by (intro mirrors_update [OF assms, where i = "inst_id inst" and bk' = empty_book])
        (use True in \<open>simp_all add: register_instrument_def Pair emplace_def\<close>)
  next
    case False
    then have "en_order_books (fst (register_instrument e inst)) = en_order_books e"
      by (auto simp: register_instrument_def Pair emplace_def split: bool.split option.split)
    then show ?thesis using assms by (simp add: mirrors_def resting_def prices_of_def)
  qed
qed

lemma mirrors_place:
  assumes inv: "engine_inv e" and m: "mirrors mp e" and call: "engine_place_order e req = Inr (e', events, calls)"
  shows "mirrors (foldl market_data_on_event mp events) e'"
  using inv call
proof (cases rule: engine_place_effect)
  case (1 rj)
  then show ?thesis using m by simp
next
  case (2 bk)
  have i: "o_instrument_id (book_order req) = pl_instrument_id req" by (rule book_order_fields)
  show ?thesis
    using place_follows [OF 2(2,3), unfolded i, OF mirrors_book [OF m 2(1)]]
      place_other_instruments [OF 2(2,3), unfolded i]
    unfolding 2(4) by (intro mirrors_update [OF m _ 2(5)]) blast+
qed

lemma mirrors_cancel:
  assumes inv: "engine_inv e" and m: "mirrors mp e"
    and call: "engine_cancel_order stale e req = Inr (e', events, calls)"
  shows "mirrors (foldl market_data_on_event mp events) e'"
  using inv call
proof (cases rule: engine_cancel_effect)
  case (1 rj)
  then show ?thesis using m by simp
next
  case (2 bk)
  from cancel_follows [OF 2(2) mirrors_book [OF m 2(1)], of stale] show ?thesis
    unfolding 2(3) by (intro mirrors_update [OF m _ 2(4)]) blast+
qed

text \<open>
  An engine with the publisher as its sink, from the first request on, and the batches that have
  been published so far.
\<close>

abbreviation publisher_after :: "publisher \<Rightarrow> sink_call list \<Rightarrow> publisher" where
  "publisher_after \<equiv> foldl (deliver market_data_on_event market_data_on_events)"

inductive published :: "engine_config \<Rightarrow> engine \<Rightarrow> publisher \<Rightarrow> event_batch list \<Rightarrow> bool" for c where
  published_new: "sink \<noteq> No_Sink \<Longrightarrow> published c (new_engine c sink) new_publisher []"
| published_register: "published c e mp h \<Longrightarrow> published c (fst (register_instrument e inst)) mp h"
| published_place: "published c e mp h \<Longrightarrow> engine_place_order e req = Inr (e', events, calls) \<Longrightarrow>
    published c e' (publisher_after mp calls) (h @ [events])"
| published_cancel: "published c e mp h \<Longrightarrow> engine_cancel_order stale e req = Inr (e', events, calls) \<Longrightarrow>
    published c e' (publisher_after mp calls) (h @ [events])"

lemma published_reachable: "published c e mp h \<Longrightarrow> engine_reachable c e"
  by (induction rule: published.induct) (auto intro: engine_reachable.intros engine_step.intros)

text \<open>The calls of the sink deliver exactly the batch that the caller gets.\<close>

lemma place_calls:
  assumes "engine_inv e" and "engine_place_order e req = Inr (e', events, calls)"
  shows "calls = publish (en_event_sink e) events"
  using engine_place_returns [OF assms(1), of req] assms(2) by auto

lemma cancel_calls:
  assumes "engine_inv e" and "engine_cancel_order stale e req = Inr (e', events, calls)"
  shows "calls = publish (en_event_sink e) events"
  using engine_cancel_returns [OF assms(1), of stale req] assms(2) by auto

lemma place_sink: "engine_place_order e req = Inr (e', events, calls) \<Longrightarrow> en_event_sink e' = en_event_sink e"
  by (auto simp: engine_place_order_def place_accepted_def engine_reject_def Let_def
      split: if_splits sum.splits option.splits prod.splits)

lemma cancel_sink:
  "engine_cancel_order stale e req = Inr (e', events, calls) \<Longrightarrow> en_event_sink e' = en_event_sink e"
  by (auto simp: engine_cancel_order_def engine_reject_def Let_def
      split: if_splits option.splits prod.splits)

lemma register_sink: "en_event_sink (fst (register_instrument e inst)) = en_event_sink e"
  by (simp add: register_instrument_def split: prod.splits bool.splits)

lemma published_sink: "published c e mp h \<Longrightarrow> en_event_sink e \<noteq> No_Sink"
  by (induction rule: published.induct)
    (simp_all add: new_engine_def register_sink place_sink cancel_sink)

lemma mirrors_tracked_state: "tracked_state mp = tracked_state mp' \<Longrightarrow> mirrors mp e = mirrors mp' e"
  by (simp add: tracked_state_def mirrors_def follows_def)

lemma published_delivered:
  assumes "published c e mp h" and "calls = publish (en_event_sink e) events"
  shows "tracked_state (publisher_after mp calls) = tracked_state (foldl market_data_on_event mp events)"
  unfolding assms(2) by (rule market_data_sink.deliver_publish [OF published_sink [OF assms(1)]])

lemma published_mirrors: "published c e mp h \<Longrightarrow> mirrors mp e"
proof (induction rule: published.induct)
  case (published_place e mp h req e' events calls)
  have inv: "engine_inv e" using engine_reachable_inv [OF published_reachable [OF published_place(1)]] by blast
  show ?case
    using mirrors_place [OF inv published_place.IH published_place(2)]
      mirrors_tracked_state [OF published_delivered [OF published_place(1) place_calls [OF inv published_place(2)]]]
    by blast
next
  case (published_cancel e mp h stale req e' events calls)
  have inv: "engine_inv e" using engine_reachable_inv [OF published_reachable [OF published_cancel(1)]] by blast
  show ?case
    using mirrors_cancel [OF inv published_cancel.IH published_cancel(2)]
      mirrors_tracked_state [OF published_delivered [OF published_cancel(1) cancel_calls [OF inv published_cancel(2)]]]
    by blast
qed (simp_all add: mirrors_new mirrors_register)

text \<open>In terms of the queues of the books.\<close>

lemma mirrors_queues:
  assumes m: "mirrors mp e" and inv: "engine_inv e"
  shows "mp_orders mp (i, oid) = Some tk \<longleftrightarrow>
    (\<exists>bk r. en_order_books e i = Some bk \<and> (tk_price tk, r) \<in> set (side_queue (tk_side tk) bk) \<and>
       ro_order_id r = oid \<and> ro_remaining_quantity r = tk_remaining_quantity tk)"
proof (cases "en_order_books e i")
  case None
  then show ?thesis using m by (simp add: mirrors_def follows_def resting_def)
next
  case (Some bk)
  have b: "book_inv bk" using books_agree_at(1) [OF engine_invD(2) [OF inv] Some] .
  note f = follows_at [OF mirrors_book [OF m Some], of oid]
  have word: "Quantity (of_nat (qnat q)) = q" for q by (cases q) (simp add: qnat_def)
  show ?thesis
  proof
    assume tk: "mp_orders mp (i, oid) = Some tk"
    then obtain s a n where v: "book_interest bk oid = Some (s, a, n)"
      using f by (auto split: option.splits)
    obtain p r where r: "(p, r) \<in> set (side_queue s bk)" "ro_order_id r = oid" "qnat (ro_remaining_quantity r) = n"
      by (rule book_interest_SomeE [OF b v])
    have "tk_side tk = s" "tk_price tk = p" "tk_remaining_quantity tk = ro_remaining_quantity r"
      using tk f v book_interest_entry(2) [OF b r(1)] r(2,3) word [of "ro_remaining_quantity r"]
      by (auto simp: price_in_def)
    then show "\<exists>bk r. en_order_books e i = Some bk \<and> (tk_price tk, r) \<in> set (side_queue (tk_side tk) bk) \<and>
       ro_order_id r = oid \<and> ro_remaining_quantity r = tk_remaining_quantity tk"
      using r Some by auto
  next
    assume "\<exists>bk r. en_order_books e i = Some bk \<and> (tk_price tk, r) \<in> set (side_queue (tk_side tk) bk) \<and>
       ro_order_id r = oid \<and> ro_remaining_quantity r = tk_remaining_quantity tk"
    then obtain r where r: "(tk_price tk, r) \<in> set (side_queue (tk_side tk) bk)" "ro_order_id r = oid"
        "ro_remaining_quantity r = tk_remaining_quantity tk" using Some by auto
    show "mp_orders mp (i, oid) = Some tk"
      using f book_interest_entry [OF b r(1)] r(2,3) word
      by (simp add: price_in_def)
  qed
qed

section \<open>Depth and excess\<close>

text \<open>The quantity that rests on a level of a book, in the arithmetic of the aggregates.\<close>

definition level_depth :: "engine \<Rightarrow> level_key \<Rightarrow> u64" where
  "level_depth e k =
     (case en_order_books e (lk_instrument_id k) of
        None \<Rightarrow> 0
      | Some bk \<Rightarrow> \<Sum>(p, r)\<leftarrow>side_queue (lk_side k) bk.
          if p = lk_price k then quantity_value (ro_remaining_quantity r) else 0)"

text \<open>
  What a batch leaves in the aggregates too much: on the level of an accepted order that may
  rest, everything the order took on arrival, without the trade that filled it.
\<close>

fun excess :: "event_batch \<Rightarrow> level_key \<Rightarrow> u64" where
  "excess (Order_Accepted a # evs) k =
     (if is_immediate (o_order_type (ac_order a)) \<or>
        k \<noteq> Level_Key (ac_instrument_id a) (o_side (ac_order a)) (o_price (ac_order a)) then 0
      else let takes = map te_execution_quantity (trades_of evs) in
        if sum_list (map unat takes) = qnat (o_quantity (ac_order a))
        then sum_list (butlast takes) else sum_list takes)"
| "excess _ k = 0"

lemma drift_trade_tracked:
  assumes f: "follows mp i V P" and v: "V (te_incoming_order_id t) = Some (s, a, n)" and n: "n < 2 ^ 64"
    and t: "te_instrument_id t = i"
  shows "drift (apply_trade mp t) k = drift mp k +
    (if k = Level_Key i s (P (te_incoming_order_id t)) \<and> n \<noteq> unat (te_execution_quantity t)
     then te_execution_quantity t else 0)"
proof -
  let ?x = "te_execution_quantity t"
  have n64: "unat (of_nat n :: u64) = n" using n by (simp add: unat_of_nat)
  have whole: "(of_nat n :: u64) = ?x \<longleftrightarrow> n = unat ?x" unfolding word_unat_eq_iff n64 ..
  have "mp_orders mp (i, te_incoming_order_id t) =
      Some \<lparr>tk_side = s, tk_price = P (te_incoming_order_id t), tk_remaining_quantity = Quantity (of_nat n)\<rparr>"
    by (simp add: follows_at [OF f] v)
  then show ?thesis
    by (auto simp: apply_trade_def drift_resting drift_incoming t tracked_level_def whole)
qed

lemma drift_trades:
  assumes "follows mp i V P" and "fits V" and "backed V s oid ts" and "V oid = Some (s, a, n)"
    and "\<forall>t \<in> set ts. te_instrument_id t = i \<and> te_incoming_order_id t = oid"
  shows "drift (foldl apply_trade mp ts) k = drift mp k +
    (if k = Level_Key i s (P oid)
     then if sum_list (map (unat \<circ> te_execution_quantity) ts) = n
       then sum_list (butlast (map te_execution_quantity ts)) else sum_list (map te_execution_quantity ts)
     else 0)"
  using assms
proof (induction ts arbitrary: mp V n)
  case (Cons t ts)
  let ?x = "unat (te_execution_quantity t)" and ?rid = "te_resting_order_id t"
  let ?V = "take_from (take_from V oid ?x) ?rid ?x"
  have t: "te_instrument_id t = i" "te_incoming_order_id t = oid" using Cons.prems(5) by auto
  note head = backed_head [OF Cons.prems(3)]
  have n: "n < 2 ^ 64" "?x \<le> n"
    using Cons.prems(2,4) head(2) by (auto simp: fits_def)
  have step: "drift (apply_trade mp t) k = drift mp k +
      (if k = Level_Key i s (P oid) \<and> n \<noteq> ?x then te_execution_quantity t else 0)"
    using drift_trade_tracked [OF Cons.prems(1) _ n(1) t(1), of s a k] Cons.prems(4) t(2) by simp
  have f: "follows (apply_trade mp t) i ?V P"
    using trade_follows [OF Cons.prems(1,2) t(1)] head(1,2) t(2) by auto
  have oid: "?V oid = (if n \<le> ?x then None else Some (s, a, n - ?x))"
    using head(1) Cons.prems(4) by (simp add: take_from_same)
  show ?case
  proof (cases "n = ?x")
    case True
    then have "ts = []" using head(4) oid by (cases ts) (auto simp: Let_def)
    then show ?thesis using step True by simp
  next
    case False
    then have v: "?V oid = Some (s, a, n - ?x)" "n - ?x \<noteq> 0" using oid n(2) by auto
    have "\<forall>t \<in> set ts. te_instrument_id t = i \<and> te_incoming_order_id t = oid"
      using Cons.prems(5) by simp
    note ih = Cons.IH [OF f fits_take [OF fits_take [OF Cons.prems(2)]] head(4) v(1) this]
    have total: "sum_list (map (unat \<circ> te_execution_quantity) (t # ts)) = n \<longleftrightarrow>
        sum_list (map (unat \<circ> te_execution_quantity) ts) = n - ?x"
      using n(2) by auto
    show ?thesis
    proof (cases ts)
      case Nil
      then show ?thesis using step False by simp
    next
      case (Cons u us)
      then show ?thesis
        using False unfolding total foldl_Cons ih step
        by (cases "k = Level_Key i s (P oid)") (simp_all only: if_True if_False simp_thms add_0_right,
            simp add: add.assoc)
    qed
  qed
qed simp

lemma drift_untracked:
  assumes "\<forall>t \<in> set ts. mp_orders mp (te_instrument_id t, te_incoming_order_id t) = None"
  shows "drift (foldl apply_trade mp ts) k = drift mp k"
  using assms
proof (induction ts arbitrary: mp)
  case (Cons t ts)
  have "mp_orders (trade_resting mp t) key = None" if "mp_orders mp key = None" for mp t key
    using that by (cases key) (auto simp: trade_orders)
  moreover have "mp_orders (trade_incoming mp t) key = None" if "mp_orders mp key = None" for mp t key
    using that by (cases key) (auto simp: trade_orders)
  ultimately have "mp_orders (apply_trade mp t) key = None" if "mp_orders mp key = None" for key
    using that by (simp add: apply_trade_def)
  then show ?case using Cons by (simp add: apply_trade_def drift_resting drift_incoming)
qed simp

lemma place_drift:
  assumes inv: "book_inv bk" and pos: "o_quantity order > Quantity 0"
    and f: "follows mp (o_instrument_id order) (book_interest bk) (price_in bk)"
  shows "drift (foldl market_data_on_event mp (snd (book_place_order bk order))) k =
    drift mp k + excess (snd (book_place_order bk order)) k"
  using inv pos
proof (cases rule: place_cases)
  case (refused reason)
  then show ?thesis by (simp add: book_reject_def)
next
  case (executed v fs n ys)
  let ?i = "o_instrument_id order" and ?oid = "o_order_id order"
  let ?ts = "trade_list order (next_execution_id bk) fs"
  let ?mp = "market_data_on_event mp (accepted_event order)"
  let ?V = "(book_interest bk)(?oid \<mapsto> (o_side order, o_account_id order, qnat (o_quantity order)))"
  have "order_locations bk ?oid = None"
    using executed(1) view_ids_contains [OF inv] by (elim spec_place_executed_fills) blast
  then have fresh: "book_interest bk ?oid = None" using book_interest_None [OF inv] by simp
  have drift: "drift ?mp k = drift mp k"
    using f fresh by (simp add: accepted_event_def drift_accepted follows_at)
  have ids: "\<forall>t \<in> set ?ts. te_instrument_id t = ?i \<and> te_incoming_order_id t = ?oid"
    using trades_for_trade_list [of order "next_execution_id bk" fs] by (simp add: trades_for_def)
  note acc = accepted_follows [OF f fresh, of "o_account_id order"]
  have run: "foldl market_data_on_event mp (snd (book_place_order bk order)) = foldl apply_trade ?mp ?ts"
    using executed(3) by (simp add: foldl_trades)
  show ?thesis
  proof (cases "is_immediate (o_order_type order)")
    case True
    then have "drift (foldl apply_trade ?mp ?ts) k = drift mp k"
      using drift_untracked [of ?ts ?mp] ids follows_at [OF acc, of ?oid] drift by (simp add: keep_if_def)
    moreover have "excess (snd (book_place_order bk order)) k = 0"
      using True executed(3) by (simp add: accepted_event_def)
    ultimately show ?thesis using run by simp
  next
    case False
    have fits: "fits ?V" using fits_book [OF inv] unat_lt64 by (auto simp: fits_def qnat_def)
    have "follows ?mp ?i ?V ((price_in bk)(?oid := o_price order))" using acc False by (simp add: keep_if_def)
    from drift_trades [OF this fits book_place_interest(1) [OF inv pos executed(1)] _ ids, of "o_account_id order" "qnat (o_quantity order)" k]
    show ?thesis
      using False executed(3) drift run by (simp add: accepted_event_def Let_def comp_def)
  qed
qed

text \<open>Over a whole history the excesses add up.\<close>

lemma published_drift: "published c e mp h \<Longrightarrow> drift mp k = (\<Sum>events\<leftarrow>h. excess events k)"
proof (induction rule: published.induct)
  case (published_new sink)
  then show ?case by (simp add: drift_new)
next
  case (published_register e mp h inst)
  then show ?case by simp
next
  case (published_place e mp h req e' events calls)
  have inv: "engine_inv e" using engine_reachable_inv [OF published_reachable [OF published_place(1)]] by blast
  have m: "mirrors mp e" by (rule published_mirrors [OF published_place(1)])
  have "drift (foldl market_data_on_event mp events) k = drift mp k + excess events k"
    using inv published_place(2)
  proof (cases rule: engine_place_effect)
    case (1 rj)
    then show ?thesis by simp
  next
    case (2 bk)
    have i: "o_instrument_id (book_order req) = pl_instrument_id req" by (rule book_order_fields)
    show ?thesis
      unfolding 2(4) by (rule place_drift [OF 2(2,3), unfolded i, OF mirrors_book [OF m 2(1)]])
  qed
  then show ?case
    using drift_tracked_state [OF published_delivered [OF published_place(1) place_calls [OF inv published_place(2)]]]
      published_place.IH by simp
next
  case (published_cancel e mp h stale req e' events calls)
  have inv: "engine_inv e" using engine_reachable_inv [OF published_reachable [OF published_cancel(1)]] by blast
  have "(\<exists>cn. events = [Order_Canceled cn]) \<or> (\<exists>rj. events = [Order_Rejected rj])"
    using inv published_cancel(2)
  proof (cases rule: engine_cancel_effect)
    case (1 rj)
    then show ?thesis by simp
  next
    case (2 bk)
    from order_book.cancel_contract [OF 2(2), of stale req] show ?thesis unfolding 2(3) by force
  qed
  then have "drift (foldl market_data_on_event mp events) k = drift mp k + excess events k"
    by (auto simp: drift_canceled)
  then show ?case
    using drift_tracked_state [OF published_delivered [OF published_cancel(1) cancel_calls [OF inv published_cancel(2)]]]
      published_cancel.IH by simp
qed

text \<open>What the tracked orders of a level have left is the depth of the level.\<close>

lemma mirrors_depth:
  assumes m: "mirrors mp e" and inv: "engine_inv e"
  shows "level_total mp k = level_depth e k"
proof (cases "en_order_books e (lk_instrument_id k)")
  case None
  have "order_share k key (mp_orders mp key) = 0" for key
    using mirrors_queues [OF m inv, of "fst key" "snd key"] None
    by (auto simp: order_share_def tracked_level_def split: option.split)
  then show ?thesis by (simp add: level_total_def level_depth_def None)
next
  case (Some bk)
  let ?i = "lk_instrument_id k" and ?q = "side_queue (lk_side k) bk"
  let ?key = "\<lambda>e. (?i, ro_order_id (snd e))"
  let ?share = "\<lambda>key. order_share k key (mp_orders mp key)"
  have b: "book_inv bk" using books_agree_at(1) [OF engine_invD(2) [OF inv] Some] .
  note entry = mirrors_queues [OF m inv]
  have at: "?share (?key (p, r)) = (if p = lk_price k then quantity_value (ro_remaining_quantity r) else 0)"
    if "(p, r) \<in> set ?q" for p r
  proof -
    have "mp_orders mp (?key (p, r)) = Some \<lparr>tk_side = lk_side k, tk_price = p,
        tk_remaining_quantity = ro_remaining_quantity r\<rparr>"
      using that Some by (auto simp: entry)
    then show ?thesis by (cases k) (auto simp: order_share_def tracked_level_def)
  qed
  have "?share key = 0" if "key \<notin> ?key ` set ?q" for key
  proof (rule ccontr)
    assume "?share key \<noteq> 0"
    then obtain tk where "mp_orders mp key = Some tk" "tracked_level (fst key) tk = k"
      by (auto simp: order_share_def split: option.splits if_splits)
    then show False
      using that entry [of "fst key" "snd key" tk] Some by (cases key) (force simp: tracked_level_def)
  qed
  then have "level_total mp k = (\<Sum>key \<in> ?key ` set ?q. ?share key)"
    unfolding level_total_def by (intro sum.mono_neutral_right) auto
  also have "\<dots> = (\<Sum>e \<in> set ?q. ?share (?key e))"
    using side_queue_distinct [OF b, of "lk_side k"]
    by (subst sum.reindex) (auto simp: distinct_map inj_on_def)
  also have "\<dots> = (\<Sum>e\<leftarrow>?q. ?share (?key e))"
    using side_queue_distinct [OF b, of "lk_side k"] by (simp add: sum_list_distinct_conv_sum_set distinct_map)
  also have "\<dots> = level_depth e k"
    unfolding level_depth_def Some option.case
    by (intro arg_cong [where f = sum_list] map_cong refl) (use at in auto)
  finally show ?thesis .
qed

section \<open>Properties of the composition\<close>

text \<open>
  C9: the publisher tracks the books. A publisher that is the sink of an engine from its first
  request on, in whatever way the engine delivers its batches, tracks exactly the orders that
  rest in the books, each with the side, the price and the remaining quantity it has there: no
  order is forgotten, none stays after it was filled or canceled, and immediate orders never
  appear, whatever the stale side and price in the cancel events.
\<close>

theorem tracked_orders_mirror_books:
  assumes "published c e mp h"
  shows "mp_orders mp (i, oid) = Some tk \<longleftrightarrow>
    (\<exists>bk r. en_order_books e i = Some bk \<and> (tk_price tk, r) \<in> set (side_queue (tk_side tk) bk) \<and>
       ro_order_id r = oid \<and> ro_remaining_quantity r = tk_remaining_quantity tk)"
  using mirrors_queues [OF published_mirrors [OF assms]]
    engine_reachable_inv [OF published_reachable [OF assms]] by blast

text \<open>
  C15: what the published aggregates mean. In the same situation the aggregate of every level is
  the quantity that rests on the level in the book plus, for each order that arrived on the level
  and traded before it came to rest, what it took on arrival (without the trade that filled it,
  if one did). So a level is published exactly as long as no order that may rest takes in part,
  and is overstated for good by every such take.
\<close>

theorem aggregates_are_depth_plus_excess:
  assumes "published c e mp h"
  shows "aggregate mp k = level_depth e k + (\<Sum>events\<leftarrow>h. excess events k)"
  using published_drift [OF assms, of k] mirrors_depth [OF published_mirrors [OF assms], of k]
    engine_reachable_inv [OF published_reachable [OF assms]]
  by (simp add: drift_def diff_eq_eq add.commute)

text \<open>An ask for 5 at 100, then a bid for 8 at 100, of which 3 come to rest.\<close>

definition demo_history :: "event_batch list" where
  "demo_history =
     [[accepted_event (book_order (demo_request 1 Sell 100 5 Limit 7))],
      [accepted_event (book_order (demo_request 2 Buy 100 8 Limit 9)),
       Trade_Executed (make_trade (book_order (demo_request 2 Buy 100 8 Limit 9)) 1 (Price 100)
         (demo_ask 1 5) (Quantity 5))]]"

lemma demo_published:
  "\<exists>e mp. published demo_limits e mp demo_history \<and>
     (\<exists>bk. en_order_books e 1 = Some bk \<and> side_queue Sell bk = [] \<and>
       side_queue Buy bk = [(Price 100, (demo_ask 2 3)\<lparr>ro_account_id := 9\<rparr>)])"
proof -
  have start: "published demo_limits fresh_engine new_publisher []"
    unfolding fresh_engine_def by (rule published_register [OF published_new]) simp
  obtain e1 calls1 where e1: "engine_place_order fresh_engine (demo_request 1 Sell 100 5 Limit 7) =
        Inr (e1, [accepted_event (book_order (demo_request 1 Sell 100 5 Limit 7))], calls1)"
      "\<exists>calls2 e2 bk. engine_place_order e1 (demo_request 2 Buy 100 8 Limit 9) =
        Inr (e2, [accepted_event (book_order (demo_request 2 Buy 100 8 Limit 9)),
          Trade_Executed (make_trade (book_order (demo_request 2 Buy 100 8 Limit 9)) 1 (Price 100)
            (demo_ask 1 5) (Quantity 5))], calls2) \<and>
        en_order_books e2 1 = Some bk \<and> side_queue Sell bk = [] \<and>
        side_queue Buy bk = [(Price 100, (demo_ask 2 3)\<lparr>ro_account_id := 9\<rparr>)]"
    by (simp add: fresh_engine_eval engine_eval book_eval new_account_risk_def demo_limits_def
        default_config_def demo_ask_def side_queue_def)
  show ?thesis
    using published_place [OF published_place [OF start e1(1)]] e1(2)
    unfolding demo_history_def by fastforce
qed

theorem tracked_orders_mirror_books_witness:
  "\<exists>e mp. published demo_limits e mp demo_history \<and> mp_orders mp (1, 1) = None \<and>
     mp_orders mp (1, 2) = Some \<lparr>tk_side = Buy, tk_price = Price 100, tk_remaining_quantity = Quantity 3\<rparr>"
proof -
  obtain e mp bk where pub: "published demo_limits e mp demo_history" and bk: "en_order_books e 1 = Some bk"
    and queues: "side_queue Sell bk = []" "side_queue Buy bk = [(Price 100, (demo_ask 2 3)\<lparr>ro_account_id := 9\<rparr>)]"
    using demo_published by blast
  have queue: "side_queue s bk = (if s = Buy then [(Price 100, (demo_ask 2 3)\<lparr>ro_account_id := 9\<rparr>)] else [])" for s
    using queues by (cases s) simp_all
  have "mp_orders mp (1, 1) \<noteq> Some tk" for tk
    using tracked_orders_mirror_books [OF pub, of 1 1 tk] by (simp add: bk queue demo_ask_def)
  moreover have "mp_orders mp (1, 2) = Some \<lparr>tk_side = Buy, tk_price = Price 100, tk_remaining_quantity = Quantity 3\<rparr>"
    by (subst tracked_orders_mirror_books [OF pub]) (simp add: bk queue demo_ask_def)
  ultimately show ?thesis using pub by (metis not_Some_eq)
qed

theorem aggregates_are_depth_plus_excess_witness:
  "\<exists>e mp. published demo_limits e mp demo_history \<and>
     level_depth e (Level_Key 1 Buy (Price 100)) = 3 \<and> aggregate mp (Level_Key 1 Buy (Price 100)) = 8 \<and>
     aggregate mp (Level_Key 1 Sell (Price 100)) = 0"
proof -
  obtain e mp bk where pub: "published demo_limits e mp demo_history" and bk: "en_order_books e 1 = Some bk"
    and queues: "side_queue Sell bk = []" "side_queue Buy bk = [(Price 100, (demo_ask 2 3)\<lparr>ro_account_id := 9\<rparr>)]"
    using demo_published by blast
  have depth: "level_depth e (Level_Key 1 Buy (Price 100)) = 3" "level_depth e (Level_Key 1 Sell (Price 100)) = 0"
    by (simp_all add: level_depth_def bk queues demo_ask_def)
  have "(\<Sum>events\<leftarrow>demo_history. excess events (Level_Key 1 Buy (Price 100))) = 5"
      "(\<Sum>events\<leftarrow>demo_history. excess events (Level_Key 1 Sell (Price 100))) = 0"
    by (simp_all add: demo_history_def accepted_event_def request_order_def demo_request_def make_trade_def
        is_immediate_def qnat_def)
  then show ?thesis
    using pub depth aggregates_are_depth_plus_excess [OF pub, of "Level_Key 1 Buy (Price 100)"]
      aggregates_are_depth_plus_excess [OF pub, of "Level_Key 1 Sell (Price 100)"] by auto
qed

end
