(* ===== verification/Text_Codec.thy ===== *)
theory Text_Codec
  imports Exchange_Prelude
begin

text \<open>
  The text routines of the C++ library that the journal and the snapshot store use: printing
  integers with \<open><<\<close>, \<open>std::stoull\<close>, reading tokens with \<open>>>\<close> and lines with \<open>std::getline\<close>, and
  the \<open>trim\<close> that both files define. Characters are bytes in the C locale. The lemmas are the
  round trip of decimal numbers and how tokens and lines split joined texts.
\<close>

section \<open>Characters\<close>

definition code_of :: "char \<Rightarrow> nat" where
  "code_of c = of_char c"

definition is_space :: "char \<Rightarrow> bool" where
  "is_space c \<longleftrightarrow> code_of c = 32 \<or> (9 \<le> code_of c \<and> code_of c \<le> 13)"

definition is_digit :: "char \<Rightarrow> bool" where
  "is_digit c \<longleftrightarrow> 48 \<le> code_of c \<and> code_of c \<le> 57"

definition line_feed :: char where
  "line_feed = CHR 0x0A"

text \<open>The characters that \<open>trim\<close> removes: space, tab, carriage return and line feed.\<close>

definition is_blank :: "char \<Rightarrow> bool" where
  "is_blank c \<longleftrightarrow> code_of c = 32 \<or> code_of c = 9 \<or> code_of c = 13 \<or> code_of c = 10"

definition trim :: "string \<Rightarrow> string" where
  "trim s = rev (dropWhile is_blank (rev (dropWhile is_blank s)))"

section \<open>Numbers\<close>

fun decimal :: "nat \<Rightarrow> string" where
  "decimal n = (if n < 10 then [char_of (48 + n)] else decimal (n div 10) @ [char_of (48 + n mod 10)])"

declare decimal.simps [simp del]

definition print_u64 :: "u64 \<Rightarrow> string" where
  "print_u64 x = decimal (unat x)"

definition print_i64 :: "i64 \<Rightarrow> string" where
  "print_i64 x = (if x <s 0 then CHR ''-'' # decimal (nat (- sint x)) else decimal (nat (sint x)))"

definition digits_value :: "string \<Rightarrow> nat" where
  "digits_value ds = foldl (\<lambda>v c. 10 * v + (code_of c - 48)) 0 ds"

text \<open>
  \<open>std::stoull\<close> in base ten: leading white space, an optional sign, digits; a minus sign negates
  modulo \<open>2^64\<close>. \<open>None\<close> is an exception: no digits, or a magnitude beyond 64 bits. The second
  component is the number of characters consumed.
\<close>

definition stoull :: "string \<Rightarrow> (u64 \<times> nat) option" where
  "stoull s =
     (let s1 = dropWhile is_space s;
          negative = (s1 \<noteq> [] \<and> hd s1 = CHR ''-'');
          s2 = (if s1 \<noteq> [] \<and> (hd s1 = CHR ''-'' \<or> hd s1 = CHR ''+'') then tl s1 else s1);
          ds = takeWhile is_digit s2;
          v = digits_value ds
      in if ds = [] \<or> v \<ge> 2 ^ 64 then None
         else Some (if negative then - of_nat v else of_nat v, length s - length (dropWhile is_digit s2)))"

section \<open>Tokens and lines\<close>

text \<open>All tokens that \<open>stream >> token\<close> delivers.\<close>

function tokens :: "string \<Rightarrow> string list" where
  "tokens s =
     (case dropWhile is_space s of
        [] \<Rightarrow> []
      | c # cs \<Rightarrow>
          (c # takeWhile (\<lambda>c. \<not> is_space c) cs) # tokens (dropWhile (\<lambda>c. \<not> is_space c) cs))"
  by auto
termination
proof (relation "measure length")
  fix s c cs
  assume "dropWhile is_space s = c # cs"
  then have "length (c # cs) \<le> length s" by (metis length_dropWhile_le)
  then show "(dropWhile (\<lambda>c. \<not> is_space c) cs, s) \<in> measure length"
    using length_dropWhile_le [of "\<lambda>c. \<not> is_space c" cs] by simp
qed simp

declare tokens.simps [simp del]

text \<open>All lines that \<open>std::getline\<close> delivers; the last one need not be terminated.\<close>

function getlines :: "string \<Rightarrow> string list" where
  "getlines s =
     (if s = [] then []
      else takeWhile (\<lambda>c. c \<noteq> line_feed) s # getlines (tl (dropWhile (\<lambda>c. c \<noteq> line_feed) s)))"
  by auto
termination
proof (relation "measure length")
  fix s :: string
  assume "s \<noteq> []"
  then show "(tl (dropWhile (\<lambda>c. c \<noteq> line_feed) s), s) \<in> measure length"
    using length_dropWhile_le [of "\<lambda>c. c \<noteq> line_feed" s] by (cases s) auto
qed simp

declare getlines.simps [simp del]

section \<open>Lemmas\<close>

lemma code_of_char_of: "n < 256 \<Longrightarrow> code_of (char_of n) = n"
  by (simp add: code_of_def)

lemma is_digit_not_space: "is_digit c \<Longrightarrow> \<not> is_space c"
  by (auto simp: is_digit_def is_space_def)

lemma is_blank_space: "is_blank c \<Longrightarrow> is_space c"
  by (auto simp: is_blank_def is_space_def)

lemma decimal_digits: "c \<in> set (decimal n) \<Longrightarrow> is_digit c"
proof (induction n rule: decimal.induct)
  case (1 n)
  then show ?case
    by (subst (asm) (2) decimal.simps)
      (auto simp: is_digit_def code_of_char_of split: if_splits)
qed

lemma decimal_nonempty: "decimal n \<noteq> []"
  by (subst decimal.simps) simp

lemma digits_value_snoc: "digits_value (ds @ [c]) = 10 * digits_value ds + (code_of c - 48)"
  by (simp add: digits_value_def)

lemma digits_value_decimal: "digits_value (decimal n) = n"
proof (induction n rule: decimal.induct)
  case (1 n)
  show ?case
  proof (cases "n < 10")
    case True
    then show ?thesis by (subst decimal.simps) (simp add: digits_value_def code_of_char_of)
  next
    case False
    then show ?thesis
      using 1 by (subst decimal.simps) (simp add: digits_value_snoc code_of_char_of)
  qed
qed

lemma takeWhile_decimal: "takeWhile is_digit (decimal n) = decimal n" "dropWhile is_digit (decimal n) = []"
  by (simp_all add: decimal_digits takeWhile_eq_all_conv dropWhile_eq_Nil_conv)

lemma sign_not_digit: "\<not> is_digit (CHR ''-'')" "\<not> is_digit (CHR ''+'')" "\<not> is_space (CHR ''-'')"
  by (simp_all add: is_digit_def is_space_def code_of_def)

lemma stoull_digits:
  assumes "ds \<noteq> []" and "\<And>c. c \<in> set ds \<Longrightarrow> is_digit c" and "digits_value ds < 2 ^ 64"
  shows "stoull ds = Some (of_nat (digits_value ds), length ds)"
proof -
  have hd: "is_digit (hd ds)" using assms(1,2) by simp
  then have "hd ds \<noteq> CHR ''-''" "hd ds \<noteq> CHR ''+''" using sign_not_digit by metis+
  moreover have "dropWhile is_space ds = ds"
    using hd assms(1) by (cases ds) (auto dest: is_digit_not_space)
  moreover have all: "takeWhile is_digit ds = ds" "dropWhile is_digit ds = []"
    using assms(2) by (simp_all add: takeWhile_eq_all_conv dropWhile_eq_Nil_conv)
  ultimately show ?thesis using assms(1,3) by (simp add: stoull_def all Let_def del: takeWhile_eq_all_conv)
qed

lemma stoull_decimal: "n < 2 ^ 64 \<Longrightarrow> stoull (decimal n) = Some (of_nat n, length (decimal n))"
  using stoull_digits [of "decimal n"] by (simp add: digits_value_decimal decimal_nonempty decimal_digits)

lemma digits_value_append: "digits_value xs \<le> digits_value (xs @ ys)"
proof (induction ys rule: rev_induct)
  case (snoc c ys)
  then show ?case using digits_value_snoc [of "xs @ ys" c] by simp
qed simp

lemma stoull_negative:
  assumes "n < 2 ^ 64"
  shows "stoull (CHR ''-'' # decimal n) = Some (- of_nat n, length (CHR ''-'' # decimal n))"
  using assms
  by (simp add: stoull_def takeWhile_decimal digits_value_decimal decimal_nonempty sign_not_digit)

text \<open>Both printed integers are read back as the same 64-bit word.\<close>

lemma stoull_print_u64: "stoull (print_u64 x) = Some (x, length (print_u64 x))"
  unfolding print_u64_def using stoull_decimal [OF unat_lt64, of x] by simp

lemma stoull_print_i64: "stoull (print_i64 x) = Some (x, length (print_i64 x))"
proof (cases "sint x < 0")
  case True
  have "nat (- sint x) < 2 ^ 64" using sint_range64(1) [of x] by simp
  moreover have "- of_nat (nat (- sint x)) = x"
    using True by (simp add: of_nat_nat)
  ultimately show ?thesis
    using True stoull_negative [of "nat (- sint x)"] by (simp add: print_i64_def word_sless_alt)
next
  case False
  have "nat (sint x) < 2 ^ 64" using sint_range64(2) [of x] by simp
  moreover have "of_nat (nat (sint x)) = x" using False by (simp add: of_nat_nat)
  ultimately show ?thesis
    using False stoull_decimal [of "nat (sint x)"] by (simp add: print_i64_def word_sless_alt)
qed

lemma print_chars: "c \<in> set (print_u64 x) \<Longrightarrow> is_digit c"
  "c \<in> set (print_i64 y) \<Longrightarrow> is_digit c \<or> c = CHR ''-''"
  by (auto simp: print_u64_def print_i64_def decimal_digits split: if_splits)

lemma print_nonempty: "print_u64 x \<noteq> []" "print_i64 y \<noteq> []"
  by (simp_all add: print_u64_def print_i64_def decimal_nonempty)

lemma length_decimal: "n < 10 ^ k \<Longrightarrow> 0 < k \<Longrightarrow> length (decimal n) \<le> k"
proof (induction k arbitrary: n)
  case (Suc k)
  show ?case
  proof (cases "n < 10")
    case False
    then have "n div 10 < 10 ^ k" "0 < k" using Suc.prems(1) by (auto intro: gr0I)
    then show ?thesis using Suc.IH False by (subst decimal.simps) simp
  qed (subst decimal.simps, simp)
qed simp

lemma length_print_u64: "length (print_u64 x) \<le> 20"
  unfolding print_u64_def using unat_lt64 [of x] by (intro length_decimal) simp_all

text \<open>A word is a nonempty text without white space.\<close>

definition is_word :: "string \<Rightarrow> bool" where
  "is_word w \<longleftrightarrow> w \<noteq> [] \<and> (\<forall>c \<in> set w. \<not> is_space c)"

lemma tokens_Nil: "tokens [] = []"
  by (subst tokens.simps) simp

lemma tokens_word_space: "is_word w \<Longrightarrow> tokens (w @ CHR '' '' # s) = w # tokens s"
proof (cases w)
  case (Cons c cs)
  assume w: "is_word w"
  have sp: "is_space (CHR '' '')" by (simp add: is_space_def code_of_def)
  have "tokens (w @ CHR '' '' # s) = w # tokens (CHR '' '' # s)"
    using w Cons sp by (subst tokens.simps) (simp add: is_word_def)
  also have "tokens (CHR '' '' # s) = tokens s"
    using sp by (subst tokens.simps, subst (2) tokens.simps) simp
  finally show ?thesis .
qed (simp add: is_word_def)

lemma tokens_word: "is_word w \<Longrightarrow> tokens w = [w]"
proof (cases w)
  case (Cons c cs)
  assume "is_word w"
  then have w: "\<not> is_space c" "takeWhile (\<lambda>c. \<not> is_space c) cs = cs" "dropWhile (\<lambda>c. \<not> is_space c) cs = []"
    using Cons by (simp_all add: is_word_def takeWhile_eq_all_conv dropWhile_eq_Nil_conv)
  show ?thesis unfolding Cons by (subst tokens.simps) (simp add: w tokens_Nil)
qed (simp add: is_word_def)

text \<open>Words joined by single spaces.\<close>

fun unwords :: "string list \<Rightarrow> string" where
  "unwords [] = []"
| "unwords [w] = w"
| "unwords (w # ws) = w @ CHR '' '' # unwords ws"

lemma tokens_unwords: "list_all is_word ws \<Longrightarrow> tokens (unwords ws) = ws"
  by (induction ws rule: unwords.induct) (simp_all add: tokens_Nil tokens_word tokens_word_space)

lemma unwords_chars: "c \<in> set (unwords ws) \<Longrightarrow> c = CHR '' '' \<or> (\<exists>w \<in> set ws. c \<in> set w)"
  by (induction ws rule: unwords.induct) auto

lemma line_feed_char: "is_space line_feed" "is_blank line_feed" "line_feed \<noteq> CHR '' ''"
  by (simp_all add: line_feed_def is_space_def is_blank_def code_of_def)

lemma unwords_not_line_feed: "list_all is_word ws \<Longrightarrow> line_feed \<notin> set (unwords ws)"
  using unwords_chars [of line_feed ws] line_feed_char
  by (fastforce simp: list_all_iff is_word_def)

lemma unwords_ends:
  assumes "list_all is_word ws" and "ws \<noteq> []"
  shows "unwords ws \<noteq> []" and "\<not> is_space (hd (unwords ws))" and "\<not> is_space (last (unwords ws))"
  using assms by (induction ws rule: unwords.induct) (auto simp: is_word_def)

text \<open>A prefix of joined words consists of whole words and at most one that is cut.\<close>

lemma tokens_take_word: "is_word w \<Longrightarrow> set (tokens (take n w)) \<subseteq> {take n w}"
proof (cases "take n w = []")
  case True
  then show ?thesis by (simp only: tokens_Nil list.set empty_subsetI)
next
  case False
  assume "is_word w"
  then have "is_word (take n w)" using False by (auto simp: is_word_def dest: in_set_takeD)
  then show ?thesis by (simp add: tokens_word)
qed

lemma tokens_take_unwords:
  "list_all is_word ws \<Longrightarrow> t \<in> set (tokens (take n (unwords ws))) \<Longrightarrow> \<exists>w \<in> set ws. \<exists>m. t = take m w"
proof (induction ws arbitrary: n rule: unwords.induct)
  case 1
  then show ?case by (simp add: tokens_Nil)
next
  case (2 w)
  then show ?case using tokens_take_word [of w n] by auto
next
  case (3 w v ws)
  show ?case
  proof (cases "n \<le> length w")
    case True
    then have "t = take n w" using 3(2,3) tokens_take_word [of w n] by auto
    then show ?thesis by auto
  next
    case False
    then obtain m where n: "n = length w + Suc m"
      by (metis add_Suc_right less_iff_Suc_add not_le)
    have "t = w \<or> t \<in> set (tokens (take m (unwords (v # ws))))"
      using 3(2,3) by (simp add: n tokens_word_space)
    then show ?thesis
    proof
      assume "t = w"
      then show ?thesis by (intro bexI [of _ w] exI [of _ "length w"]) simp_all
    next
      assume "t \<in> set (tokens (take m (unwords (v # ws))))"
      then show ?thesis using 3(1) [of m] 3(2) by auto
    qed
  qed
qed

lemma getlines_Nil: "getlines [] = []"
  by (subst getlines.simps) simp

lemma getlines_line: "line_feed \<notin> set l \<Longrightarrow> getlines (l @ line_feed # s) = l # getlines s"
  by (subst getlines.simps) (auto simp: takeWhile_append dropWhile_append)

lemma getlines_last:
  assumes "line_feed \<notin> set l" and "l \<noteq> []"
  shows "getlines l = [l]"
proof -
  have l: "takeWhile (\<lambda>c. c \<noteq> line_feed) l = l" "dropWhile (\<lambda>c. c \<noteq> line_feed) l = []"
    using assms(1) by (auto simp: takeWhile_eq_all_conv dropWhile_eq_Nil_conv)
  show ?thesis by (subst getlines.simps) (simp only: l assms(2) if_False list.sel getlines_Nil)
qed

text \<open>The lines of a text that ends a line, followed by more text.\<close>

definition unlines :: "string list \<Rightarrow> string" where
  "unlines ls = concat (map (\<lambda>l. l @ [line_feed]) ls)"

lemma getlines_unlines:
  "(\<And>l. l \<in> set ls \<Longrightarrow> line_feed \<notin> set l) \<Longrightarrow> getlines (unlines ls @ s) = ls @ getlines s"
  by (induction ls) (simp_all add: unlines_def getlines_line)

lemma trim_prefix:
  assumes "s \<noteq> []" and "\<not> is_blank (hd s)"
  obtains m where "trim s = take m s" and "m \<le> length s" and "trim s \<noteq> []"
proof
  have s: "dropWhile is_blank s = s" using assms by (cases s) auto
  have split: "rev (dropWhile is_blank (rev s)) @ rev (takeWhile is_blank (rev s)) = s"
    by (metis rev_append rev_rev_ident takeWhile_dropWhile_id)
  show "trim s = take (length (trim s)) s"
    unfolding trim_def s by (subst (3) split [symmetric]) simp
  show "length (trim s) \<le> length s"
    unfolding trim_def s using length_dropWhile_le [of is_blank "rev s"] by simp
  have "dropWhile is_blank (rev s) \<noteq> []"
    using assms by (auto simp: dropWhile_eq_Nil_conv)
  then show "trim s \<noteq> []" unfolding trim_def s by simp
qed

lemma trim_id:
  assumes "s \<noteq> []" and "\<not> is_blank (hd s)" and "\<not> is_blank (last s)"
  shows "trim s = s"
proof -
  have "dropWhile is_blank s = s" using assms by (cases s) auto
  moreover have "dropWhile is_blank (rev s) = rev s"
    using assms by (cases s rule: rev_cases) auto
  ultimately show ?thesis by (simp add: trim_def)
qed

end
