(* ===== verification/Journal.thy ===== *)
theory Journal
  imports Domain Text_Codec "HOL-Library.AList"
begin

text \<open>
  The journal (\<open>journal/journal_record.cpp\<close>, \<open>journal/file_journal.cpp\<close>): records printed as one
  line of \<open>key=value\<close> fields, the line parser, and the operations on the file. The file is its
  content, \<open>None\<close> before it exists; what the operating system does to a call is an argument.
\<close>

section \<open>Records\<close>

datatype journal_record_kind =
  JK_Order_Accepted | JK_Order_Rejected | JK_Trade_Executed | JK_Order_Canceled | JK_Lifecycle_Event

record journal_record =
  jr_version :: u64
  jr_kind :: journal_record_kind
  jr_sequence :: u64
  jr_instrument_id :: u64
  jr_order_id :: u64
  jr_side :: side
  jr_price :: raw_price
  jr_quantity :: raw_quantity
  jr_remaining_quantity :: raw_quantity
  jr_execution_quantity :: raw_quantity
  jr_incoming_order_id :: u64
  jr_resting_order_id :: u64
  jr_account_id :: u64
  jr_reason :: u64

definition default_record :: journal_record where
  "default_record = \<lparr>jr_version = 1, jr_kind = JK_Order_Accepted, jr_sequence = 0, jr_instrument_id = 0,
     jr_order_id = 0, jr_side = Buy, jr_price = 0, jr_quantity = 0, jr_remaining_quantity = 0,
     jr_execution_quantity = 0, jr_incoming_order_id = 0, jr_resting_order_id = 0, jr_account_id = 0,
     jr_reason = 0\<rparr>"

fun kind_to_string :: "journal_record_kind \<Rightarrow> string" where
  "kind_to_string JK_Order_Accepted = ''order_accepted''"
| "kind_to_string JK_Order_Rejected = ''order_rejected''"
| "kind_to_string JK_Trade_Executed = ''trade_executed''"
| "kind_to_string JK_Order_Canceled = ''order_canceled''"
| "kind_to_string JK_Lifecycle_Event = ''lifecycle_event''"

definition serialize_record :: "journal_record \<Rightarrow> string" where
  "serialize_record r =
     ''version='' @ print_u64 (jr_version r) @
     '' kind='' @ kind_to_string (jr_kind r) @
     '' sequence='' @ print_u64 (jr_sequence r) @
     '' instrument_id='' @ print_u64 (jr_instrument_id r) @
     '' order_id='' @ print_u64 (jr_order_id r) @
     '' side='' @ (if jr_side r = Buy then ''buy'' else ''sell'') @
     '' price='' @ print_i64 (jr_price r) @
     '' quantity='' @ print_u64 (jr_quantity r) @
     '' remaining_quantity='' @ print_u64 (jr_remaining_quantity r) @
     '' execution_quantity='' @ print_u64 (jr_execution_quantity r) @
     '' incoming_order_id='' @ print_u64 (jr_incoming_order_id r) @
     '' resting_order_id='' @ print_u64 (jr_resting_order_id r) @
     '' account_id='' @ print_u64 (jr_account_id r) @
     '' reason='' @ print_u64 (jr_reason r)"

section \<open>The line parser\<close>

text \<open>Parsers that fill an argument and return whether they could: \<open>None\<close> is \<open>false\<close>.\<close>

definition lower_char :: "char \<Rightarrow> char" where
  "lower_char c = (if 65 \<le> code_of c \<and> code_of c \<le> 90 then char_of (code_of c - 65 + 97) else c)"

definition lower_string :: "string \<Rightarrow> string" where
  "lower_string s = map lower_char s"

definition parse_uint64 :: "string \<Rightarrow> u64 option" where
  "parse_uint64 s =
     (if s = [] then None
      else case stoull s of
             None \<Rightarrow> None
           | Some (parsed, consumed) \<Rightarrow> if consumed \<noteq> length s then None else Some parsed)"

definition parse_price :: "string \<Rightarrow> raw_price option" where
  "parse_price s = (case parse_uint64 s of None \<Rightarrow> None | Some parsed \<Rightarrow> Some parsed)"

definition parse_quantity :: "string \<Rightarrow> raw_quantity option" where
  "parse_quantity s = (case parse_uint64 s of None \<Rightarrow> None | Some parsed \<Rightarrow> Some parsed)"

definition parse_side :: "string \<Rightarrow> side option" where
  "parse_side s =
     (let normalized = lower_string s
      in if normalized = ''buy'' then Some Buy
         else if normalized = ''sell'' then Some Sell
         else None)"

definition parse_kind :: "string \<Rightarrow> journal_record_kind option" where
  "parse_kind s =
     (let normalized = lower_string s
      in if normalized = ''order_accepted'' then Some JK_Order_Accepted
         else if normalized = ''order_rejected'' then Some JK_Order_Rejected
         else if normalized = ''trade_executed'' then Some JK_Trade_Executed
         else if normalized = ''order_canceled'' then Some JK_Order_Canceled
         else if normalized = ''lifecycle_event'' then Some JK_Lifecycle_Event
         else None)"

text \<open>
  The tokens as a map from lower-case keys to values, the last value of a key counting. The map
  is an association list: the loop over it handles each key once, and keys do not interfere.
\<close>

fun read_fields :: "(string \<times> string) list \<Rightarrow> string list \<Rightarrow> (string \<times> string) list option" where
  "read_fields entries [] = Some entries"
| "read_fields entries (token # rest) =
     (case dropWhile (\<lambda>c. c \<noteq> CHR ''='') token of
        [] \<Rightarrow> None
      | _ # value \<Rightarrow>
          read_fields
            (AList.update (lower_string (takeWhile (\<lambda>c. c \<noteq> CHR ''='') token)) value entries) rest)"

text \<open>The local variables of the loop; \<open>ps_seen k\<close> is the flag \<open>seen_k\<close>.\<close>

record parse_state =
  ps_record :: journal_record
  ps_version :: u64
  ps_kind :: journal_record_kind
  ps_seen :: "string \<Rightarrow> bool"

definition mark :: "string \<Rightarrow> bool \<Rightarrow> parse_state \<Rightarrow> parse_state" where
  "mark key ok st = st\<lparr>ps_seen := (ps_seen st)(key := ok)\<rparr>"

text \<open>A field that keeps its value when parsing fails, and one that becomes zero.\<close>

definition keep_field ::
  "string \<Rightarrow> 'v option \<Rightarrow> ('v \<Rightarrow> parse_state \<Rightarrow> parse_state) \<Rightarrow> parse_state \<Rightarrow> parse_state" where
  "keep_field key parsed assign st =
     (case parsed of None \<Rightarrow> mark key False st | Some v \<Rightarrow> mark key True (assign v st))"

definition zero_field ::
  "string \<Rightarrow> u64 option \<Rightarrow> (u64 \<Rightarrow> journal_record \<Rightarrow> journal_record) \<Rightarrow> parse_state \<Rightarrow> parse_state" where
  "zero_field key parsed assign st =
     (let v = (case parsed of None \<Rightarrow> 0 | Some v \<Rightarrow> v)
      in mark key (parsed \<noteq> None) (st\<lparr>ps_record := assign v (ps_record st)\<rparr>))"

definition parse_field :: "parse_state \<Rightarrow> string \<times> string \<Rightarrow> parse_state" where
  "parse_field st kv =
     (case kv of (key, value) \<Rightarrow>
      if key = ''version'' then keep_field key (parse_uint64 value) (\<lambda>v. ps_version_update (\<lambda>_. v)) st
      else if key = ''kind'' then keep_field key (parse_kind value) (\<lambda>v. ps_kind_update (\<lambda>_. v)) st
      else if key = ''sequence'' then zero_field key (parse_uint64 value) (\<lambda>v. jr_sequence_update (\<lambda>_. v)) st
      else if key = ''instrument_id'' then zero_field key (parse_uint64 value) (\<lambda>v. jr_instrument_id_update (\<lambda>_. v)) st
      else if key = ''order_id'' then zero_field key (parse_uint64 value) (\<lambda>v. jr_order_id_update (\<lambda>_. v)) st
      else if key = ''side'' then keep_field key (parse_side value)
        (\<lambda>v. ps_record_update (jr_side_update (\<lambda>_. v))) st
      else if key = ''price'' then keep_field key (parse_price value)
        (\<lambda>v. ps_record_update (jr_price_update (\<lambda>_. v))) st
      else if key = ''quantity'' then keep_field key (parse_quantity value)
        (\<lambda>v. ps_record_update (jr_quantity_update (\<lambda>_. v))) st
      else if key = ''remaining_quantity'' then keep_field key (parse_quantity value)
        (\<lambda>v. ps_record_update (jr_remaining_quantity_update (\<lambda>_. v))) st
      else if key = ''execution_quantity'' then keep_field key (parse_quantity value)
        (\<lambda>v. ps_record_update (jr_execution_quantity_update (\<lambda>_. v))) st
      else if key = ''incoming_order_id'' then zero_field key (parse_uint64 value) (\<lambda>v. jr_incoming_order_id_update (\<lambda>_. v)) st
      else if key = ''resting_order_id'' then zero_field key (parse_uint64 value) (\<lambda>v. jr_resting_order_id_update (\<lambda>_. v)) st
      else if key = ''account_id'' then zero_field key (parse_uint64 value) (\<lambda>v. jr_account_id_update (\<lambda>_. v)) st
      else if key = ''reason'' then zero_field key (parse_uint64 value) (\<lambda>v. jr_reason_update (\<lambda>_. v)) st
      else st)"

definition required_fields :: "string list" where
  "required_fields = [''version'', ''kind'', ''sequence'', ''instrument_id'', ''order_id'', ''side'', ''price'',
     ''quantity'', ''remaining_quantity'', ''execution_quantity'', ''incoming_order_id'',
     ''resting_order_id'', ''account_id'', ''reason'']"

definition parse_record_line :: "string \<Rightarrow> journal_record \<Rightarrow> journal_record \<times> bool" where
  "parse_record_line line r =
     (case read_fields [] (tokens line) of
        None \<Rightarrow> (r, False)
      | Some entries \<Rightarrow>
          if entries = [] then (r, False)
          else
            let st = foldl parse_field
              \<lparr>ps_record = r, ps_version = 0, ps_kind = JK_Order_Accepted, ps_seen = (\<lambda>_. False)\<rparr> entries
            in if \<not> list_all (ps_seen st) required_fields then (ps_record st, False)
               else if ps_version st \<noteq> 1 then (ps_record st, False)
               else ((ps_record st)\<lparr>jr_version := ps_version st, jr_kind := ps_kind st\<rparr>, True))"

section \<open>The file\<close>

text \<open>
  A write either cannot open the file, or fails when some characters have reached it, or
  succeeds; a stream that is good after the flush has written everything.
\<close>

datatype write_outcome = Cannot_Open | Fails_After nat | Writes_All

type_synonym journal_file = "string option"

definition content_of :: "journal_file \<Rightarrow> string" where
  "content_of file = (case file of None \<Rightarrow> [] | Some s \<Rightarrow> s)"

definition append_record :: "write_outcome \<Rightarrow> journal_file \<Rightarrow> journal_record \<Rightarrow> journal_file \<times> bool" where
  "append_record w file r =
     (let line = serialize_record r @ [line_feed]
      in case w of
           Cannot_Open \<Rightarrow> (file, False)
         | Fails_After n \<Rightarrow> (Some (content_of file @ take n line), False)
         | Writes_All \<Rightarrow> (Some (content_of file @ line), True))"

fun append_records ::
  "(nat \<Rightarrow> write_outcome) \<Rightarrow> journal_file \<Rightarrow> journal_record list \<Rightarrow> journal_file \<times> bool" where
  "append_records w file [] = (file, True)"
| "append_records w file (r # rs) =
     (case append_record (w 0) file r of
        (file', False) \<Rightarrow> (file', False)
      | (file', True) \<Rightarrow> append_records (\<lambda>n. w (Suc n)) file' rs)"

definition truncate :: "bool \<Rightarrow> journal_file \<Rightarrow> journal_file \<times> bool" where
  "truncate opened file = (if opened then (Some [], True) else (file, False))"

datatype journal_read_status = JR_Ok | JR_Malformed_Record | JR_Io_Error | JR_Invalid_Version

record journal_read_result =
  jres_status :: journal_read_status
  jres_records :: "journal_record list"
  jres_error_message :: string

definition journal_result_ok :: "journal_read_result \<Rightarrow> bool" where
  "journal_result_ok result \<longleftrightarrow> jres_status result = JR_Ok"

text \<open>
  Reading may fail to open the file, or go bad when some characters have been delivered; then
  the line in progress is not delivered, and the next \<open>getline\<close> ends the loop.
\<close>

datatype read_outcome = Unreadable | Bad_After nat | Readable

definition delivered_lines :: "read_outcome \<Rightarrow> string \<Rightarrow> string list" where
  "delivered_lines rd content =
     (case rd of
        Unreadable \<Rightarrow> []
      | Bad_After n \<Rightarrow> getlines (rev (dropWhile (\<lambda>c. c \<noteq> line_feed) (rev (take n content))))
      | Readable \<Rightarrow> getlines content)"

text \<open>The loop over the lines: the records so far, and whether a malformed one stopped it.\<close>

fun read_lines :: "journal_record list \<Rightarrow> string list \<Rightarrow> journal_record list \<times> bool" where
  "read_lines records [] = (records, False)"
| "read_lines records (line # rest) =
     (let trimmed = trim line
      in if trimmed = [] then read_lines records rest
         else case parse_record_line trimmed default_record of
                (r, False) \<Rightarrow> (records, True)
              | (r, True) \<Rightarrow> read_lines (records @ [r]) rest)"

definition read_all :: "read_outcome \<Rightarrow> journal_file \<Rightarrow> journal_read_result" where
  "read_all rd file =
     (if file = None \<or> rd = Unreadable
      then \<lparr>jres_status = JR_Io_Error, jres_records = [],
             jres_error_message = ''unable to open journal file''\<rparr>
      else case read_lines [] (delivered_lines rd (content_of file)) of
             (records, True) \<Rightarrow>
               \<lparr>jres_status = JR_Malformed_Record, jres_records = records,
                jres_error_message = ''malformed journal record''\<rparr>
           | (records, False) \<Rightarrow>
               if rd \<noteq> Readable
               then \<lparr>jres_status = JR_Io_Error, jres_records = [],
                      jres_error_message = ''failed while reading journal file''\<rparr>
               else \<lparr>jres_status = JR_Ok, jres_records = records, jres_error_message = []\<rparr>)"

end
