(* ===== verification/Journal_Properties.thy ===== *)
theory Journal_Properties
  imports Journal
begin

text \<open>
  The properties of the journal: what is appended is read back, whatever the records hold, and
  exactly what a reader finds after a write that failed half way.
\<close>

section \<open>A record as a list of fields\<close>

definition field :: "string \<Rightarrow> string \<Rightarrow> string" where
  "field k v = k @ CHR ''='' # v"

text \<open>The fields of a printed record; the value of the last one is left open.\<close>

definition record_fields :: "journal_record \<Rightarrow> string \<Rightarrow> (string \<times> string) list" where
  "record_fields r reason = zip required_fields
     [print_u64 (jr_version r), kind_to_string (jr_kind r), print_u64 (jr_sequence r),
      print_u64 (jr_instrument_id r), print_u64 (jr_order_id r),
      (if jr_side r = Buy then ''buy'' else ''sell''), print_i64 (jr_price r), print_u64 (jr_quantity r),
      print_u64 (jr_remaining_quantity r), print_u64 (jr_execution_quantity r),
      print_u64 (jr_incoming_order_id r), print_u64 (jr_resting_order_id r), print_u64 (jr_account_id r),
      reason]"

definition record_line :: "journal_record \<Rightarrow> string \<Rightarrow> string" where
  "record_line r reason = unwords (map (\<lambda>(k, v). field k v) (record_fields r reason))"

lemma serialize_record_line: "serialize_record r = record_line r (print_u64 (jr_reason r))"
  by (simp add: serialize_record_def record_line_def record_fields_def required_fields_def field_def)

lemma keys_plain:
  "k \<in> set required_fields \<Longrightarrow> CHR ''='' \<notin> set k \<and> lower_string k = k \<and> is_word k"
  by (auto simp: required_fields_def lower_string_def lower_char_def code_of_def is_word_def is_space_def)

lemma record_fields_keys: "map fst (record_fields r reason) = required_fields"
  by (simp add: record_fields_def required_fields_def)

lemma required_fields_distinct: "distinct required_fields"
  by (simp add: required_fields_def)

lemma split_field:
  assumes "CHR ''='' \<notin> set k"
  shows "takeWhile (\<lambda>c. c \<noteq> CHR ''='') (field k v) = k"
    and "dropWhile (\<lambda>c. c \<noteq> CHR ''='') (field k v) = CHR ''='' # v"
  using assms by (simp_all add: field_def takeWhile_append dropWhile_append)

lemma read_fields_line:
  assumes "\<And>k. k \<in> fst ` set kvs \<Longrightarrow> CHR ''='' \<notin> set k \<and> lower_string k = k"
    and "distinct (map fst (entries @ kvs))"
  shows "read_fields entries (map (\<lambda>(k, v). field k v) kvs) = Some (entries @ kvs)"
  using assms
proof (induction kvs arbitrary: entries)
  case (Cons kv kvs)
  obtain k v where kv: "kv = (k, v)" by (cases kv)
  have plain: "CHR ''='' \<notin> set k" "lower_string k = k" using Cons.prems(1) [of k] by (auto simp: kv)
  have new: "AList.update k v entries = entries @ [(k, v)]"
    using Cons.prems(2) by (induction entries) (auto simp: kv)
  show ?case
    using Cons.IH [of "entries @ [(k, v)]"] Cons.prems
    by (simp add: kv split_field [OF plain(1)] plain(2) new)
qed simp

lemma parse_printed:
  "parse_uint64 (print_u64 x) = Some x" "parse_quantity (print_u64 x) = Some x"
  "parse_price (print_i64 p) = Some p"
  "parse_side (if s = Buy then ''buy'' else ''sell'') = Some s"
  "parse_kind (kind_to_string k) = Some k"
proof -
  show "parse_uint64 (print_u64 x) = Some x" "parse_quantity (print_u64 x) = Some x"
    "parse_price (print_i64 p) = Some p"
    by (simp_all add: parse_uint64_def parse_quantity_def parse_price_def stoull_print_u64 stoull_print_i64
        print_nonempty)
  show "parse_side (if s = Buy then ''buy'' else ''sell'') = Some s"
    by (cases s) (simp_all add: parse_side_def lower_string_def lower_char_def code_of_def)
  show "parse_kind (kind_to_string k) = Some k"
    by (cases k) (simp_all add: parse_kind_def lower_string_def lower_char_def code_of_def)
qed

lemma words_printed:
  "is_word (print_u64 x)" "is_word (print_i64 p)" "is_word (kind_to_string k)"
  "is_word (if s = Buy then ''buy'' else ''sell'')"
proof -
  show "is_word (print_u64 x)" "is_word (print_i64 p)"
    using print_chars(1) [of _ x] print_chars(2) [of _ p] print_nonempty sign_not_digit(3) is_digit_not_space
    unfolding is_word_def by metis+
  show "is_word (kind_to_string k)" by (cases k) (simp_all add: is_word_def is_space_def code_of_def)
  show "is_word (if s = Buy then ''buy'' else ''sell'')"
    by (cases s) (simp_all add: is_word_def is_space_def code_of_def)
qed

lemma is_word_field: "is_word k \<Longrightarrow> \<forall>c \<in> set v. \<not> is_space c \<Longrightarrow> is_word (field k v)"
  by (auto simp: is_word_def field_def is_space_def code_of_def)

lemma record_fields_words:
  assumes "\<forall>c \<in> set reason. \<not> is_space c"
  shows "list_all is_word (map (\<lambda>(k, v). field k v) (record_fields r reason))"
proof -
  have "list_all (\<lambda>v. \<forall>c \<in> set v. \<not> is_space c) (map snd (record_fields r reason))"
    using assms words_printed by (simp add: record_fields_def required_fields_def is_word_def)
  moreover have "k \<in> set required_fields" if "(k, v) \<in> set (record_fields r reason)" for k v
    using that record_fields_keys [of r reason] by (metis image_eqI fst_conv list.set_map)
  ultimately show ?thesis
    using keys_plain by (auto simp: list_all_iff intro!: is_word_field)
qed

lemma record_line_tokens:
  "\<forall>c \<in> set reason. \<not> is_space c \<Longrightarrow>
   tokens (record_line r reason) = map (\<lambda>(k, v). field k v) (record_fields r reason)"
  by (simp add: record_line_def tokens_unwords record_fields_words)

lemma parse_record_fields:
  assumes "\<forall>c \<in> set reason. \<not> is_space c"
  shows "read_fields [] (tokens (record_line r reason)) = Some (record_fields r reason)"
proof -
  have "fst ` set (record_fields r reason) = set required_fields"
    using arg_cong [OF record_fields_keys, of set r reason] by simp
  then show ?thesis
    using read_fields_line [of "record_fields r reason" "[]"] keys_plain
    by (simp add: record_line_tokens [OF assms] record_fields_keys required_fields_distinct)
qed

text \<open>The loop over the fields of a printed record.\<close>

lemma parse_loop:
  assumes "parse_uint64 reason = Some x"
  shows "foldl parse_field
      \<lparr>ps_record = d, ps_version = 0, ps_kind = JK_Order_Accepted, ps_seen = (\<lambda>_. False)\<rparr>
      (record_fields r reason) =
    \<lparr>ps_record = r\<lparr>jr_version := jr_version d, jr_kind := jr_kind d, jr_reason := x\<rparr>,
     ps_version = jr_version r, ps_kind = jr_kind r, ps_seen = (\<lambda>k. k \<in> set required_fields)\<rparr>"
  by (cases r, cases d)
    (simp add: record_fields_def required_fields_def parse_field_def keep_field_def zero_field_def mark_def
      parse_printed [simplified] assms fun_eq_iff)

lemma parse_record_line_fields:
  assumes "\<forall>c \<in> set reason. \<not> is_space c" and "parse_uint64 reason = Some x" and "jr_version r = 1"
  shows "parse_record_line (record_line r reason) d = (r\<lparr>jr_reason := x\<rparr>, True)"
proof -
  have "record_fields r reason \<noteq> []" by (simp add: record_fields_def required_fields_def)
  moreover have "list_all (\<lambda>k. k \<in> set required_fields) required_fields" by (simp add: list_all_iff)
  ultimately show ?thesis
    using assms(3)
    by (simp add: parse_record_line_def parse_record_fields [OF assms(1)] parse_loop [OF assms(2)])
qed

section \<open>What is missing makes a line malformed\<close>

lemma update_entries: "(k, v) \<in> set (AList.update k' v' es) \<Longrightarrow> (k, v) = (k', v') \<or> (k, v) \<in> set es"
  by (induction es) (auto split: if_splits)

lemma read_fields_tokens:
  "read_fields es ts = Some fs \<Longrightarrow> (k, v) \<in> set fs \<Longrightarrow>
   (k, v) \<in> set es \<or> (\<exists>t \<in> set ts. lower_string (takeWhile (\<lambda>c. c \<noteq> CHR ''='') t) = k \<and>
     dropWhile (\<lambda>c. c \<noteq> CHR ''='') t = CHR ''='' # v)"
proof (induction es ts rule: read_fields.induct)
  case (2 es t ts)
  obtain c w where t: "dropWhile (\<lambda>c. c \<noteq> CHR ''='') t = c # w"
    using 2(2) by (cases "dropWhile (\<lambda>c. c \<noteq> CHR ''='') t") auto
  have c: "c = CHR ''=''" using hd_dropWhile [of "\<lambda>c. c \<noteq> CHR ''=''" t] t by simp
  let ?k = "lower_string (takeWhile (\<lambda>c. c \<noteq> CHR ''='') t)"
  have rest: "read_fields (AList.update ?k w es) ts = Some fs" using 2(2) t by simp
  from 2(1) [OF t rest 2(3)] show ?case
  proof
    assume "(k, v) \<in> set (AList.update ?k w es)"
    then have "(k, v) = (?k, w) \<or> (k, v) \<in> set es" by (rule update_entries)
    then show ?thesis using t c by fastforce
  next
    assume "\<exists>t \<in> set ts. lower_string (takeWhile (\<lambda>c. c \<noteq> CHR ''='') t) = k \<and>
      dropWhile (\<lambda>c. c \<noteq> CHR ''='') t = CHR ''='' # v"
    then show ?thesis by (blast intro: list.set_intros(2))
  qed
qed simp

lemma seen_after_field:
  "ps_seen (parse_field st (k, v)) ''reason'' =
     (if k = ''reason'' then parse_uint64 v \<noteq> None else ps_seen st ''reason'')"
proof -
  have keep: "ps_seen (keep_field key p assign st) ''reason'' = ps_seen st ''reason''"
    if "key \<noteq> ''reason''" "\<And>v. ps_seen (assign v st) = ps_seen st" for key p and assign :: "'v \<Rightarrow> _"
    using that by (simp add: keep_field_def mark_def split: option.split)
  have zero: "ps_seen (zero_field key p assign st) ''reason'' =
      (if key = ''reason'' then p \<noteq> None else ps_seen st ''reason'')" for key p assign
    by (simp add: zero_field_def mark_def)
  show ?thesis by (simp add: parse_field_def keep zero)
qed

lemma seen_after_fields:
  "ps_seen (foldl parse_field st es) ''reason'' \<Longrightarrow>
   ps_seen st ''reason'' \<or> (\<exists>v. (''reason'', v) \<in> set es \<and> v \<noteq> [])"
proof (induction es arbitrary: st)
  case (Cons e es)
  obtain k v where "e = (k, v)" by (cases e)
  then show ?case
    using Cons.IH [of "parse_field st e"] Cons.prems
    by (auto simp: seen_after_field parse_uint64_def split: if_splits)
qed simp

lemma parsed_line_has_reason:
  assumes "parse_record_line line d = (r, True)"
  shows "\<exists>t \<in> set (tokens line). \<exists>v. lower_string (takeWhile (\<lambda>c. c \<noteq> CHR ''='') t) = ''reason'' \<and>
    dropWhile (\<lambda>c. c \<noteq> CHR ''='') t = CHR ''='' # v \<and> v \<noteq> []"
proof -
  obtain es where es: "read_fields [] (tokens line) = Some es"
      "list_all (ps_seen (foldl parse_field
        \<lparr>ps_record = d, ps_version = 0, ps_kind = JK_Order_Accepted, ps_seen = (\<lambda>_. False)\<rparr> es)) required_fields"
    using assms by (auto simp: parse_record_line_def Let_def split: option.splits if_splits)
  have "ps_seen (foldl parse_field
      \<lparr>ps_record = d, ps_version = 0, ps_kind = JK_Order_Accepted, ps_seen = (\<lambda>_. False)\<rparr> es) ''reason''"
    using es(2) by (simp add: required_fields_def)
  from seen_after_fields [OF this] obtain v where "(''reason'', v) \<in> set es" "v \<noteq> []" by auto
  then show ?thesis using read_fields_tokens [OF es(1)] by fastforce
qed

text \<open>A printed record that is cut before the digits of its reason.\<close>

lemma cut_line_is_malformed:
  "\<not> snd (parse_record_line (take n (record_line r [])) d)"
proof
  assume "snd (parse_record_line (take n (record_line r [])) d)"
  then obtain r' where "parse_record_line (take n (record_line r [])) d = (r', True)"
    by (metis prod.collapse)
  from parsed_line_has_reason [OF this] obtain t v where t:
      "t \<in> set (tokens (take n (record_line r [])))"
      "lower_string (takeWhile (\<lambda>c. c \<noteq> CHR ''='') t) = ''reason''"
      "dropWhile (\<lambda>c. c \<noteq> CHR ''='') t = CHR ''='' # v" "v \<noteq> []"
    by blast
  have "\<exists>w \<in> set (map (\<lambda>(k, v). field k v) (record_fields r [])). \<exists>m. t = take m w"
    using t(1) record_fields_words [of "[]" r] unfolding record_line_def
    by (intro tokens_take_unwords) simp_all
  then obtain k u m where w: "(k, u) \<in> set (record_fields r [])" "t = take m (field k u)" by auto
  have "k \<in> set required_fields"
    using w(1) record_fields_keys [of r "[]"] by (metis image_eqI fst_conv list.set_map)
  note k = keys_plain [OF this]
  have m: "length k < m"
  proof (rule ccontr)
    assume "\<not> length k < m"
    then have "t = take m k" using w(2) by (simp add: field_def)
    then have "CHR ''='' \<notin> set t" using k by (auto dest: in_set_takeD)
    then show False using t(3) by (metis set_dropWhileD list.set_intros(1))
  qed
  then have "t = field k (take (m - Suc (length k)) u)"
    using w(2) by (cases "m - length k") (simp_all add: field_def Suc_diff_Suc [symmetric])
  then have "k = ''reason''" "v = take (m - Suc (length k)) u"
    using t(2,3) k split_field [of k] by simp_all
  then show False using w(1) t(4) by (simp add: record_fields_def required_fields_def)
qed

section \<open>The file\<close>

definition journal_text :: "journal_record list \<Rightarrow> string" where
  "journal_text rs = unlines (map serialize_record rs)"

lemma record_line_shape:
  assumes "\<forall>c \<in> set reason. \<not> is_space c"
  shows "line_feed \<notin> set (record_line r reason)" and "record_line r reason \<noteq> []"
    and "\<not> is_blank (hd (record_line r reason))" and "\<not> is_blank (last (record_line r reason))"
proof -
  note words = record_fields_words [OF assms, of r]
  have "map (\<lambda>(k, v). field k v) (record_fields r reason) \<noteq> []"
    by (simp add: record_fields_def required_fields_def)
  note ends = unwords_ends [OF words this]
  show "line_feed \<notin> set (record_line r reason)" and "record_line r reason \<noteq> []"
    and "\<not> is_blank (hd (record_line r reason))" and "\<not> is_blank (last (record_line r reason))"
    using unwords_not_line_feed [OF words] ends is_blank_space unfolding record_line_def by blast+
qed

lemma trim_record_line: "\<forall>c \<in> set reason. \<not> is_space c \<Longrightarrow> trim (record_line r reason) = record_line r reason"
  using record_line_shape [of reason r] by (intro trim_id) blast+

lemma digits_not_space: "\<forall>c \<in> set ds. is_digit c \<Longrightarrow> \<forall>c \<in> set ds. \<not> is_space c"
  by (auto dest: is_digit_not_space)

lemma print_not_space: "\<forall>c \<in> set (print_u64 x). \<not> is_space c"
  using print_chars(1) by (intro digits_not_space) blast

text \<open>One line that holds a record, whatever digits its reason has.\<close>

lemma read_record_line:
  assumes "\<forall>c \<in> set ds. is_digit c" and "parse_uint64 ds = Some x" and "jr_version r = 1"
  shows "read_lines acc (record_line r ds # rest) = read_lines (acc @ [r\<lparr>jr_reason := x\<rparr>]) rest"
  using record_line_shape(2) [of ds r] digits_not_space [OF assms(1)] assms(2,3)
  by (simp add: trim_record_line parse_record_line_fields)

lemma read_serialized:
  "jr_version r = 1 \<Longrightarrow> read_lines acc (serialize_record r # rest) = read_lines (acc @ [r]) rest"
  using read_record_line [of "print_u64 (jr_reason r)" "jr_reason r" r acc rest] print_chars(1)
  by (simp add: serialize_record_line parse_printed del: read_lines.simps)

lemma read_journal_lines:
  "\<forall>r \<in> set rs. jr_version r = 1 \<Longrightarrow>
   read_lines acc (map serialize_record rs @ rest) = read_lines (acc @ rs) rest"
  by (induction rs arbitrary: acc) (simp_all add: read_serialized del: read_lines.simps)

lemma journal_lines: "getlines (journal_text rs @ s) = map serialize_record rs @ getlines s"
  unfolding journal_text_def
  using record_line_shape(1) [OF print_not_space]
  by (intro getlines_unlines) (auto simp: serialize_record_line)

lemma read_all_journal:
  assumes "\<forall>r \<in> set rs. jr_version r = 1"
  shows "read_all Readable (Some (journal_text rs @ s)) =
    (case read_lines rs (getlines s) of
       (records, True) \<Rightarrow> \<lparr>jres_status = JR_Malformed_Record, jres_records = records,
         jres_error_message = ''malformed journal record''\<rparr>
     | (records, False) \<Rightarrow> \<lparr>jres_status = JR_Ok, jres_records = records, jres_error_message = []\<rparr>)"
  using read_journal_lines [OF assms, of "[]" "getlines s"]
  by (simp add: read_all_def delivered_lines_def content_of_def journal_lines split: prod.split bool.split)

lemma append_records_text:
  "append_records (\<lambda>_. Writes_All) (Some s) rs = (Some (s @ journal_text rs), True)"
  by (induction rs arbitrary: s)
    (simp_all add: journal_text_def unlines_def append_record_def content_of_def)

lemma journal_text_append: "journal_text (rs @ ss) = journal_text rs @ journal_text ss"
  by (simp add: journal_text_def unlines_def)

text \<open>
  C22: the journal gives back what was written. Appending any records of version 1 to a journal
  that holds such records, and reading it, returns the old records followed by the new ones, in
  order and with every field equal: negative prices, all five kinds and the largest numbers
  included.
\<close>

theorem journal_round_trip:
  assumes "\<forall>r \<in> set (old @ new). jr_version r = 1"
  shows "\<exists>file. append_records (\<lambda>_. Writes_All) (Some (journal_text old)) new = (file, True) \<and>
    read_all Readable file = \<lparr>jres_status = JR_Ok, jres_records = old @ new, jres_error_message = []\<rparr>"
proof -
  have "append_records (\<lambda>_. Writes_All) (Some (journal_text old)) new = (Some (journal_text (old @ new) @ []), True)"
    by (simp add: append_records_text journal_text_append)
  moreover have "read_all Readable (Some (journal_text (old @ new) @ [])) =
      \<lparr>jres_status = JR_Ok, jres_records = old @ new, jres_error_message = []\<rparr>"
    unfolding read_all_journal [OF assms] by (simp add: getlines_Nil)
  ultimately show ?thesis by blast
qed

definition demo_record :: "raw_price \<Rightarrow> u64 \<Rightarrow> journal_record" where
  "demo_record p reason = default_record\<lparr>jr_kind := JK_Order_Rejected, jr_side := Sell, jr_price := p,
     jr_sequence := 7, jr_reason := reason\<rparr>"

theorem journal_round_trip_witness:
  "\<exists>file. append_records (\<lambda>_. Writes_All) (Some []) [demo_record (-5) 12, demo_record 100 (-1)] = (file, True) \<and>
     jres_records (read_all Readable file) = [demo_record (-5) 12, demo_record 100 (-1)]"
  using journal_round_trip [of "[]" "[demo_record (-5) 12, demo_record 100 (-1)]"]
  by (auto simp: demo_record_def default_record_def journal_text_def unlines_def simp del: append_records.simps)

section \<open>Torn writes\<close>

text \<open>The part of a printed record before the digits of its reason.\<close>

definition head_length :: "journal_record \<Rightarrow> nat" where
  "head_length r = length (record_line r [])"

lemma record_line_snoc: "record_line r v = record_line r [] @ v"
  by (simp add: record_line_def record_fields_def required_fields_def field_def)

lemma take_record:
  shows "take n (serialize_record r @ [line_feed]) =
    (if n \<le> head_length r then take n (record_line r [])
     else record_line r (take (n - head_length r) (print_u64 (jr_reason r))) @
       (if n \<le> length (serialize_record r) then [] else [line_feed]))"
  using record_line_snoc [of r "print_u64 (jr_reason r)"]
    record_line_snoc [of r "take (n - head_length r) (print_u64 (jr_reason r))"]
  by (simp add: serialize_record_line head_length_def)

lemma parse_digits_prefix:
  assumes "0 < m"
  shows "parse_uint64 (take m (print_u64 x)) = Some (of_nat (digits_value (take m (print_u64 x))))"
proof -
  let ?ds = "take m (print_u64 x)"
  have "digits_value ?ds \<le> digits_value (print_u64 x)"
    using digits_value_append [of ?ds "drop m (print_u64 x)"] by simp
  also have "\<dots> < 2 ^ 64" using unat_lt64 [of x] by (simp add: print_u64_def digits_value_decimal)
  finally have "digits_value ?ds < 2 ^ 64" .
  moreover have "?ds \<noteq> []" "\<And>c. c \<in> set ?ds \<Longrightarrow> is_digit c"
    using assms print_nonempty(1) [of x] print_chars(1) by (auto dest: in_set_takeD)
  ultimately show ?thesis using stoull_digits [of ?ds] by (simp add: parse_uint64_def)
qed

lemma reason_digits:
  "head_length r < length (serialize_record r)"
  "length (serialize_record r) = head_length r + length (print_u64 (jr_reason r))"
  "of_nat (digits_value (print_u64 x)) = (x :: u64)"
proof -
  show l: "length (serialize_record r) = head_length r + length (print_u64 (jr_reason r))"
    by (simp add: serialize_record_line head_length_def record_line_snoc [of r "print_u64 _"])
  show "head_length r < length (serialize_record r)" using l print_nonempty(1) by simp
  show "of_nat (digits_value (print_u64 x)) = x" by (simp add: print_u64_def digits_value_decimal)
qed

lemma read_cut_line:
  assumes "0 < n" and "n \<le> head_length r"
  shows "read_lines acc (getlines (take n (record_line r []))) = (acc, True)"
proof -
  note shape = record_line_shape [of "[]" r, simplified]
  let ?t = "take n (record_line r [])"
  have t: "?t \<noteq> []" "line_feed \<notin> set ?t" "\<not> is_blank (hd ?t)"
    using shape assms(1) by (auto dest: in_set_takeD simp: hd_take)
  obtain m where m: "trim ?t = take m ?t" "trim ?t \<noteq> []" by (rule trim_prefix [OF t(1,3)])
  then have "trim ?t = take (min n m) (record_line r [])" by (simp add: min.commute)
  then have "\<not> snd (parse_record_line (trim ?t) default_record)" using cut_line_is_malformed by metis
  then have "read_lines acc [?t] = (acc, True)"
    using m(2) by (auto split: prod.split bool.split)
  then show ?thesis using getlines_last [OF t(2,1)] by simp
qed

text \<open>
  C20: what a reader finds after a torn write. When an append fails after \<open>n\<close> characters of the
  record and its newline, for any \<open>n\<close>, it reports failure and all earlier records are read back.
  If nothing was written the journal reads as before; if the record was cut before the digits of
  its reason, the reader reports a malformed record. But if at least one digit of the reason was
  written, the cut record passes as complete, with the reason read from the digits that are
  there; once all of them are there, with or without the newline, it is the record itself.
\<close>

theorem torn_append_outcome:
  assumes "\<forall>r \<in> set old. jr_version r = 1" and "jr_version r = 1"
    and "append_record (Fails_After n) (Some (journal_text old)) r = (file, ok)"
  shows "\<not> ok \<and> read_all Readable file =
    (if n = 0 then \<lparr>jres_status = JR_Ok, jres_records = old, jres_error_message = []\<rparr>
     else if n \<le> head_length r
     then \<lparr>jres_status = JR_Malformed_Record, jres_records = old,
            jres_error_message = ''malformed journal record''\<rparr>
     else \<lparr>jres_status = JR_Ok,
            jres_records = old @ [r\<lparr>jr_reason := of_nat (digits_value
              (take (n - head_length r) (print_u64 (jr_reason r))))\<rparr>],
            jres_error_message = []\<rparr>) \<and>
    (length (serialize_record r) \<le> n \<longrightarrow> jres_records (read_all Readable file) = old @ [r])"
proof -
  have res: "file = Some (journal_text old @ take n (serialize_record r @ [line_feed]))" "\<not> ok"
    using assms(3) by (auto simp: append_record_def content_of_def Let_def)
  consider "n = 0" | "0 < n" "n \<le> head_length r" | "head_length r < n" by linarith
  then show ?thesis
  proof cases
    case 1
    then show ?thesis
      unfolding res(1) read_all_journal [OF assms(1)]
      using reason_digits(1) [of r] by (cases "serialize_record r") (simp_all add: res(2) getlines_Nil)
  next
    case 2
    then show ?thesis
      unfolding res(1) read_all_journal [OF assms(1)] take_record
      using reason_digits(1) [of r] by (simp add: res(2) read_cut_line)
  next
    case 3
    let ?ds = "take (n - head_length r) (print_u64 (jr_reason r))"
    have ds: "\<forall>c \<in> set ?ds. is_digit c" using print_chars(1) by (auto dest: in_set_takeD)
    note shape = record_line_shape(1,2) [OF digits_not_space [OF ds], of r]
    have read: "read_lines old [record_line r ?ds] = (old @ [r\<lparr>jr_reason := of_nat (digits_value ?ds)\<rparr>], False)"
      using read_record_line [OF ds parse_digits_prefix assms(2), of old "[]"] 3
      by (simp del: read_lines.simps(2))
    have lines: "getlines (record_line r ?ds @ (if b then [] else [line_feed])) = [record_line r ?ds]" for b
      using getlines_last [OF shape] getlines_line [OF shape(1), of "[]"] by (simp add: getlines_Nil)
    have "r\<lparr>jr_reason := of_nat (digits_value ?ds)\<rparr> = r" if "length (serialize_record r) \<le> n"
      using that reason_digits(2) [of r] reason_digits(3) by simp
    then show ?thesis
      using 3 unfolding res(1) read_all_journal [OF assms(1)] take_record
      by (simp add: res(2) lines read del: read_lines.simps(2))
  qed
qed

lemma demo_record_text:
  "print_u64 12 = ''12''" "length (serialize_record (demo_record 5 12)) = head_length (demo_record 5 12) + 2"
proof -
  show p: "print_u64 12 = ''12''" by (simp add: print_u64_def decimal.simps char_of_def bit_Suc_0_iff)
  show "length (serialize_record (demo_record 5 12)) = head_length (demo_record 5 12) + 2"
    unfolding serialize_record_line record_line_snoc [of _ "print_u64 _"]
    by (simp add: head_length_def demo_record_def p)
qed

theorem torn_append_outcome_witness:
  "\<exists>n file. append_record (Fails_After n) (Some []) (demo_record 5 12) = (file, False) \<and>
     read_all Readable file =
       \<lparr>jres_status = JR_Ok, jres_records = [demo_record 5 1], jres_error_message = []\<rparr>"
proof -
  let ?r = "demo_record 5 12"
  obtain f ok where res: "append_record (Fails_After (head_length ?r + 1)) (Some (journal_text [])) ?r = (f, ok)"
    by (metis prod.collapse)
  have "\<forall>r \<in> set []. jr_version r = 1" "jr_version ?r = 1" by (simp_all add: demo_record_def default_record_def)
  note torn = torn_append_outcome [OF this res]
  have "digits_value ''1'' = 1" by (simp add: digits_value_def code_of_def)
  then show ?thesis
    using torn [THEN conjunct2, THEN conjunct1] torn [THEN conjunct1] res
    by (intro exI [of _ "head_length ?r + 1"] exI [of _ f])
      (simp add: demo_record_text journal_text_def unlines_def, simp add: demo_record_def demo_record_text)
qed

end
