(* ===== verification/Snapshot.thy ===== *)
theory Snapshot
  imports Text_Codec
begin

unbundle bit_operations_syntax

text \<open>
  The snapshot store (\<open>snapshot/snapshot_store.cpp\<close>): the checksum, the printed form with its
  header of four lines, the parser, and the replacement of the file through a temporary file.
  The disk maps paths to contents; what the operating system does to a call is an argument.
\<close>

section \<open>Records\<close>

record snapshot_record =
  sr_version :: u64
  sr_sequence :: u64
  sr_payload :: string
  sr_checksum :: u64

definition default_snapshot :: snapshot_record where
  "default_snapshot = \<lparr>sr_version = 1, sr_sequence = 0, sr_payload = [], sr_checksum = 0\<rparr>"

datatype snapshot_read_status = SS_Ok | SS_Io_Error | SS_Malformed_Snapshot | SS_Checksum_Mismatch

record snapshot_read_result =
  sres_status :: snapshot_read_status
  sres_record :: snapshot_record
  sres_error_message :: string

definition offset_basis :: u64 where
  "offset_basis = 14695981039346656037"

definition fnv_prime :: u64 where
  "fnv_prime = 1099511628211"

definition hash_step :: "u64 \<Rightarrow> char \<Rightarrow> u64" where
  "hash_step hash byte = (hash XOR of_nat (code_of byte)) * fnv_prime"

definition checksum_for_payload :: "string \<Rightarrow> u64" where
  "checksum_for_payload payload = foldl hash_step offset_basis payload"

definition serialize_snapshot :: "snapshot_record \<Rightarrow> string" where
  "serialize_snapshot r =
     (let checksum = checksum_for_payload (sr_payload r)
      in ''version='' @ print_u64 (sr_version r) @ [line_feed] @
         ''sequence='' @ print_u64 (sr_sequence r) @ [line_feed] @
         ''payload_length='' @ print_u64 (of_nat (length (sr_payload r))) @ [line_feed] @
         ''checksum='' @ print_u64 checksum @ [line_feed] @
         sr_payload r)"

section \<open>The parser\<close>

text \<open>The file has a \<open>trim\<close> of its own, the same as that of the journal.\<close>

definition snapshot_trim :: "string \<Rightarrow> string" where
  "snapshot_trim s =
     (let from_begin = dropWhile is_blank s
      in if from_begin = [] then [] else rev (dropWhile is_blank (rev from_begin)))"

lemma snapshot_trim [simp]: "snapshot_trim s = trim s"
proof -
  have "(if xs = [] then [] else rev (dropWhile is_blank (rev xs))) = rev (dropWhile is_blank (rev xs))" for xs
    by (cases xs) simp_all
  then show ?thesis unfolding snapshot_trim_def trim_def Let_def by this
qed

definition parse_u64 :: "string \<Rightarrow> u64 option" where
  "parse_u64 s =
     (if s = [] then None
      else case stoull s of
             None \<Rightarrow> None
           | Some (parsed, consumed) \<Rightarrow> if consumed \<noteq> length s then None else Some parsed)"

definition parse_value :: "string \<Rightarrow> string" where
  "parse_value line = tl (dropWhile (\<lambda>c. c \<noteq> CHR ''='') line)"

text \<open>The lambda \<open>read_line\<close>: the line at a position, and the position after it.\<close>

definition read_line :: "string \<Rightarrow> nat \<Rightarrow> string \<times> nat" where
  "read_line s position =
     (if position \<ge> length s then ([], position)
      else let rest = drop position s
           in if line_feed \<notin> set rest then (rest, length s)
              else let line = takeWhile (\<lambda>c. c \<noteq> line_feed) rest
                   in (line, position + length line + 1))"

text \<open>
  \<open>Inl\<close> is \<open>false\<close> with the error message. Positions and sizes are \<open>std::size_t\<close>: the end of
  the payload is computed in 64 bits, and \<open>substr\<close> stops at the end of the text.
\<close>

definition parse_snapshot_record :: "string \<Rightarrow> string + snapshot_record" where
  "parse_snapshot_record s =
     (let (version_line, p1) = read_line s 0;
          (sequence_line, p2) = read_line s p1;
          (payload_length_line, p3) = read_line s p2;
          (checksum_line, p4) = read_line s p3
      in if version_line = [] \<or> sequence_line = [] \<or> payload_length_line = [] \<or> checksum_line = []
         then Inl ''missing snapshot header''
         else
           let version_value = snapshot_trim (parse_value version_line);
               sequence_value = snapshot_trim (parse_value sequence_line);
               payload_length_value = snapshot_trim (parse_value payload_length_line);
               checksum_value = snapshot_trim (parse_value checksum_line)
           in if version_value = [] \<or> sequence_value = [] \<or> payload_length_value = [] \<or> checksum_value = []
              then Inl ''malformed snapshot header''
              else case (parse_u64 version_value, parse_u64 sequence_value,
                         parse_u64 payload_length_value, parse_u64 checksum_value) of
                (Some version, Some sequence, Some payload_length, Some checksum) \<Rightarrow>
                  if of_nat p4 + payload_length > (of_nat (length s) :: u64)
                  then Inl ''snapshot payload length exceeded file size''
                  else
                    let payload = take (unat payload_length) (drop p4 s)
                    in if checksum_for_payload payload \<noteq> checksum
                       then Inl ''snapshot checksum mismatch''
                       else Inr \<lparr>sr_version = version, sr_sequence = sequence, sr_payload = payload,
                              sr_checksum = checksum\<rparr>
              | _ \<Rightarrow> Inl ''invalid snapshot header field'')"

section \<open>The file\<close>

type_synonym disk = "string \<rightharpoonup> string"

text \<open>
  A POSIX path is split at its last slash; separators that end the parent are dropped, but the
  root stays.
\<close>

definition is_slash :: "char \<Rightarrow> bool" where
  "is_slash c \<longleftrightarrow> c = CHR ''/''"

definition file_name :: "string \<Rightarrow> string" where
  "file_name path = rev (takeWhile (\<lambda>c. \<not> is_slash c) (rev path))"

definition parent_path :: "string \<Rightarrow> string" where
  "parent_path path =
     (let before = rev (dropWhile (\<lambda>c. \<not> is_slash c) (rev path));
          parent = rev (dropWhile is_slash (rev before))
      in if before \<noteq> [] \<and> parent = [] then ''/'' else parent)"

definition build_temp_path :: "string \<Rightarrow> string" where
  "build_temp_path target =
     (let temp_name = file_name target @ ''.tmp''; parent = parent_path target
      in if parent = [] then temp_name
         else if is_slash (last parent) then parent @ temp_name
         else parent @ ''/'' @ temp_name)"

text \<open>Which calls succeed; \<open>we_fails_after\<close> is where the write breaks off, if it does.\<close>

record write_environment =
  we_opens :: bool
  we_fails_after :: "nat option"
  we_reopens :: bool
  we_fsyncs :: bool
  we_renames :: bool
  we_removes :: bool

text \<open>The temporary file is opened again, for reading, to be synchronised.\<close>

definition sync_file_descriptor :: "write_environment \<Rightarrow> bool" where
  "sync_file_descriptor env \<longleftrightarrow> (if \<not> we_reopens env then False else we_fsyncs env)"

text \<open>
  The result lists every disk that a reader, or a restart after a crash, may find: the disk
  before, each prefix of the temporary file, and the disk after the last call.
\<close>

definition write_atomic ::
  "write_environment \<Rightarrow> disk \<Rightarrow> string \<Rightarrow> string \<Rightarrow> disk list \<times> bool" where
  "write_atomic env disk target content =
     (let temp = build_temp_path target;
          growing = (\<lambda>text. map (\<lambda>n. disk(temp \<mapsto> take n text)) [0..<Suc (length text)]);
          remove = (\<lambda>d. if we_removes env then d(temp := None) else d)
      in if \<not> we_opens env then ([disk], False)
         else case we_fails_after env of
           Some n \<Rightarrow>
             (disk # growing (take n content) @ [remove (disk(temp \<mapsto> take n content))], False)
         | None \<Rightarrow>
             let written = disk(temp \<mapsto> content)
             in if \<not> sync_file_descriptor env then (disk # growing content @ [remove written], False)
                else if \<not> we_renames env then (disk # growing content @ [remove written], False)
                else (disk # growing content @ [(written(target := written temp))(temp := None)], True))"

definition snapshot_write ::
  "write_environment \<Rightarrow> disk \<Rightarrow> string \<Rightarrow> snapshot_record \<Rightarrow> disk list \<times> bool" where
  "snapshot_write env disk path r = write_atomic env disk path (serialize_snapshot r)"

definition snapshot_write_payload ::
  "write_environment \<Rightarrow> disk \<Rightarrow> string \<Rightarrow> string \<Rightarrow> u64 \<Rightarrow> disk list \<times> bool" where
  "snapshot_write_payload env disk path payload sequence =
     snapshot_write env disk path
       \<lparr>sr_version = 1, sr_sequence = sequence, sr_payload = payload, sr_checksum = 0\<rparr>"

text \<open>
  What the environment does with a read. \<open>Stream_Failed\<close> is the branch that tests \<open>input.bad()\<close>
  after the contents are read; reading through \<open>istreambuf_iterator\<close> does not set that flag, so
  no theorem about a delivered file rests on it.
\<close>

datatype snapshot_input = Cannot_Read | Stream_Failed | Delivered

definition snapshot_failure :: "snapshot_read_status \<Rightarrow> string \<Rightarrow> snapshot_read_result" where
  "snapshot_failure status message =
     \<lparr>sres_status = status, sres_record = default_snapshot, sres_error_message = message\<rparr>"

definition snapshot_read :: "snapshot_input \<Rightarrow> disk \<Rightarrow> string \<Rightarrow> snapshot_read_result" where
  "snapshot_read input disk path =
     (case disk path of
        None \<Rightarrow> snapshot_failure SS_Io_Error ''unable to open snapshot file''
      | Some contents \<Rightarrow>
          if input = Cannot_Read then snapshot_failure SS_Io_Error ''unable to open snapshot file''
          else if input = Stream_Failed then snapshot_failure SS_Io_Error ''failed while reading snapshot file''
          else case parse_snapshot_record contents of
            Inl error \<Rightarrow>
              snapshot_failure
                (if error = ''snapshot checksum mismatch'' then SS_Checksum_Mismatch
                 else SS_Malformed_Snapshot)
                (if error = [] then ''malformed snapshot'' else error)
          | Inr r \<Rightarrow> \<lparr>sres_status = SS_Ok, sres_record = r, sres_error_message = []\<rparr>)"

end
