(* ===== verification/Snapshot_Properties.thy ===== *)
theory Snapshot_Properties
  imports Snapshot
begin

unbundle bit_operations_syntax

text \<open>
  The properties of the snapshot store: what is written is read back, the target is never seen
  half written, one damaged byte of the payload is always noticed, and a declared length near
  \<open>2^64\<close> passes the size check.
\<close>

section \<open>Parsing a header\<close>

definition header_line :: "string \<Rightarrow> u64 \<Rightarrow> string" where
  "header_line k x = k @ CHR ''='' # print_u64 x"

definition header :: "u64 \<Rightarrow> u64 \<Rightarrow> u64 \<Rightarrow> u64 \<Rightarrow> string" where
  "header version sequence len checksum = unlines
     [header_line ''version'' version, header_line ''sequence'' sequence,
      header_line ''payload_length'' len, header_line ''checksum'' checksum]"

lemma serialize_header:
  "serialize_snapshot r = header (sr_version r) (sr_sequence r) (of_nat (length (sr_payload r)))
     (checksum_for_payload (sr_payload r)) @ sr_payload r"
  by (simp add: serialize_snapshot_def header_def header_line_def unlines_def)

lemma print_no_line_feed: "line_feed \<notin> set (print_u64 x)"
  using print_chars(1) [of line_feed x] line_feed_char(1) is_digit_not_space by blast

lemma read_line_step:
  assumes "line_feed \<notin> set l"
  shows "read_line (pre @ l @ line_feed # s) (length pre) = (l, length (pre @ l @ [line_feed]))"
  using assms by (simp add: read_line_def takeWhile_append Let_def)

lemma parse_u64_print: "parse_u64 (print_u64 x) = Some x"
  by (simp add: parse_u64_def stoull_print_u64 print_nonempty)

lemma trim_print: "trim (print_u64 x) = print_u64 x"
proof (rule trim_id)
  have "\<not> is_blank c" if "c \<in> set (print_u64 x)" for c
    using print_chars(1) [OF that] is_digit_not_space is_blank_space by blast
  then show "\<not> is_blank (hd (print_u64 x))" "\<not> is_blank (last (print_u64 x))"
    using print_nonempty(1) [of x] by simp_all
qed (rule print_nonempty)

lemma header_value:
  "CHR ''='' \<notin> set k \<Longrightarrow> trim (parse_value (header_line k x)) = print_u64 x"
  by (simp add: parse_value_def header_line_def dropWhile_append trim_print)

text \<open>Everything the parser does with a text that begins with a printed header.\<close>

lemma parse_header:
  fixes v q n k s
  defines "h \<equiv> header v q n k"
  shows "parse_snapshot_record (h @ s) =
    (if of_nat (length h) + n > (of_nat (length h + length s) :: u64)
     then Inl ''snapshot payload length exceeded file size''
     else if checksum_for_payload (take (unat n) s) \<noteq> k then Inl ''snapshot checksum mismatch''
     else Inr \<lparr>sr_version = v, sr_sequence = q, sr_payload = take (unat n) s, sr_checksum = k\<rparr>)"
proof -
  let ?v = "header_line ''version'' v" and ?q = "header_line ''sequence'' q"
  let ?n = "header_line ''payload_length'' n" and ?k = "header_line ''checksum'' k"
  have plain: "line_feed \<notin> set ?v" "line_feed \<notin> set ?q" "line_feed \<notin> set ?n" "line_feed \<notin> set ?k"
    using print_no_line_feed by (simp_all add: header_line_def, simp_all add: line_feed_def)
  have r1: "read_line (h @ s) 0 = (?v, length (?v @ [line_feed]))"
    using read_line_step [OF plain(1), of "[]" "?q @ [line_feed] @ ?n @ [line_feed] @ ?k @ [line_feed] @ s"]
    by (simp add: h_def header_def unlines_def)
  have r2: "read_line (h @ s) (length (?v @ [line_feed])) = (?q, length (?v @ [line_feed] @ ?q @ [line_feed]))"
    using read_line_step [OF plain(2), of "?v @ [line_feed]" "?n @ [line_feed] @ ?k @ [line_feed] @ s"]
    by (simp add: h_def header_def unlines_def)
  have r3: "read_line (h @ s) (length (?v @ [line_feed] @ ?q @ [line_feed])) =
      (?n, length (?v @ [line_feed] @ ?q @ [line_feed] @ ?n @ [line_feed]))"
    using read_line_step [OF plain(3), of "?v @ [line_feed] @ ?q @ [line_feed]" "?k @ [line_feed] @ s"]
    by (simp add: h_def header_def unlines_def)
  have r4: "read_line (h @ s) (length (?v @ [line_feed] @ ?q @ [line_feed] @ ?n @ [line_feed])) = (?k, length h)"
    using read_line_step [OF plain(4), of "?v @ [line_feed] @ ?q @ [line_feed] @ ?n @ [line_feed]" s]
    by (simp add: h_def header_def unlines_def)
  have vals: "trim (parse_value ?v) = print_u64 v" "trim (parse_value ?q) = print_u64 q"
      "trim (parse_value ?n) = print_u64 n" "trim (parse_value ?k) = print_u64 k"
    by (rule header_value, simp)+
  have lines: "?v \<noteq> []" "?q \<noteq> []" "?n \<noteq> []" "?k \<noteq> []" by (simp_all add: header_line_def)
  show ?thesis
    unfolding parse_snapshot_record_def r1 Let_def prod.case r2 r3 r4 snapshot_trim vals
    using lines by (simp add: print_nonempty parse_u64_print)
qed

section \<open>The checksum\<close>

lemma fnv_prime_invertible: "fnv_prime * 14886173955864302971 = 1"
  by (simp add: fnv_prime_def)

lemma times_prime_inject: "x * fnv_prime = y * fnv_prime \<Longrightarrow> x = y"
proof -
  assume "x * fnv_prime = y * fnv_prime"
  then have "x * (fnv_prime * 14886173955864302971) = y * (fnv_prime * 14886173955864302971)"
    by (simp only: mult.assoc [symmetric])
  then show "x = y" by (simp only: fnv_prime_invertible mult_1_right)
qed

lemma xor_inject: "(x :: u64) XOR z = y XOR z \<Longrightarrow> x = y"
proof -
  assume "x XOR z = y XOR z"
  then have "(x XOR z) XOR z = (y XOR z) XOR z" by (rule arg_cong)
  then show "x = y" by (simp only: xor.assoc xor_self_eq xor.right_neutral)
qed

lemma code_of_bound: "code_of c < 256"
proof -
  have "code_of c mod 256 = code_of c" unfolding code_of_def by (rule of_char_mod_256)
  moreover have "code_of c mod 256 < 256" by simp
  ultimately show ?thesis by (simp only:)
qed

lemma hash_step_inject: "hash_step h c = hash_step h' c \<Longrightarrow> h = h'"
  unfolding hash_step_def using times_prime_inject xor_inject by blast

lemma hash_step_byte: "hash_step h b = hash_step h c \<Longrightarrow> b = c"
proof -
  assume "hash_step h b = hash_step h c"
  then have "h XOR of_nat (code_of b) = h XOR (of_nat (code_of c) :: u64)"
    unfolding hash_step_def by (rule times_prime_inject)
  then have "(of_nat (code_of b) :: u64) = of_nat (code_of c)"
    using xor_inject [of "of_nat (code_of b)" h "of_nat (code_of c)"] by (simp add: xor.commute)
  then have "unat (of_nat (code_of b) :: u64) = unat (of_nat (code_of c) :: u64)" by (rule arg_cong)
  then have "code_of b = code_of c"
    using code_of_bound [of b] code_of_bound [of c] by (simp add: unat_of_nat)
  then show "b = c" by (simp add: code_of_def)
qed

lemma hash_foldl_inject: "foldl hash_step h s = foldl hash_step h' s \<Longrightarrow> h = h'"
  by (induction s arbitrary: h h') (auto dest: hash_step_inject)

lemma checksum_single_byte:
  assumes "i < length p" and "c \<noteq> p ! i"
  shows "checksum_for_payload (p[i := c]) \<noteq> checksum_for_payload p"
proof
  assume "checksum_for_payload (p[i := c]) = checksum_for_payload p"
  then have "foldl hash_step offset_basis (take i p @ c # drop (Suc i) p) =
      foldl hash_step offset_basis (take i p @ p ! i # drop (Suc i) p)"
    using assms(1) by (simp add: checksum_for_payload_def upd_conv_take_nth_drop id_take_nth_drop [symmetric])
  then have "hash_step (foldl hash_step offset_basis (take i p)) c =
      hash_step (foldl hash_step offset_basis (take i p)) (p ! i)"
    using hash_foldl_inject by simp
  then show False using hash_step_byte assms(2) by blast
qed

text \<open>Sizes of texts in memory fit in 64 bits.\<close>

definition fits :: "string \<Rightarrow> bool" where
  "fits s \<longleftrightarrow> length s < 2 ^ 64"

lemma of_nat_fits: "n < 2 ^ 64 \<Longrightarrow> unat (of_nat n :: u64) = n"
  by (simp add: unat_of_nat)

lemma parse_whole_payload:
  assumes "length (header v q (of_nat (length s)) k @ s) < 2 ^ 64"
  shows "parse_snapshot_record (header v q (of_nat (length s)) k @ s) =
    (if checksum_for_payload s \<noteq> k then Inl ''snapshot checksum mismatch''
     else Inr \<lparr>sr_version = v, sr_sequence = q, sr_payload = s, sr_checksum = k\<rparr>)"
proof -
  have "length s < 2 ^ 64" using assms by simp
  then show ?thesis unfolding parse_header by (simp add: of_nat_fits)
qed

section \<open>The file\<close>

lemma file_name_no_slash: "c \<in> set (file_name path) \<Longrightarrow> \<not> is_slash c"
  by (auto simp: file_name_def dest: set_takeWhileD)

lemma file_name_plain: "\<forall>c \<in> set n. \<not> is_slash c \<Longrightarrow> file_name n = n"
proof -
  assume "\<forall>c \<in> set n. \<not> is_slash c"
  then have n: "takeWhile (\<lambda>c. \<not> is_slash c) (rev n) = rev n" by (simp add: takeWhile_eq_all_conv)
  show ?thesis unfolding file_name_def n by simp
qed

lemma file_name_join: "\<forall>c \<in> set n. \<not> is_slash c \<Longrightarrow> is_slash c \<Longrightarrow> file_name (pre @ c # n) = n"
  by (simp add: file_name_def takeWhile_append)

lemma file_name_temp: "file_name (build_temp_path target) = file_name target @ ''.tmp''"
proof -
  let ?n = "file_name target @ ''.tmp''"
  have n: "\<forall>c \<in> set ?n. \<not> is_slash c" using file_name_no_slash by (auto simp: is_slash_def)
  have "file_name (pre @ ?n) = ?n" if "pre \<noteq> []" "is_slash (last pre)" for pre
  proof -
    have "pre @ ?n = butlast pre @ last pre # ?n" using that(1) by simp
    then show ?thesis using file_name_join [OF n that(2)] by metis
  qed
  moreover have "is_slash (CHR ''/'')" by (simp add: is_slash_def)
  ultimately show ?thesis
    using file_name_plain [OF n] file_name_join [OF n]
    by (simp add: build_temp_path_def Let_def)
qed

lemma temp_path_differs: "build_temp_path target \<noteq> target"
proof
  assume "build_temp_path target = target"
  then have "file_name target = file_name target @ ''.tmp''" using file_name_temp by metis
  then show False by simp
qed

text \<open>
  C21: a snapshot is replaced at once. Whatever call of \<open>write\<close> fails, and at whatever moment the
  disk is looked at, the target holds either what it held before or the complete new snapshot.
  The temporary file, which is never the target, holds what it held before, nothing, or a prefix
  of the new snapshot; every other file is as before. When \<open>write\<close> returns true, the new
  snapshot is in place at the end and the temporary file is gone; when it returns false the
  target is as before, though a prefix may be left in the temporary file.
\<close>

theorem snapshot_replaced_at_once:
  fixes env disk path r
  defines "trace \<equiv> fst (snapshot_write env disk path r)" and "written \<equiv> snd (snapshot_write env disk path r)"
    and "temp \<equiv> build_temp_path path"
  shows "temp \<noteq> path \<and> (\<forall>d \<in> set trace.
      (d path = disk path \<or> d path = Some (serialize_snapshot r)) \<and>
      (d temp = disk temp \<or> d temp = None \<or> (\<exists>n. d temp = Some (take n (serialize_snapshot r)))) \<and>
      (\<forall>other. other \<noteq> path \<and> other \<noteq> temp \<longrightarrow> d other = disk other)) \<and>
    last trace path = (if written then Some (serialize_snapshot r) else disk path) \<and>
    (written \<longrightarrow> last trace temp = None)"
  using temp_path_differs [of path] take_all [of "serialize_snapshot r" "length (serialize_snapshot r)"]
  by (auto simp: trace_def written_def temp_def snapshot_write_def write_atomic_def Let_def
      split: option.splits if_splits intro: exI [of _ "length (serialize_snapshot r)"])

text \<open>
  C26: a written snapshot is read back. When no call of \<open>write\<close> fails, reading the target gives
  the version, the sequence and the payload that were written, whatever bytes the payload
  holds, and as checksum that of the payload: a checksum given to \<open>write\<close> is not used.
\<close>

theorem snapshot_round_trip:
  assumes "length (serialize_snapshot r) < 2 ^ 64" and "snd (snapshot_write env disk path r)"
  shows "snapshot_read Delivered (last (fst (snapshot_write env disk path r))) path =
    \<lparr>sres_status = SS_Ok, sres_record = r\<lparr>sr_checksum := checksum_for_payload (sr_payload r)\<rparr>,
     sres_error_message = []\<rparr>"
proof -
  have "last (fst (snapshot_write env disk path r)) path = Some (serialize_snapshot r)"
    using assms(2) temp_path_differs [of path]
    by (auto simp: snapshot_write_def write_atomic_def Let_def split: option.splits if_splits)
  then show ?thesis
    using parse_whole_payload [OF assms(1) [unfolded serialize_header]]
    by (simp add: snapshot_read_def serialize_header)
qed

definition all_well :: write_environment where
  "all_well = \<lparr>we_opens = True, we_fails_after = None, we_reopens = True, we_fsyncs = True, we_renames = True, we_removes = True\<rparr>"

definition demo_snapshot :: snapshot_record where
  "demo_snapshot = \<lparr>sr_version = 1, sr_sequence = 9, sr_payload = ''ab'', sr_checksum = 0\<rparr>"

lemma header_length: "length (header v q n k) \<le> 128"
  using length_print_u64 [of v] length_print_u64 [of q] length_print_u64 [of n] length_print_u64 [of k]
  by (simp add: header_def header_line_def unlines_def)

lemma header_nonempty: "0 < length (header v q n k)"
  by (simp add: header_def unlines_def)

lemma demo_snapshot_size:
  "length (serialize_snapshot demo_snapshot) < 2 ^ 64" "2 < length (serialize_snapshot demo_snapshot)"
proof -
  have "length (serialize_snapshot demo_snapshot) =
      length (header 1 9 2 (checksum_for_payload ''ab'')) + 2"
    by (simp add: serialize_header demo_snapshot_def)
  then show "length (serialize_snapshot demo_snapshot) < 2 ^ 64" "2 < length (serialize_snapshot demo_snapshot)"
    using header_length [of 1 9 2 "checksum_for_payload ''ab''"] header_nonempty [of 1 9 2 "checksum_for_payload ''ab''"]
    by simp_all
qed

theorem snapshot_round_trip_witness:
  "sres_record (snapshot_read Delivered
       (last (fst (snapshot_write all_well Map.empty ''data/state'' demo_snapshot))) ''data/state'') =
     demo_snapshot\<lparr>sr_checksum := checksum_for_payload ''ab''\<rparr>"
proof -
  have "snd (snapshot_write all_well Map.empty ''data/state'' demo_snapshot)"
    by (simp add: snapshot_write_def write_atomic_def sync_file_descriptor_def all_well_def Let_def)
  from snapshot_round_trip [OF demo_snapshot_size(1) this] show ?thesis by (simp add: demo_snapshot_def)
qed

theorem snapshot_replaced_at_once_witness:
  "last (fst (snapshot_write (all_well\<lparr>we_renames := False\<rparr>) [''data/state'' \<mapsto> ''old''] ''data/state''
     demo_snapshot)) ''data/state'' = Some ''old''"
proof -
  let ?env = "all_well\<lparr>we_renames := False\<rparr>" and ?disk = "[''data/state'' \<mapsto> ''old'']"
  have "\<not> snd (snapshot_write ?env ?disk ''data/state'' demo_snapshot)"
    by (simp add: snapshot_write_def write_atomic_def sync_file_descriptor_def all_well_def Let_def)
  then show ?thesis
    using snapshot_replaced_at_once [of "''data/state''" ?env ?disk demo_snapshot] by simp
qed

section \<open>Damage\<close>

text \<open>
  C25: a damaged byte is noticed. When a snapshot file differs from what was written in any one
  byte of the payload, reading it reports a checksum mismatch and returns no record. The
  checksum does not cover the header: version and sequence are not protected.
\<close>

theorem damaged_byte_is_noticed:
  assumes "length (serialize_snapshot r) < 2 ^ 64"
    and "length (serialize_snapshot r) - length (sr_payload r) \<le> j" and "j < length (serialize_snapshot r)"
    and "byte \<noteq> serialize_snapshot r ! j"
    and "disk path = Some ((serialize_snapshot r)[j := byte])"
  shows "snapshot_read Delivered disk path =
    \<lparr>sres_status = SS_Checksum_Mismatch, sres_record = default_snapshot,
     sres_error_message = ''snapshot checksum mismatch''\<rparr>"
proof -
  let ?p = "sr_payload r" and ?k = "checksum_for_payload (sr_payload r)"
  let ?h = "header (sr_version r) (sr_sequence r) (of_nat (length ?p)) ?k"
  obtain i where i: "j = length ?h + i" "i < length ?p"
    using assms(2,3) by (auto simp: serialize_header le_iff_add)
  have damaged: "(serialize_snapshot r)[j := byte] =
      header (sr_version r) (sr_sequence r) (of_nat (length (?p[i := byte]))) ?k @ ?p[i := byte]"
    by (simp add: serialize_header i(1) list_update_append)
  have "byte \<noteq> ?p ! i" using assms(4) by (simp add: serialize_header i(1))
  then have "checksum_for_payload (?p[i := byte]) \<noteq> ?k" using checksum_single_byte i(2) by blast
  moreover have "length ((serialize_snapshot r)[j := byte]) < 2 ^ 64" using assms(1) by simp
  ultimately show ?thesis
    using parse_whole_payload [of "sr_version r" "sr_sequence r" "?p[i := byte]" ?k] assms(5)
    by (simp add: snapshot_read_def snapshot_failure_def damaged)
qed

lemma serialize_last: "sr_payload r \<noteq> [] \<Longrightarrow>
  serialize_snapshot r ! (length (serialize_snapshot r) - 1) = last (sr_payload r)"
  by (subst last_conv_nth [symmetric]) (simp_all add: serialize_header)

theorem damaged_byte_is_noticed_witness:
  "sres_status (snapshot_read Delivered
       [''data/state'' \<mapsto> (serialize_snapshot demo_snapshot)
          [length (serialize_snapshot demo_snapshot) - 1 := CHR ''x'']] ''data/state'') = SS_Checksum_Mismatch"
proof -
  let ?s = "serialize_snapshot demo_snapshot"
  have "CHR ''x'' \<noteq> ?s ! (length ?s - 1)" by (subst serialize_last) (simp_all add: demo_snapshot_def)
  moreover have "length ?s - length (sr_payload demo_snapshot) \<le> length ?s - 1" "length ?s - 1 < length ?s"
    using demo_snapshot_size(2) by (simp_all add: demo_snapshot_def)
  ultimately show ?thesis
    using damaged_byte_is_noticed [OF demo_snapshot_size(1), of "length ?s - 1" "CHR ''x''"
        "[''data/state'' \<mapsto> ?s[length ?s - 1 := CHR ''x'']]" "''data/state''"] by simp
qed

text \<open>
  C40: the size check can be bypassed. A declared payload length that wraps the 64-bit end
  position passes the check against the file size: the reader accepts the file, takes
  what there is as the payload, and returns a record although the file is shorter than its
  header declares.
\<close>

theorem declared_length_wraps:
  assumes "2 ^ 64 \<le> length (header v q n (checksum_for_payload s)) + unat n"
    and "length (header v q n (checksum_for_payload s)) + length s < 2 ^ 63"
  shows "parse_snapshot_record (header v q n (checksum_for_payload s) @ s) =
      Inr \<lparr>sr_version = v, sr_sequence = q, sr_payload = s, sr_checksum = checksum_for_payload s\<rparr> \<and>
    length s < unat n"
proof -
  let ?h = "length (header v q n (checksum_for_payload s))"
  have n: "unat n < 2 ^ 64" by (rule unat_lt64)
  have long: "length s < unat n" using assms by simp
  have "unat (of_nat ?h + n) = ?h + unat n - 2 ^ 64"
    using assms n le_mod_geq [of "2 ^ 64" "?h + unat n"] by (simp add: unat_word_ariths unat_of_nat)
  moreover have "unat (of_nat (?h + length s) :: u64) = ?h + length s"
    using assms(2) by (intro of_nat_fits) simp
  ultimately have "\<not> of_nat ?h + n > (of_nat (?h + length s) :: u64)"
    using n by (simp add: word_less_nat_alt not_less)
  then show ?thesis using long unfolding parse_header by (simp add: less_imp_le)
qed

theorem declared_length_wraps_witness:
  "parse_snapshot_record (header 1 1 (- 1) (checksum_for_payload ''a'') @ ''a'') =
     Inr \<lparr>sr_version = 1, sr_sequence = 1, sr_payload = ''a'', sr_checksum = checksum_for_payload ''a''\<rparr>"
proof -
  have "unat (- 1 :: u64) = 2 ^ 64 - 1" by (simp add: unsigned_minus_1_eq_mask mask_eq_exp_minus_1)
  then have "2 ^ 64 \<le> length (header 1 1 (- 1) (checksum_for_payload ''a'')) + unat (- 1 :: u64)"
    using header_nonempty [of 1 1 "- 1" "checksum_for_payload ''a''"] by linarith
  moreover have "length (header 1 1 (- 1) (checksum_for_payload ''a'')) + length ''a'' < 2 ^ 63"
    using header_length [of 1 1 "- 1" "checksum_for_payload ''a''"] by simp
  ultimately show ?thesis using declared_length_wraps by blast
qed

end
