(* ===== verification/Command_Line.thy ===== *)
theory Command_Line
  imports Metrics Text_Codec
begin

text \<open>
  The programs that drive the engine: the place-and-cancel benchmark (\<open>benchmark/benchmark.cpp\<close>),
  the command line (\<open>adapters/cli.cpp\<close>) and the benchmark executable (\<open>benchmarks/bench.cpp\<close>).
  The clock is an argument. The rate is a floating-point quotient of operations and elapsed time;
  its computation and its printing are arguments, \<open>rate\<close> and \<open>show_rate\<close>.
\<close>

section \<open>The benchmark\<close>

record 'r benchmark_result =
  br_iterations :: u64
  br_operations :: u64
  br_elapsed_ns :: u64
  br_ops_per_second :: 'r
  br_accepted_orders :: u64
  br_canceled_orders :: u64

definition empty_result :: "'r \<Rightarrow> 'r benchmark_result" where
  "empty_result zero_rate =
     \<lparr>br_iterations = 0, br_operations = 0, br_elapsed_ns = 0, br_ops_per_second = zero_rate,
      br_accepted_orders = 0, br_canceled_orders = 0\<rparr>"

definition primary_instrument :: instrument where
  "primary_instrument = \<lparr>inst_id = 1, symbol = ''PRIMARY'', tick_size = Price 1, lot_size = Quantity 1,
     inst_status = Active\<rparr>"

definition benchmark_order :: "u64 \<Rightarrow> place_order" where
  "benchmark_order index =
     \<lparr>pl_instrument_id = 1, pl_order_id = 1000 + index, pl_side = Buy, pl_price = 100, pl_quantity = 10,
      pl_order_type = Limit, pl_account_id = 200 + index\<rparr>"

definition benchmark_cancel :: "u64 \<Rightarrow> cancel_order" where
  "benchmark_cancel index =
     \<lparr>ca_instrument_id = 1, ca_order_id = 1000 + index, ca_account_id = 200 + index\<rparr>"

text \<open>The loop, with the number of rounds that are left; the counters come last.\<close>

fun benchmark_loop ::
  "order_location \<Rightarrow> nat \<Rightarrow> u64 \<Rightarrow> engine \<Rightarrow> u64 \<Rightarrow> u64 \<Rightarrow> fault + (u64 \<times> u64)" where
  "benchmark_loop stale 0 index e accepted canceled = Inr (accepted, canceled)"
| "benchmark_loop stale (Suc n) index e accepted canceled =
     (case engine_place_order e (benchmark_order index) of
        Inl f \<Rightarrow> Inl f
      | Inr (e1, events1, _) \<Rightarrow>
          (case engine_cancel_order stale e1 (benchmark_cancel index) of
             Inl f \<Rightarrow> Inl f
           | Inr (e2, events2, _) \<Rightarrow>
               benchmark_loop stale n (index + 1) e2
                 (if is_accepted (hd events1) then accepted + 1 else accepted)
                 (if is_canceled (hd events2) then canceled + 1 else canceled)))"

definition run_place_cancel_benchmark ::
  "order_location \<Rightarrow> (u64 \<Rightarrow> u64 \<Rightarrow> 'r) \<Rightarrow> 'r \<Rightarrow> u64 \<Rightarrow> u64 \<Rightarrow> fault + 'r benchmark_result" where
  "run_place_cancel_benchmark stale rate zero_rate elapsed iterations =
     (if iterations = 0 then Inr (empty_result zero_rate)
      else case register_instrument (new_engine default_config No_Sink) primary_instrument of
        (e, False) \<Rightarrow> Inr (empty_result zero_rate)
      | (e, True) \<Rightarrow>
          (case benchmark_loop stale (unat iterations) 0 e 0 0 of
             Inl f \<Rightarrow> Inl f
           | Inr (accepted, canceled) \<Rightarrow>
               Inr \<lparr>br_iterations = iterations, br_operations = iterations * 2, br_elapsed_ns = elapsed,
                    br_ops_per_second = (if elapsed > 0 then rate (iterations * 2) elapsed else zero_rate),
                    br_accepted_orders = accepted, br_canceled_orders = canceled\<rparr>))"

definition format_benchmark_result :: "('r \<Rightarrow> string) \<Rightarrow> 'r benchmark_result \<Rightarrow> string" where
  "format_benchmark_result show_rate r =
     ''iterations='' @ print_u64 (br_iterations r) @
     '' actions='' @ print_u64 (br_operations r) @
     '' accepted='' @ print_u64 (br_accepted_orders r) @
     '' canceled='' @ print_u64 (br_canceled_orders r) @
     '' elapsed_ns='' @ print_u64 (br_elapsed_ns r) @
     '' ops_per_second='' @ show_rate (br_ops_per_second r)"

section \<open>The command line\<close>

definition usage_text :: string where
  "usage_text =
     ''Usage:'' @ [line_feed] @
     ''  exchange_core_cli --benchmark [iterations]'' @ [line_feed] @
     ''  exchange_core_cli --stats'' @ [line_feed] @
     ''  exchange_core_cli --simulate'' @ [line_feed] @
     ''  exchange_core_cli --help'' @ [line_feed]"

definition parse_iterations :: "string \<Rightarrow> u64 \<Rightarrow> u64" where
  "parse_iterations s fallback = (case stoull s of None \<Rightarrow> fallback | Some (parsed, consumed) \<Rightarrow> parsed)"

definition cli_order :: "order_id \<Rightarrow> side \<Rightarrow> raw_quantity \<Rightarrow> account_id \<Rightarrow> place_order" where
  "cli_order oid s q a =
     \<lparr>pl_instrument_id = 1, pl_order_id = oid, pl_side = s, pl_price = 100, pl_quantity = q,
      pl_order_type = Limit, pl_account_id = a\<rparr>"

text \<open>Two orders placed one after the other, with the events of each and all calls of the sink.\<close>

definition place_both ::
  "engine \<Rightarrow> place_order \<Rightarrow> place_order \<Rightarrow> fault + (event_batch \<times> event_batch \<times> sink_call list)" where
  "place_both e first second =
     (case engine_place_order e first of
        Inl f \<Rightarrow> Inl f
      | Inr (e1, events1, calls1) \<Rightarrow>
          (case engine_place_order e1 second of
             Inl f \<Rightarrow> Inl f
           | Inr (e2, events2, calls2) \<Rightarrow> Inr (events1, events2, calls1 @ calls2)))"

definition print_metrics_snapshot :: "fault + string" where
  "print_metrics_snapshot =
     (case place_both
        (fst (register_instrument (new_engine default_config Batch_Sink) primary_instrument))
        (cli_order 1001 Buy 10 10) (cli_order 1002 Sell 10 11) of
        Inl f \<Rightarrow> Inl f
      | Inr (bid, ask, calls) \<Rightarrow>
          let snapshot = metrics_snapshot
                (foldl (deliver metrics_on_event metrics_on_events) new_metrics calls)
          in Inr (''events_seen='' @ print_u64 (mt_events_seen snapshot) @
               '' accepted_orders='' @ print_u64 (mt_accepted_orders snapshot) @
               '' rejected_orders='' @ print_u64 (mt_rejected_orders snapshot) @
               '' trades_executed='' @ print_u64 (mt_trades_executed snapshot) @
               '' canceled_orders='' @ print_u64 (mt_canceled_orders snapshot) @
               '' benchmark_probe='' @
                 decimal ((if bid = [] then 0 else 1) + (if ask = [] then 0 else 1)) @ [line_feed]))"

definition print_simulation :: "fault + string" where
  "print_simulation =
     (case place_both
        (fst (register_instrument (new_engine default_config No_Sink) primary_instrument))
        (cli_order 2001 Buy 8 30) (cli_order 2002 Sell 8 31) of
        Inl f \<Rightarrow> Inl f
      | Inr _ \<Rightarrow> Inr (''simulation=trade_match'' @ [line_feed]))"

text \<open>What a program writes to its two streams, and its exit status.\<close>

record program_result =
  pr_out :: string
  pr_err :: string
  pr_status :: nat

definition prints :: "fault + string \<Rightarrow> fault + program_result" where
  "prints out =
     (case out of Inl f \<Rightarrow> Inl f | Inr s \<Rightarrow> Inr \<lparr>pr_out = s, pr_err = [], pr_status = 0\<rparr>)"

definition print_benchmark ::
  "order_location \<Rightarrow> (u64 \<Rightarrow> u64 \<Rightarrow> 'r) \<Rightarrow> 'r \<Rightarrow> ('r \<Rightarrow> string) \<Rightarrow> u64 \<Rightarrow> u64 \<Rightarrow> fault + string" where
  "print_benchmark stale rate zero_rate show_rate elapsed iterations =
     (case run_place_cancel_benchmark stale rate zero_rate elapsed iterations of
        Inl f \<Rightarrow> Inl f
      | Inr r \<Rightarrow> Inr (format_benchmark_result show_rate r @ [line_feed]))"

definition cli_main ::
  "order_location \<Rightarrow> (u64 \<Rightarrow> u64 \<Rightarrow> 'r) \<Rightarrow> 'r \<Rightarrow> ('r \<Rightarrow> string) \<Rightarrow> u64 \<Rightarrow> string list \<Rightarrow>
     fault + program_result" where
  "cli_main stale rate zero_rate show_rate elapsed arguments =
     (if arguments = [] \<or> hd arguments = ''--help'' then prints (Inr usage_text)
      else if hd arguments = ''--benchmark''
      then prints (print_benchmark stale rate zero_rate show_rate elapsed
             (if length arguments > 1 then parse_iterations (arguments ! 1) 50000 else 50000))
      else if hd arguments = ''--stats'' then prints print_metrics_snapshot
      else if hd arguments = ''--simulate'' then prints print_simulation
      else Inr \<lparr>pr_out = usage_text, pr_err = ''Unknown option: '' @ hd arguments @ [line_feed],
                pr_status = 2\<rparr>)"

text \<open>The benchmark executable; its arguments do not include the program's name.\<close>

definition bench_parse_iterations :: "string list \<Rightarrow> u64" where
  "bench_parse_iterations arguments =
     (if arguments = [] then 50000
      else case stoull (hd arguments) of None \<Rightarrow> 50000 | Some (parsed, consumed) \<Rightarrow> parsed)"

definition bench_main ::
  "order_location \<Rightarrow> (u64 \<Rightarrow> u64 \<Rightarrow> 'r) \<Rightarrow> 'r \<Rightarrow> ('r \<Rightarrow> string) \<Rightarrow> u64 \<Rightarrow> string list \<Rightarrow>
     fault + program_result" where
  "bench_main stale rate zero_rate show_rate elapsed arguments =
     prints (print_benchmark stale rate zero_rate show_rate elapsed (bench_parse_iterations arguments))"

end
