(* ===== verification/Command_Line_Properties.thy ===== *)
theory Command_Line_Properties
  imports Command_Line Matching_Engine_Effects
begin

text \<open>
  The properties of the programs that drive the engine: in the benchmark every order is accepted
  and every cancel succeeds, and what the command line prints.
\<close>

section \<open>The benchmark\<close>

text \<open>An engine with nothing open in the instrument of the benchmark.\<close>

definition idle :: "engine \<Rightarrow> bool" where
  "idle e \<longleftrightarrow> engine_inv e \<and> en_configuration e = default_config \<and>
     (\<exists>bk. en_order_books e 1 = Some bk \<and> buy_levels bk = [] \<and> sell_levels bk = [] \<and>
       order_locations bk = Map.empty) \<and>
     (\<forall>a. state_for (en_account_risk e) a 1 = zero_state)"

lemma idle_new:
  assumes "register_instrument (new_engine default_config sink) primary_instrument = (e, registered)"
  shows "registered" and "idle e"
proof -
  have inv: "engine_inv (fst (register_instrument (new_engine default_config sink) primary_instrument))"
    by (rule engine_inv_register [OF engine_inv_new])
  have e: "e = (new_engine default_config sink)\<lparr>en_instruments := [(1, primary_instrument)],
      en_order_books := [1 \<mapsto> empty_book]\<rparr>" and "registered"
    using assms
    by (simp_all add: register_instrument_def registry_add_def primary_instrument_def new_engine_def
        emplace_def accepts_orders_def price_is_positive_def quantity_is_positive_def word_sless_alt)
  then show "registered" by blast
  show "idle e"
    using inv assms
    by (simp add: idle_def e new_engine_def empty_book_def state_for_def new_account_risk_def)
qed

text \<open>The book and the account after the order of a round.\<close>

lemma benchmark_book:
  assumes "buy_levels bk = []" and "sell_levels bk = []" and "order_locations bk = Map.empty"
  shows "\<exists>bk1 ac. book_place_order bk (request_order (benchmark_order i) New_Order (200 + i)) =
      (bk1, [Order_Accepted ac]) \<and>
    (let bk2 = fst (book_cancel_order stale bk1 (benchmark_cancel i))
     in buy_levels bk2 = [] \<and> sell_levels bk2 = [] \<and> order_locations bk2 = Map.empty)"
  using assms
  by (simp add: book_eval request_order_def benchmark_order_def benchmark_cancel_def)

lemma benchmark_checks:
  assumes "ar_configuration ar = default_config" and "state_for ar (200 + i) 1 = zero_state"
  shows "risk_evaluate default_config (benchmark_order i) = Inr Risk_None"
    and "account_evaluate ar (benchmark_order i) = Account_None"
  using assms
  by (simp_all add: risk_evaluate_def account_evaluate_def benchmark_order_def default_config_def
      zero_state_def position_limit_def margin_for_def saturated_multiply_def projected_buy_position_def
      projected_sell_position_def word_sless_alt Let_def)

lemma benchmark_place:
  assumes "idle e"
  obtains e1 bk ac where "engine_place_order e (benchmark_order i) = Inr (e1, [Order_Accepted ac], publish (en_event_sink e) [Order_Accepted ac])"
    "engine_inv e1" "en_configuration e1 = default_config"
    "en_order_books e 1 = Some bk" "buy_levels bk = []" "sell_levels bk = []" "order_locations bk = Map.empty"
    "en_order_books e1 1 = Some (fst (book_place_order bk (request_order (benchmark_order i) New_Order (200 + i))))"
    "en_account_risk e1 = reserve (en_account_risk e) (benchmark_order i)"
proof -
  obtain bk where bk: "en_order_books e 1 = Some bk" "buy_levels bk = []" "sell_levels bk = []"
      "order_locations bk = Map.empty"
    using assms by (auto simp: idle_def)
  have inv: "engine_inv e" and cfg: "en_configuration e = default_config"
    and zero: "state_for (en_account_risk e) (200 + i) 1 = zero_state"
    using assms by (simp_all add: idle_def)
  note checks = benchmark_checks [OF _ zero, unfolded engine_invD(7) [OF inv] cfg, OF refl]
  obtain inst where found: "registry_find (en_instruments e) 1 = Some inst"
    using books_agree_at(3) [OF engine_invD(2) [OF inv], of 1] bk(1) by auto
  obtain bk1 ac where placed: "book_place_order bk (request_order (benchmark_order i) New_Order (200 + i)) =
      (bk1, [Order_Accepted ac])"
    using benchmark_book [OF bk(2,3,4)] by blast
  let ?e1 = "e\<lparr>en_order_books := (en_order_books e)(1 \<mapsto> bk1),
      en_account_risk := reserve (en_account_risk e) (benchmark_order i)\<rparr>"
  have ids: "pl_instrument_id (benchmark_order i) = 1" "pl_account_id (benchmark_order i) = 200 + i"
      "pl_order_id (benchmark_order i) = 1000 + i" "pl_order_type (benchmark_order i) = Limit"
      "0 <s pl_price (benchmark_order i)" "pl_quantity (benchmark_order i) \<noteq> 0"
    by (simp_all add: benchmark_order_def word_sless_alt)
  have free: "\<not> engine_contains_order e 1 (1000 + i)"
    using bk by (simp add: engine_contains_order_def contains_order_def)
  have "place_accepted e (benchmark_order i) False =
      Inr (?e1, [Order_Accepted ac], publish (en_event_sink e) [Order_Accepted ac])"
    using bk(1) placed by (simp add: place_accepted_def ids risk_apply_def)
  then have res: "engine_place_order e (benchmark_order i) =
      Inr (?e1, [Order_Accepted ac], publish (en_event_sink e) [Order_Accepted ac])"
    using found checks free by (simp add: engine_place_order_def Let_def ids cfg)
  show thesis
    by (rule that [OF res _ _ bk]) (use engine_place_inv [OF inv res] cfg placed in simp_all)
qed

lemma benchmark_round:
  assumes "idle e"
  shows "\<exists>e1 ac calls1 e2 cn calls2.
    engine_place_order e (benchmark_order i) = Inr (e1, [Order_Accepted ac], calls1) \<and>
    engine_cancel_order stale e1 (benchmark_cancel i) = Inr (e2, [Order_Canceled cn], calls2) \<and> idle e2"
proof -
  obtain e1 bk ac where e1: "engine_place_order e (benchmark_order i) =
        Inr (e1, [Order_Accepted ac], publish (en_event_sink e) [Order_Accepted ac])"
      "engine_inv e1" "en_configuration e1 = default_config"
      "en_order_books e 1 = Some bk" "buy_levels bk = []" "sell_levels bk = []" "order_locations bk = Map.empty"
      "en_order_books e1 1 = Some (fst (book_place_order bk (request_order (benchmark_order i) New_Order (200 + i))))"
      "en_account_risk e1 = reserve (en_account_risk e) (benchmark_order i)"
    by (rule benchmark_place [OF assms])
  have ids: "ca_instrument_id (benchmark_cancel i) = 1" "ca_order_id (benchmark_cancel i) = 1000 + i"
      "ca_account_id (benchmark_cancel i) = 200 + i"
    by (simp_all add: benchmark_cancel_def)
  define rv where "rv = \<lparr>rv_account_id = 200 + i, rv_side = Buy, rv_remaining_quantity = 10,
    rv_reserved_margin = margin_for (ar_configuration (en_account_risk e)) (benchmark_order i)\<rparr>"
  have rv: "ar_reservations (en_account_risk e1) (1, 1000 + i) = Some rv" "rv_account_id rv = 200 + i"
      "rv_side rv = Buy" "rv_remaining_quantity rv = 10"
      "rv_reserved_margin rv = margin_for (ar_configuration (en_account_risk e)) (benchmark_order i)"
    by (simp_all add: e1(9) reserve_reservations rv_def) (simp add: benchmark_order_def)
  obtain e2 events where e2: "engine_cancel_order stale e1 (benchmark_cancel i) =
      Inr (e2, events, publish (en_event_sink e1) events)"
    using engine_cancel_returns [OF e1(2)] by blast
  note owner = cancel_of_owner [OF e1(2) rv(1) [folded ids] rv(2) [folded ids(3)] e2, unfolded ids]
  have "state_for (en_account_risk e2) a 1 = zero_state" for a
    using owner assms rv
    by (auto simp: e1(9) reserve_state_for idle_def benchmark_order_def released_state_def
        reserved_state_def zero_state_def)
  moreover obtain bk2 where "en_order_books e2 1 = Some bk2" "buy_levels bk2 = []" "sell_levels bk2 = []"
      "order_locations bk2 = Map.empty"
  proof -
    have "en_order_books e2 1 = Some (fst (book_cancel_order stale
        (fst (book_place_order bk (request_order (benchmark_order i) New_Order (200 + i)))) (benchmark_cancel i)))"
      by (rule cancel_ok [OF e1(2) e1(8) [folded ids(1)], of stale]) (use e2 ids in simp)
    then show thesis
      using that benchmark_book [OF e1(5,6,7), of i stale] by (auto simp: Let_def)
  qed
  moreover have "engine_inv e2 \<and> en_configuration e2 = default_config"
    using engine_cancel_inv [OF e1(2) e2] e1(3) by simp
  ultimately have "idle e2" by (auto simp: idle_def)
  then show ?thesis using e1(1) e2 owner by blast
qed

lemma benchmark_loop_counts:
  "idle e \<Longrightarrow> benchmark_loop stale n i e a c = Inr (a + of_nat n, c + of_nat n)"
proof (induction n arbitrary: i e a c)
  case (Suc n)
  obtain e1 ac calls1 e2 cn calls2 where
      "engine_place_order e (benchmark_order i) = Inr (e1, [Order_Accepted ac], calls1)"
      "engine_cancel_order stale e1 (benchmark_cancel i) = Inr (e2, [Order_Canceled cn], calls2)" "idle e2"
    using benchmark_round [OF Suc.prems, of i stale] by blast
  then show ?case using Suc.IH [of e2] by (simp add: add.assoc)
qed simp

lemma benchmark_returns:
  "\<exists>r. run_place_cancel_benchmark stale rate zero_rate elapsed iterations = Inr r \<and>
     br_iterations r = iterations \<and> br_operations r = 2 * iterations \<and>
     br_accepted_orders r = iterations \<and> br_canceled_orders r = iterations"
proof (cases "iterations = 0")
  case True
  then show ?thesis by (simp add: run_place_cancel_benchmark_def empty_result_def)
next
  case False
  obtain e registered where reg:
      "register_instrument (new_engine default_config No_Sink) primary_instrument = (e, registered)"
    by (metis prod.collapse)
  show ?thesis
    using False idle_new [OF reg] benchmark_loop_counts [of e stale "unat iterations" 0 0 0]
    by (simp add: run_place_cancel_benchmark_def reg)
qed

text \<open>
  C35: the benchmark measures what it claims. For every number of iterations and any stale
  location in the cancels, the benchmark returns, every one of its orders was accepted and every
  one of its cancels succeeded, and it prints that: the actions are twice the iterations,
  modulo \<open>2^64\<close>.
\<close>

theorem benchmark_counts_every_operation:
  "\<exists>rate_text. print_benchmark stale rate zero_rate show_rate elapsed iterations =
     Inr (''iterations='' @ print_u64 iterations @ '' actions='' @ print_u64 (2 * iterations) @
       '' accepted='' @ print_u64 iterations @ '' canceled='' @ print_u64 iterations @
       '' elapsed_ns='' @ rate_text)"
proof -
  obtain r where "run_place_cancel_benchmark stale rate zero_rate elapsed iterations = Inr r"
      "br_iterations r = iterations" "br_operations r = 2 * iterations"
      "br_accepted_orders r = iterations" "br_canceled_orders r = iterations"
    using benchmark_returns [of stale rate zero_rate elapsed iterations] by blast
  then show ?thesis by (simp add: print_benchmark_def format_benchmark_result_def)
qed

section \<open>The command line\<close>

text \<open>Two opposite orders of the same price and quantity: the second trades with the first.\<close>

lemma fresh_primary_engine:
  "fst (register_instrument (new_engine default_config sink) primary_instrument) =
    \<lparr>en_configuration = default_config, en_event_sink = sink,
     en_instruments = [(1, primary_instrument)], en_order_books = [1 \<mapsto> empty_book],
     en_account_risk = new_account_risk default_config\<rparr>"
  by (simp add: register_instrument_def registry_add_def primary_instrument_def new_engine_def
      emplace_def accepts_orders_def price_is_positive_def quantity_is_positive_def word_sless_alt)

lemma stats_orders_trade:
  "\<exists>ac1 ac2 t. place_both (fst (register_instrument (new_engine default_config Batch_Sink) primary_instrument))
      (cli_order 1001 Buy 10 10) (cli_order 1002 Sell 10 11) =
    Inr ([Order_Accepted ac1], [Order_Accepted ac2, Trade_Executed t],
      [On_Events [Order_Accepted ac1], On_Events [Order_Accepted ac2, Trade_Executed t]])"
  unfolding fresh_primary_engine
  by (simp add: place_both_def cli_order_def engine_eval book_eval new_account_risk_def default_config_def)

lemma simulation_orders_trade:
  "\<exists>x. place_both (fst (register_instrument (new_engine default_config No_Sink) primary_instrument))
      (cli_order 2001 Buy 8 30) (cli_order 2002 Sell 8 31) = Inr x"
  unfolding fresh_primary_engine
  by (simp add: place_both_def cli_order_def engine_eval book_eval new_account_risk_def default_config_def)

lemma stats_line:
  "print_metrics_snapshot = Inr (''events_seen=3 accepted_orders=2 rejected_orders=0 trades_executed=1'' @
     '' canceled_orders=0 benchmark_probe=2'' @ [line_feed])"
proof -
  obtain ac1 ac2 t where "place_both
      (fst (register_instrument (new_engine default_config Batch_Sink) primary_instrument))
      (cli_order 1001 Buy 10 10) (cli_order 1002 Sell 10 11) =
    Inr ([Order_Accepted ac1], [Order_Accepted ac2, Trade_Executed t],
      [On_Events [Order_Accepted ac1], On_Events [Order_Accepted ac2, Trade_Executed t]])"
    using stats_orders_trade by blast
  then show ?thesis
    by (simp add: print_metrics_snapshot_def metrics_on_events_def new_metrics_def metrics_snapshot_def
        print_u64_def decimal.simps char_of_def bit_Suc_0_iff)
qed

lemma simulation_line: "print_simulation = Inr (''simulation=trade_match'' @ [line_feed])"
  using simulation_orders_trade by (auto simp: print_simulation_def)

text \<open>
  What the command line does. For all arguments, clocks and printed rates the program
  returns; it exits with status 2, after the usage text, exactly for an unknown option, and
  with 0 otherwise; \<open>--benchmark\<close> prints the result for the iterations given, or for 50000 when
  there are none or \<open>std::stoull\<close> cannot read them; \<open>--stats\<close> prints the counters of one
  accepted order and one that trades with it.
\<close>

theorem command_line_outcomes:
  "\<exists>res r. cli_main stale rate zero_rate show_rate elapsed args = Inr res \<and>
     run_place_cancel_benchmark stale rate zero_rate elapsed
       (if length args > 1 then case stoull (args ! 1) of None \<Rightarrow> 50000 | Some (n, consumed) \<Rightarrow> n
        else 50000) = Inr r \<and>
     (pr_out res, pr_status res) =
       (case args of
          [] \<Rightarrow> (usage_text, 0)
        | option # rest \<Rightarrow>
            if option = ''--help'' then (usage_text, 0)
            else if option = ''--benchmark'' then (format_benchmark_result show_rate r @ [line_feed], 0)
            else if option = ''--stats''
            then (''events_seen=3 accepted_orders=2 rejected_orders=0 trades_executed=1'' @
                  '' canceled_orders=0 benchmark_probe=2'' @ [line_feed], 0)
            else if option = ''--simulate'' then (''simulation=trade_match'' @ [line_feed], 0)
            else (usage_text, 2))"
proof -
  let ?n = "if length args > 1 then parse_iterations (args ! 1) 50000 else 50000"
  let ?N = "if length args > 1 then case stoull (args ! 1) of None \<Rightarrow> 50000 | Some (n, consumed) \<Rightarrow> n
    else 50000 :: u64"
  have n: "?n = ?N" by (simp add: parse_iterations_def)
  obtain r where r: "run_place_cancel_benchmark stale rate zero_rate elapsed ?n = Inr r"
    using benchmark_returns [of stale rate zero_rate elapsed ?n] by blast
  then have b: "prints (print_benchmark stale rate zero_rate show_rate elapsed ?n) =
      Inr \<lparr>pr_out = format_benchmark_result show_rate r @ [line_feed], pr_err = [], pr_status = 0\<rparr>"
    by (simp only: print_benchmark_def prints_def sum.case)
  consider "args = [] \<or> hd args = ''--help''" | "args \<noteq> []" "hd args = ''--benchmark''"
    | "args \<noteq> []" "hd args \<noteq> ''--help''" "hd args \<noteq> ''--benchmark''"
    by blast
  then show ?thesis
  proof cases
    case 2
    then have "cli_main stale rate zero_rate show_rate elapsed args =
        prints (print_benchmark stale rate zero_rate show_rate elapsed ?n)"
      unfolding cli_main_def by (simp del: if_split)
    then show ?thesis
      using 2 r b unfolding n by (cases args) (simp_all del: if_split)
  qed (use r n in \<open>cases args; simp add: cli_main_def prints_def stats_line simulation_line\<close>)+
qed

end
