(* ===== verification/Spec2Isabelle.thy ===== *)
theory Spec2Isabelle
  imports
    Instrument_Registry Order_Book_Runs Matching_Engine_Properties Matching_Engine_Decisions
    Matching_Engine_Batches Venue_Refinement Instrument_Independence Signed_Arithmetic Metrics Market_Data_Engine
    Journal_Properties Snapshot_Properties Command_Line_Properties
begin

text \<open>
  A model of the exchange core, its matching engine and what surrounds it, with the theorems that
  make it correct.

  \<^bold>\<open>The program.\<close> A \<open>MatchingEngine\<close> (\<open>src/src/engine\<close>) owns one \<open>OrderBook\<close> for each registered
  instrument (\<open>src/src/domain\<close>), the registry of instruments, a stateless \<open>RiskManager\<close> and an
  \<open>AccountRiskManager\<close> with the positions, the open orders and the margin of every account
  (\<open>src/src/risk\<close>). \<open>place_order\<close> passes a request through the checks, reserves quantity and margin
  in its account, lets the book match it, applies the resulting batch of events to the accounts
  and hands it to an event sink; \<open>cancel_order\<close> goes to the book and releases the reservation. An
  \<open>OrderGateway\<close> (\<open>src/src/gateway\<close>) stands in front with client sessions, request sequences and a
  reference-price band. Sinks are the \<open>MetricsCollector\<close> (\<open>src/src/metrics\<close>) and the
  \<open>MarketDataPublisher\<close> (\<open>src/src/market_data\<close>). A \<open>FileJournal\<close> and a \<open>SnapshotStore\<close>
  (\<open>src/src/journal\<close>, \<open>src/src/snapshot\<close>) persist records; a benchmark and a command line drive the
  engine (\<open>src/src/benchmark\<close>, \<open>src/src/adapters\<close>, \<open>src/benchmarks\<close>).

  \<^bold>\<open>How code becomes definitions.\<close> Structs are records, enums and variants are datatypes, machine
  integers are 64-bit words (\<open>Exchange_Prelude\<close> names them; signed comparisons are \<open><s\<close> and \<open>\<le>s\<close>,
  signed overflow, undefined in the source, wraps; \<open>Signed_Arithmetic\<close> says when it cannot
  happen). An operation that changes an object takes the state and returns the new
  one with its result. Sorted maps are association lists kept sorted (\<open>omap_put\<close>); hash maps are
  partial maps. Where the code may throw or divide by zero, the result is a sum with \<open>fault\<close>; where
  it returns \<open>false\<close> through an argument it is an option or a pair. Loops are recursive functions
  with termination proofs: no function has fuel.

  \<^bold>\<open>Theories.\<close>
  \<^item> \<open>Exchange_Prelude\<close>: words, ordered association lists, sums over maps; \<open>Text_Codec\<close>: printing
    and reading numbers, tokens and lines, as the C++ library does.
  \<^item> \<open>Domain\<close>: the value types, orders, trades, requests and events of \<open>include/exchange_core/domain\<close>
    and \<open>api\<close>.
  \<^item> \<open>Order_Book\<close>: \<open>OrderBook\<close> with its two nested matching loops (\<open>sweep\<close>, \<open>fill_level\<close>,
    \<open>fill_step\<close>), the fill-or-kill preflight, resting and canceling. \<open>Order_Book_Matching\<close> and
    \<open>Order_Book_Correctness\<close>: a specification on abstract priority queues (\<open>spec_place\<close>) and the
    refinement of it; \<open>Order_Book_Invariant\<close>: \<open>book_inv\<close>; \<open>Order_Book_Properties\<close>: the properties of
    single operations; \<open>Order_Book_Runs\<close>: those of whole runs (\<open>run_book\<close>), execution ids and the
    service of orders at rest by the measure \<open>up_to\<close>.
  \<^item> \<open>Open_Interest\<close>: the locale \<open>matching_book\<close>, what a client that mirrors the resting orders may
    rely on; \<open>Order_Book_Interest\<close> interprets it on the book (\<open>order_book\<close>).
  \<^item> \<open>Instrument_Registry\<close>, \<open>Risk_Checks\<close> (\<open>EngineConfig\<close>, \<open>RiskManager\<close>, \<open>FatFingerValidator\<close>).
  \<^item> \<open>Account_Risk\<close>: \<open>AccountRiskManager\<close>. \<open>Account_Risk_Ledger\<close>: \<open>ledger_ok\<close>, the account totals are
    sums over the reservations; \<open>Account_Risk_Settlement\<close>: how a batch of trades settles;
    \<open>Account_Risk_Properties\<close>: admission and release.
  \<^item> \<open>Matching_Engine\<close>: all operations. \<open>Matching_Engine_Invariant\<close>: the client lemmas of
    \<open>matching_book\<close> and \<open>engine_inv\<close>, kept by every operation; \<open>Matching_Engine_Reachable\<close>: the step
    relation and the reachable states; \<open>Matching_Engine_Properties\<close>, \<open>Matching_Engine_Effects\<close>,
    \<open>Matching_Engine_Decisions\<close>: safety, limits, decisions and effects; \<open>Matching_Engine_Batches\<close>: the
    form of the batches, as progress and preservation; \<open>Signed_Arithmetic\<close>: no signed value of the
    account checks and of the settlement leaves its 64 bits.
  \<^item> \<open>Exchange_Spec\<close>: an abstract exchange of queues, integer positions and margins, without
    account totals, reservations, index or price levels. \<open>Exchange_Ledger\<close>: the account risk
    manager seen from it; \<open>Exchange_Refinement\<close>: the view \<open>exchange_of\<close> of an engine, the simulation
    of each operation, and of every history of requests. \<open>Instrument_Independence\<close>: a history
    projected onto one instrument.
  \<^item> \<open>Order_Gateway\<close>, \<open>Order_Gateway_Properties\<close>: sessions and commands; gateway and engine as one
    reachable system. \<open>Venue_Refinement\<close>: an abstract venue, the exchange behind a door with
    sessions, sequences and a price band, and the refinement of every history to it.
  \<^item> \<open>Event_Delivery\<close>: the locale \<open>event_consumer\<close>, interpreted by \<open>Metrics\<close> and by
    \<open>Market_Data_Properties\<close> (model in \<open>Market_Data\<close>). \<open>Market_Data_Engine\<close>: the publisher as the sink
    of an engine (\<open>published\<close>), what it tracks and what its aggregates mean.
  \<^item> \<open>Journal\<close>, \<open>Journal_Properties\<close>; \<open>Snapshot\<close>, \<open>Snapshot_Properties\<close>; \<open>Command_Line\<close>,
    \<open>Command_Line_Properties\<close>.

  \<^bold>\<open>What the theorems show.\<close> The book refines its specification, keeps its invariant, conserves
  quantity, follows price-time priority and serves the orders at rest. In every reachable engine
  every call returns a well-formed batch, the reservations are exactly the resting orders, the
  positions balance, and the open order and credit limits hold. Instruments do not interfere:
  what one of them is answered and ends in depends on its own requests alone, so the limits of an
  account hold for each instrument and never across two.

  With a safe configuration (\<open>config_safe\<close>: the position limit plus the open order limit is below
  \<open>2 ^ 63\<close>, which the default configuration is not) no signed value overflows, the position limit
  holds too, every request is decided as an integer specification says, and the whole engine
  refines the abstract exchange: the same answers, trades and final state for every history of
  requests. If the deviation is also at most 10000 basis points, as \<open>EngineConfig::is_valid\<close> asks,
  gateway and engine together refine the abstract venue. With such a deviation the gateway decides
  as its integer specification says, and an engine behind it receives each request sequence of a
  session once; in any case it isolates accounts.

  Counters and market data follow the events whatever the batching; a batch sends one update for
  each level it touches; the publisher tracks exactly the resting orders, and by how much an
  aggregate exceeds the depth of its level is determined by the batches. The journal and the
  snapshot store read back what they wrote, and their behaviour under torn writes, damaged bytes
  and failing system calls is exact.

  \<^bold>\<open>What they found.\<close> \<open>OrderBook::cancel_order\<close> reads the index entry it has just erased: what it
  reads is the parameter \<open>stale\<close>, and no theorem depends on it. With the default configuration the
  projected position overflows. The publisher overstates a level when an incoming limit order
  trades in part. A journal record cut inside the digits of its reason is read as complete. The
  size check of a snapshot can wrap. A pre-trade rejection inside the engine reports account 0.

  \<^bold>\<open>Parameters and bounds.\<close> The outcome of every system call of the journal and the snapshot store,
  the clock, and the floating-point rate of the benchmark are arguments of the definitions. Texts
  are assumed to be shorter than \<open>2^64\<close> where their size is used as \<open>std::size_t\<close>.

  \<^bold>\<open>Not modelled.\<close> Memory allocation and its failure; \<open>fsync\<close> beyond whether it succeeds, and what
  the file system keeps in a crash besides the order of the calls; file paths with links; hash
  functions of the containers; the test driver and the build scripts. The mutex of the collector
  makes each of its calls atomic, and nothing else in the program is shared between threads.
\<close>

end
